(* ===== verification/Go_Prelude.thy ===== *)
theory Go_Prelude
  imports Main "HOL-Library.Word"
begin

text \<open>
  The prelude of the development: the Go-level notions every component shares.

  \<^item> machine integers (\<open>byte\<close>, \<open>u16\<close>, \<open>u32\<close>, \<open>u64\<close> are words; a Go \<open>int\<close> is
    an \<open>int\<close> of the 64-bit range, \<open>wrap64\<close> is the conversion back into it);
  \<^item> errors and outcomes: a call returns (\<open>Ok\<close>), returns an error (\<open>Err\<close>) or panics
    (\<open>Panic\<close>); the error type \<open>conn.Error\<close> of \<^verbatim>\<open>conn/errors.go\<close> is one constructor;
  \<^item> slices: indexing, slice expressions and \<open>make\<close> with the runtime's range checks;
  \<^item> byte order and varints, as \<^verbatim>\<open>encoding/binary\<close> of the standard library defines them;
  \<^item> \<open>yields pd m bs x\<close>: the reader computation \<open>m\<close> consumes exactly the bytes \<open>bs\<close> and
    returns \<open>x\<close>; the rules of this relation carry all wire proofs.
\<close>

unbundle bit_operations_syntax

named_theorems yields_intros \<open>introduction rules of the wire relation\<close>
named_theorems col_defs \<open>definitions of column operations\<close>
named_theorems wire_simps \<open>equations about wire images\<close>

type_synonym byte = "8 word"
type_synonym u16 = "16 word"
type_synonym u32 = "32 word"
type_synonym u64 = "64 word"

section \<open>Errors and outcomes\<close>

datatype kind = KindNetwork | KindProtocol | KindConfig | KindServer | KindInternal

text \<open>
  \<open>Errorf\<close> is \<open>fmt.Errorf\<close>/\<open>errors.New\<close> with the constant part of its text, \<open>Wrapf\<close> is
  \<open>fmt.Errorf\<close> with a \<open>%w\<close> operand, \<open>Ext_error\<close> an error value made by the standard
  library or a dependency, \<open>Conn_error\<close> the struct \<open>conn.Error\<close> with its fields
  \<open>Kind\<close>, \<open>Message\<close>, \<open>ServerCode\<close> and \<open>Err\<close>.
\<close>

datatype error =
    Errorf string
  | Wrapf string error
  | Ext_error string
  | Conn_error (err_kind: kind) (err_message: string) (err_code: int) (err_inner: "error option")

fun error_text :: "error \<Rightarrow> string" where
  "error_text (Errorf m) = m"
| "error_text (Wrapf m e) = m @ '': '' @ error_text e"
| "error_text (Ext_error m) = m"
| "error_text (Conn_error k m c None) = m"
| "error_text (Conn_error k m c (Some e)) = m @ '': '' @ error_text e"

fun error_unwrap :: "error \<Rightarrow> error option" where
  "error_unwrap (Wrapf m e) = Some e"
| "error_unwrap (Conn_error k m c e) = e"
| "error_unwrap _ = None"

datatype 'a go = Ok 'a | Err error | Panic string

fun go_bind :: "'a go \<Rightarrow> ('a \<Rightarrow> 'b go) \<Rightarrow> 'b go" where
  "go_bind (Ok x) f = f x"
| "go_bind (Err e) f = Err e"
| "go_bind (Panic m) f = Panic m"

fun go_wrap :: "string \<Rightarrow> 'a go \<Rightarrow> 'a go" where
  "go_wrap m (Err e) = Err (Wrapf m e)"
| "go_wrap m (Ok x) = Ok x"
| "go_wrap m (Panic p) = Panic p"

fun is_panic :: "'a go \<Rightarrow> bool" where
  "is_panic (Panic m) = True"
| "is_panic _ = False"

lemma go_bind_Ok_right [simp]: "go_bind m Ok = m"
  by (cases m) simp_all

lemma go_bind_assoc: "go_bind (go_bind m f) g = go_bind m (\<lambda>x. go_bind (f x) g)"
  by (cases m) simp_all

lemma go_bind_eq_Ok: "go_bind m f = Ok y \<longleftrightarrow> (\<exists>x. m = Ok x \<and> f x = Ok y)"
  by (cases m) simp_all

section \<open>Machine integers\<close>

definition maxInt :: int where
  "maxInt = 2 ^ 63 - 1"

definition wrap64 :: "int \<Rightarrow> int" where
  "wrap64 x = sint (word_of_int x :: u64)"

lemma wrap64_id: "- (2 ^ 63) \<le> x \<Longrightarrow> x < 2 ^ 63 \<Longrightarrow> wrap64 x = x"
  by (simp add: wrap64_def signed_of_int signed_take_bit_int_eq_self)

text \<open>Go's integer division and remainder truncate towards zero.\<close>

definition go_div :: "int \<Rightarrow> int \<Rightarrow> int" where
  "go_div a b = sgn a * sgn b * (\<bar>a\<bar> div \<bar>b\<bar>)"

definition go_mod :: "int \<Rightarrow> int \<Rightarrow> int" where
  "go_mod a b = a - b * go_div a b"

section \<open>Slices\<close>

definition idx :: "'a list \<Rightarrow> int \<Rightarrow> 'a go" where
  "idx xs i = (if 0 \<le> i \<and> i < int (length xs) then Ok (xs ! nat i)
               else Panic ''index out of range'')"

definition slice_expr :: "'a list \<Rightarrow> int \<Rightarrow> int \<Rightarrow> 'a list go" where
  "slice_expr xs lo hi =
     (if 0 \<le> lo \<and> lo \<le> hi \<and> hi \<le> int (length xs)
      then Ok (take (nat (hi - lo)) (drop (nat lo) xs))
      else Panic ''slice bounds out of range'')"

text \<open>
  \<open>make([]T, len, cap)\<close> panics when the sizes are out of order or the allocation exceeds what
  the runtime's allocator can address (2^48 bytes on 64-bit platforms); an allocation within
  that limit is taken to succeed.
\<close>

definition maxAlloc :: int where
  "maxAlloc = 2 ^ 48"

definition go_make :: "nat \<Rightarrow> int \<Rightarrow> int \<Rightarrow> unit go" where
  "go_make elem len cap =
     (if 0 \<le> len \<and> len \<le> cap \<and> int elem * cap \<le> maxAlloc then Ok ()
      else Panic ''makeslice: out of range'')"

lemma idx_in [simp]: "i < length xs \<Longrightarrow> idx xs (int i) = Ok (xs ! i)"
  by (simp add: idx_def)

lemma idx_0_Cons [simp]: "idx (x # xs) 0 = Ok x"
  by (simp add: idx_def)

lemma idx_out: "i \<ge> length xs \<Longrightarrow> idx xs (int i) = Panic ''index out of range''"
  by (simp add: idx_def)

lemma slice_expr_in:
  "lo \<le> hi \<Longrightarrow> hi \<le> length xs \<Longrightarrow> slice_expr xs (int lo) (int hi) = Ok (take (hi - lo) (drop lo xs))"
  by (simp add: slice_expr_def nat_diff_distrib)

lemma go_make_double:
  assumes "0 \<le> n" and "int elem * n \<le> 2 ^ 47" and "0 < elem"
  shows "go_make elem n (wrap64 (n * 2)) = Ok ()"
proof -
  have "1 * n \<le> int elem * n" using assms by (intro mult_right_mono) simp_all
  with assms have "wrap64 (n * 2) = n * 2" by (intro wrap64_id) simp_all
  moreover have "int elem * n * 2 \<le> 2 ^ 47 * 2" using assms(2) by (intro mult_right_mono) simp_all
  then have "int elem * (n * 2) \<le> maxAlloc" by (simp only: mult.assoc maxAlloc_def) simp
  ultimately show ?thesis using assms(1) by (simp add: go_make_def)
qed

lemma go_make_cases: "go_make elem len cap = Ok () \<or> (\<exists>p. go_make elem len cap = Panic p)"
  by (simp add: go_make_def)

text \<open>The contract theorems are about data of less than 2^40 bytes (1 TiB) on the wire.\<close>

abbreviation small :: "'a list \<Rightarrow> bool" where
  "small xs \<equiv> length xs < 2 ^ 40"

fun go_map :: "('a \<Rightarrow> 'b go) \<Rightarrow> 'a list \<Rightarrow> 'b list go" where
  "go_map f [] = Ok []"
| "go_map f (x # xs) = go_bind (f x) (\<lambda>y. go_bind (go_map f xs) (\<lambda>ys. Ok (y # ys)))"

fun go_fold :: "('a \<Rightarrow> 'b \<Rightarrow> 'b go) \<Rightarrow> 'a list \<Rightarrow> 'b \<Rightarrow> 'b go" where
  "go_fold f [] b = Ok b"
| "go_fold f (x # xs) b = go_bind (f x b) (go_fold f xs)"

lemma go_map_Ok: "(\<And>x. x \<in> set xs \<Longrightarrow> f x = Ok (g x)) \<Longrightarrow> go_map f xs = Ok (map g xs)"
  by (induction xs) simp_all

lemma go_map_cong: "(\<And>x. x \<in> set xs \<Longrightarrow> f x = g x) \<Longrightarrow> go_map f xs = go_map g xs"
  by (induction xs) simp_all

lemma go_map_upt:
  "m \<le> n \<Longrightarrow> (\<And>i. m \<le> i \<Longrightarrow> i < n \<Longrightarrow> f i = Ok (g i)) \<Longrightarrow> go_map f [m..<n] = Ok (map g [m..<n])"
  by (rule go_map_Ok) simp

section \<open>Little endian\<close>

fun le_enc :: "nat \<Rightarrow> nat \<Rightarrow> byte list" where
  "le_enc 0 v = []"
| "le_enc (Suc n) v = word_of_nat v # le_enc n (v div 256)"

fun le_dec :: "byte list \<Rightarrow> nat" where
  "le_dec [] = 0"
| "le_dec (b # bs) = unat b + 256 * le_dec bs"

lemma length_le_enc [simp]: "length (le_enc n v) = n"
  by (induction n arbitrary: v) simp_all

lemma unat_byte_of_nat: "unat (word_of_nat v :: byte) = v mod 256"
  by (simp add: unat_of_nat)

lemma le_enc_numeral:
  "le_enc (numeral k) v = word_of_nat v # le_enc (pred_numeral k) (v div 256)"
  by (simp only: numeral_eq_Suc le_enc.simps)

lemma le_dec_enc: "le_dec (le_enc n v) = v mod 256 ^ n"
proof (induction n arbitrary: v)
  case (Suc n)
  have "v mod (256 * 256 ^ n) = 256 * (v div 256 mod 256 ^ n) + v mod 256"
    by (rule mod_mult2_eq)
  with Suc.IH [of "v div 256"] show ?case
    by (simp add: unat_byte_of_nat)
qed simp

lemma unat_byte_less: "unat (b :: byte) < 256"
  using unsigned_less [of b, where ?'a = nat] by simp

lemma le_dec_bound: "le_dec bs < 256 ^ length bs"
proof (induction bs)
  case (Cons b bs)
  note unat_byte_less [of b]
  then have "unat b + 256 * le_dec bs < 256 + 256 * le_dec bs" by simp
  also have "\<dots> \<le> 256 * 256 ^ length bs" using Cons.IH by simp
  finally show ?case by simp
qed simp

lemma byte_256 [simp]: "(256 :: byte) = 0"
  by (simp only: word_unat_eq_iff) simp

lemma le_enc_dec: "length bs = n \<Longrightarrow> le_enc n (le_dec bs) = bs"
proof (induction bs arbitrary: n)
  case (Cons b bs)
  note unat_byte_less [of b]
  with Cons show ?case by auto
qed simp

section \<open>Strings as bytes\<close>

definition str_bytes :: "string \<Rightarrow> byte list" where
  "str_bytes s = map of_char s"

definition bytes_str :: "byte list \<Rightarrow> string" where
  "bytes_str bs = map (\<lambda>b. char_of (unat b)) bs"

lemma unat_of_char: "unat (of_char c :: byte) = of_char c"
proof -
  have "(of_char c :: byte) = word_of_nat (of_char c)" by (simp only: of_nat_of_char)
  then show ?thesis by (simp add: unat_byte_of_nat)
qed

lemma bytes_str_bytes [simp]: "bytes_str (str_bytes s) = s"
  by (simp add: bytes_str_def str_bytes_def unat_of_char comp_def)

lemma length_str_bytes [simp]: "length (str_bytes s) = length s"
  by (simp add: str_bytes_def)

section \<open>Varints\<close>

text \<open>\<open>PutUvarint\<close> of \<^verbatim>\<open>encoding/binary\<close>: seven bits a byte, least significant group first.\<close>

fun uvarint :: "nat \<Rightarrow> byte list" where
  "uvarint x = (if x < 128 then [word_of_nat x]
                else word_of_nat (x mod 128 + 128) # uvarint (x div 128))"

declare uvarint.simps [simp del]

lemma uvarint_small [simp]: "x < 128 \<Longrightarrow> uvarint x = [word_of_nat x]"
  by (simp add: uvarint.simps [of x])

lemma uvarint_big: "128 \<le> x \<Longrightarrow> uvarint x = word_of_nat (x mod 128 + 128) # uvarint (x div 128)"
  by (simp add: uvarint.simps [of x])

lemma uvarint_not_Nil [simp]: "uvarint x \<noteq> []"
  by (cases "x < 128") (simp_all add: uvarint_big)

lemma length_uvarint_pos: "Suc 0 \<le> length (uvarint x)"
  using uvarint_not_Nil [of x] by (cases "uvarint x") auto

lemma length_uvarint_le: "x < 128 ^ Suc n \<Longrightarrow> length (uvarint x) \<le> Suc n"
proof (induction n arbitrary: x)
  case (Suc n)
  show ?case
  proof (cases "x < 128")
    case False
    have "x div 128 < 128 ^ Suc n"
      using Suc.prems by (simp add: less_mult_imp_div_less mult.commute)
    with Suc.IH [of "x div 128"] False show ?thesis by (simp add: uvarint_big)
  qed simp
qed simp

section \<open>Reader computations\<close>

text \<open>
  A computation over a reader of state \<open>'r\<close>: the outcome and the reader afterwards.
\<close>

type_synonym ('r, 'a) rdm = "'r \<Rightarrow> 'a go \<times> 'r"

definition rret :: "'a \<Rightarrow> ('r, 'a) rdm" where
  "rret x = (\<lambda>r. (Ok x, r))"

definition rlift :: "'a go \<Rightarrow> ('r, 'a) rdm" where
  "rlift x = (\<lambda>r. (x, r))"

definition rbind :: "('r, 'a) rdm \<Rightarrow> ('a \<Rightarrow> ('r, 'b) rdm) \<Rightarrow> ('r, 'b) rdm" where
  "rbind m k = (\<lambda>r. case m r of
       (Ok x, r') \<Rightarrow> k x r'
     | (Err e, r') \<Rightarrow> (Err e, r')
     | (Panic p, r') \<Rightarrow> (Panic p, r'))"

definition rwrap :: "(error \<Rightarrow> error) \<Rightarrow> ('r, 'a) rdm \<Rightarrow> ('r, 'a) rdm" where
  "rwrap f m = (\<lambda>r. case m r of
       (Err e, r') \<Rightarrow> (Err (f e), r')
     | (x, r') \<Rightarrow> (x, r'))"

lemma rret_apply [simp]: "rret x r = (Ok x, r)"
  by (simp add: rret_def)

lemma rlift_apply [simp]: "rlift x r = (x, r)"
  by (simp add: rlift_def)

lemma rbind_Ok [simp]: "m r = (Ok x, r') \<Longrightarrow> rbind m k r = k x r'"
  by (simp add: rbind_def)

lemma rbind_Err [simp]: "m r = (Err e, r') \<Longrightarrow> rbind m k r = (Err e, r')"
  by (simp add: rbind_def)

lemma rbind_Panic [simp]: "m r = (Panic p, r') \<Longrightarrow> rbind m k r = (Panic p, r')"
  by (simp add: rbind_def)

lemma rbind_rret [simp]: "rbind (rret x) k = k x"
  by (simp add: rbind_def rret_def)

lemma rbind_rlift_Ok [simp]: "rbind (rlift (Ok x)) k = k x"
  by (simp add: rbind_def rlift_def)

lemma rbind_rlift_Err [simp]: "rbind (rlift (Err e)) k = rlift (Err e)"
  by (simp add: rbind_def rlift_def)

lemma rbind_rlift_Panic [simp]: "rbind (rlift (Panic p)) k = rlift (Panic p)"
  by (simp add: rbind_def rlift_def)

lemma rbind_assoc: "rbind (rbind m k) h = rbind m (\<lambda>x. rbind (k x) h)"
  by (auto simp: rbind_def fun_eq_iff split: go.splits prod.splits)

lemma rbind_eq_Ok: "rbind m k r = (Ok y, r') \<longleftrightarrow> (\<exists>x r1. m r = (Ok x, r1) \<and> k x r1 = (Ok y, r'))"
  by (auto simp: rbind_def split: prod.splits go.splits)

lemma rwrap_eq_Ok: "rwrap f m r = (Ok y, r') \<longleftrightarrow> m r = (Ok y, r')"
  by (auto simp: rwrap_def split: prod.splits go.splits)

lemma rlift_eq_Ok: "rlift x r = (Ok y, r') \<longleftrightarrow> x = Ok y \<and> r = r'"
  by (simp add: rlift_def)

lemma rlift_Ok: "rlift (Ok x) = rret x"
  by (simp add: rret_def rlift_def)

lemma rwrap_Ok [simp]: "m r = (Ok x, r') \<Longrightarrow> rwrap f m r = (Ok x, r')"
  by (simp add: rwrap_def)

lemma rwrap_Err [simp]: "m r = (Err e, r') \<Longrightarrow> rwrap f m r = (Err (f e), r')"
  by (simp add: rwrap_def)

section \<open>The wire relation\<close>

text \<open>
  \<open>pd r\<close> is the bytes the peer has sent and the reader \<open>r\<close> has not consumed yet. \<open>yields\<close> is
  about both sides of a decoder: the complete image is consumed exactly, and every truncation of
  it (the connection ends early) is an error, neither a panic nor a shorter result.
\<close>

definition yields :: "('r \<Rightarrow> byte list) \<Rightarrow> ('r, 'a) rdm \<Rightarrow> byte list \<Rightarrow> 'a \<Rightarrow> bool" where
  "yields pd m bs x \<longleftrightarrow>
     (\<forall>r rest. pd r = bs @ rest \<longrightarrow> (\<exists>r'. m r = (Ok x, r') \<and> pd r' = rest)) \<and>
     (\<forall>r rest. bs = pd r @ rest \<longrightarrow> rest \<noteq> [] \<longrightarrow> (\<exists>e r'. m r = (Err e, r')))"

definition fails :: "('r \<Rightarrow> byte list) \<Rightarrow> ('r, 'a) rdm \<Rightarrow> byte list \<Rightarrow> (error \<Rightarrow> bool) \<Rightarrow> bool" where
  "fails pd m bs E \<longleftrightarrow>
     (\<forall>r rest. pd r = bs @ rest \<longrightarrow> (\<exists>e r'. m r = (Err e, r') \<and> E e))"

definition panics :: "('r \<Rightarrow> byte list) \<Rightarrow> ('r, 'a) rdm \<Rightarrow> byte list \<Rightarrow> bool" where
  "panics pd m bs \<longleftrightarrow>
     (\<forall>r rest. pd r = bs @ rest \<longrightarrow> (\<exists>p r'. m r = (Panic p, r')))"

lemma yieldsI:
  assumes "\<And>r rest. pd r = bs @ rest \<Longrightarrow> \<exists>r'. m r = (Ok x, r') \<and> pd r' = rest"
    and "\<And>r rest. bs = pd r @ rest \<Longrightarrow> rest \<noteq> [] \<Longrightarrow> \<exists>e r'. m r = (Err e, r')"
  shows "yields pd m bs x"
  using assms by (auto simp: yields_def)

lemma yieldsD: "yields pd m bs x \<Longrightarrow> pd r = bs @ rest \<Longrightarrow> \<exists>r'. m r = (Ok x, r') \<and> pd r' = rest"
  by (simp add: yields_def)

lemma yields_truncated:
  "yields pd m bs x \<Longrightarrow> bs = pd r @ rest \<Longrightarrow> rest \<noteq> [] \<Longrightarrow> \<exists>e r'. m r = (Err e, r')"
  by (simp add: yields_def)

lemma yields_rret [yields_intros]: "yields pd (rret x) [] x"
  by (simp add: yields_def)

lemma yields_Pair [simp]: "yields pd (Pair (Ok x)) [] x"
  by (simp add: yields_def)

lemma yields_bind:
  assumes "yields pd m bs x" and "yields pd (k x) bs' y"
  shows "yields pd (rbind m k) (bs @ bs') y"
proof (rule yieldsI)
  fix r rest assume "pd r = (bs @ bs') @ rest"
  then have "pd r = bs @ bs' @ rest" by simp
  with assms(1) obtain r1 where 1: "m r = (Ok x, r1)" "pd r1 = bs' @ rest"
    by (blast dest: yieldsD)
  with assms(2) obtain r2 where "k x r1 = (Ok y, r2)" "pd r2 = rest"
    by (blast dest: yieldsD)
  with 1 show "\<exists>r'. rbind m k r = (Ok y, r') \<and> pd r' = rest" by simp
next
  fix r rest assume r: "bs @ bs' = pd r @ rest" and ne: "rest \<noteq> []"
  then obtain vs where "bs = pd r @ vs \<and> vs @ bs' = rest \<or> bs @ vs = pd r \<and> bs' = vs @ rest"
    by (auto simp: append_eq_append_conv2)
  then consider us where "bs = pd r @ us" "us \<noteq> []" | us where "pd r = bs @ us" "bs' = us @ rest"
    by (cases "vs = []") (auto simp: eq_commute [of "bs @ vs"])
  then show "\<exists>e r'. rbind m k r = (Err e, r')"
  proof cases
    case 1
    with yields_truncated [OF assms(1)] show ?thesis by fastforce
  next
    case 2
    with assms(1) obtain r1 where r1: "m r = (Ok x, r1)" "pd r1 = us" by (blast dest: yieldsD)
    with 2 ne yields_truncated [OF assms(2), of r1 rest] show ?thesis by auto
  qed
qed

lemma yields_bind_eq:
  "yields pd m bs x \<Longrightarrow> yields pd (k x) bs' y \<Longrightarrow> bs'' = bs @ bs' \<Longrightarrow> yields pd (rbind m k) bs'' y"
  by (simp add: yields_bind)

lemma yields_bind_rret:
  "yields pd m bs x \<Longrightarrow> yields pd (rbind m (\<lambda>y. rret (f y))) bs (f x)"
  by (rule yields_bind_eq [OF _ yields_rret]) simp_all

lemma yields_bind_pure:
  assumes "yields pd m bs x" and "\<And>r. k x r = (Ok y, r)"
  shows "yields pd (rbind m k) bs y"
proof -
  have "k x = rret y" using assms(2) by (simp add: fun_eq_iff)
  with assms(1) show ?thesis using yields_bind [of pd m bs x k "[]" y] by (simp add: yields_rret)
qed

lemma yields_rwrap [yields_intros]: "yields pd m bs x \<Longrightarrow> yields pd (rwrap f m) bs x"
  by (fastforce simp: yields_def)

lemma fails_first: "fails pd m bs E \<Longrightarrow> fails pd (rbind m k) bs E"
  by (fastforce simp: fails_def)

lemma fails_bind:
  assumes "yields pd m bs x" and "fails pd (k x) bs' E"
  shows "fails pd (rbind m k) (bs @ bs') E"
  unfolding fails_def
proof (intro allI impI)
  fix r rest assume "pd r = (bs @ bs') @ rest"
  then have "pd r = bs @ bs' @ rest" by simp
  with assms(1) obtain r1 where 1: "m r = (Ok x, r1)" "pd r1 = bs' @ rest"
    by (blast dest: yieldsD)
  with assms(2) show "\<exists>e r'. rbind m k r = (Err e, r') \<and> E e"
    by (auto simp: fails_def)
qed

lemma fails_rlift: "E e \<Longrightarrow> fails pd (rlift (Err e)) [] E"
  by (simp add: fails_def)

lemma fails_prefix: "fails pd m bs E \<Longrightarrow> fails pd m (bs @ bs') E"
  by (auto simp: fails_def)

lemma panics_first: "panics pd m bs \<Longrightarrow> panics pd (rbind m k) bs"
  by (fastforce simp: panics_def)

lemma panics_rwrap: "panics pd m bs \<Longrightarrow> panics pd (rwrap f m) bs"
  by (fastforce simp: panics_def rwrap_def)

lemma panics_rlift_any [simp]: "panics pd (rlift (Panic p)) bs" "panics pd (Pair (Panic p)) bs"
  by (simp_all add: panics_def)

lemma panics_prefix: "panics pd m bs \<Longrightarrow> panics pd m (bs @ bs')"
  by (auto simp: panics_def)

lemma panics_rlift: "panics pd (rlift (Panic p)) []"
  by (simp add: panics_def)

lemma panics_bind:
  assumes "yields pd m bs x" and "panics pd (k x) bs'"
  shows "panics pd (rbind m k) (bs @ bs')"
  unfolding panics_def
proof (intro allI impI)
  fix r rest assume "pd r = (bs @ bs') @ rest"
  then have "pd r = bs @ bs' @ rest" by simp
  with assms(1) obtain r1 where 1: "m r = (Ok x, r1)" "pd r1 = bs' @ rest"
    by (blast dest: yieldsD)
  with assms(2) show "\<exists>p r'. rbind m k r = (Panic p, r')"
    by (auto simp: panics_def)
qed

lemma fails_bind0: "yields pd m bs x \<Longrightarrow> fails pd (k x) [] E \<Longrightarrow> fails pd (rbind m k) bs E"
  using fails_bind [of pd m bs x k "[]" E] by simp

lemma panics_bind0: "yields pd m bs x \<Longrightarrow> panics pd (k x) [] \<Longrightarrow> panics pd (rbind m k) bs"
  using panics_bind [of pd m bs x k "[]"] by simp

end
