(* ===== verification/Proto.thy ===== *)
theory Proto
  imports Go_Prelude
begin

text \<open>
  The ch-go package \<^verbatim>\<open>proto\<close> is not part of the repository: its reader, buffer, writer and
  column types are parameters of the model. Each is a record of the operations the source
  calls, and \<open>reader_ok\<close>, \<open>buffer_ok\<close>, \<open>writer_ok\<close> and \<open>ctypes_ok\<close> state the documented
  behaviour the code relies on, over the bytes \<open>pd r\<close> a reader has still to deliver and the
  bytes \<open>out w\<close> a writer has chained for its next flush. The last section gives one concrete
  instance of each, over byte lists, for the closed examples of the development.
\<close>

section \<open>Operations\<close>

record 'r preader =
  rd_read :: "nat \<Rightarrow> 'r \<Rightarrow> (byte list \<times> error option) \<times> 'r"
  rd_full :: "nat \<Rightarrow> ('r, byte list) rdm"
  rd_raw :: "nat \<Rightarrow> ('r, byte list) rdm"
  rd_uvarint :: "('r, u64) rdm"
  rd_int :: "('r, int) rdm"
  rd_int32 :: "('r, u32) rdm"
  rd_uint32 :: "('r, u32) rdm"
  rd_int64 :: "('r, u64) rdm"
  rd_bool :: "('r, bool) rdm"
  rd_str :: "('r, string) rdm"
  rd_strraw :: "('r, byte list) rdm"

text \<open>A \<open>proto.Buffer\<close> is its field \<open>Buf\<close>, a byte slice the source also appends to directly.\<close>

record pbuffer =
  put_string :: "string \<Rightarrow> byte list \<Rightarrow> byte list"
  put_int64 :: "u64 \<Rightarrow> byte list \<Rightarrow> byte list"
  put_uint32 :: "u32 \<Rightarrow> byte list \<Rightarrow> byte list"
  put_int :: "int \<Rightarrow> byte list \<Rightarrow> byte list"
  put_bool :: "bool \<Rightarrow> byte list \<Rightarrow> byte list"
  put_uvarint :: "u64 \<Rightarrow> byte list \<Rightarrow> byte list"

text \<open>\<open>ChainBuffer\<close> runs a callback on the writer's buffer, \<open>ChainWrite\<close> adds a byte slice.\<close>

record 'w pwriter =
  chain_buffer :: "(byte list \<Rightarrow> byte list) \<Rightarrow> 'w \<Rightarrow> 'w"
  chain_write :: "byte list \<Rightarrow> 'w \<Rightarrow> 'w"

text \<open>The constants \<open>proto.ColumnType...\<close> the source names, and the methods of that type.\<close>

datatype ctconst =
    CT_UInt8 | CT_UInt16 | CT_UInt32 | CT_UInt64 | CT_Int8 | CT_Int16 | CT_Int32 | CT_Int64
  | CT_Float32 | CT_Float64 | CT_String | CT_FixedString | CT_Array | CT_Nullable | CT_Map
  | CT_LowCardinality | CT_Tuple | CT_Int128 | CT_Int256 | CT_UInt128 | CT_UInt256
  | CT_Decimal | CT_Decimal32 | CT_Decimal64 | CT_Decimal128 | CT_Decimal256
  | CT_Date | CT_Date32 | CT_DateTime | CT_DateTime64 | CT_Enum8 | CT_Enum16
  | CT_IPv4 | CT_IPv6 | CT_UUID

record ctypes =
  ct_name :: "ctconst \<Rightarrow> string"
  ct_base :: "string \<Rightarrow> string"
  ct_elem :: "string \<Rightarrow> string"
  ct_with :: "string \<Rightarrow> string list \<Rightarrow> string"
  ct_sub :: "string \<Rightarrow> string list \<Rightarrow> string"

section \<open>Documented behaviour\<close>

definition short_fails :: "('r \<Rightarrow> byte list) \<Rightarrow> (nat \<Rightarrow> ('r, byte list) rdm) \<Rightarrow> bool" where
  "short_fails pd m \<longleftrightarrow> (\<forall>n r. length (pd r) < n \<longrightarrow> (\<exists>e r'. m n r = (Err e, r')))"

definition reader_ok :: "'r preader \<Rightarrow> ('r \<Rightarrow> byte list) \<Rightarrow> bool" where
  "reader_ok P pd \<longleftrightarrow>
     (\<forall>bs. yields pd (rd_full P (length bs)) bs bs) \<and>
     (\<forall>bs. yields pd (rd_raw P (length bs)) bs bs) \<and>
     short_fails pd (rd_full P) \<and> short_fails pd (rd_raw P) \<and>
     (\<forall>r b rest. pd r = b # rest \<longrightarrow> (\<exists>r'. rd_read P 1 r = (([b], None), r') \<and> pd r' = rest)) \<and>
     (\<forall>r. pd r = [] \<longrightarrow> (\<exists>e r'. rd_read P 1 r = (([], e), r'))) \<and>
     (\<forall>v < 2 ^ 64. yields pd (rd_uvarint P) (uvarint v) (word_of_nat v)) \<and>
     (\<forall>v < 2 ^ 63. yields pd (rd_int P) (uvarint v) (int v)) \<and>
     (\<forall>w. yields pd (rd_int32 P) (le_enc 4 (unat w)) w) \<and>
     (\<forall>w. yields pd (rd_uint32 P) (le_enc 4 (unat w)) w) \<and>
     (\<forall>w. yields pd (rd_int64 P) (le_enc 8 (unat w)) w) \<and>
     (\<forall>b. yields pd (rd_bool P) [if b then 1 else 0] b) \<and>
     (\<forall>s. length s < 2 ^ 63 \<longrightarrow> yields pd (rd_str P) (uvarint (length s) @ str_bytes s) s) \<and>
     (\<forall>bs. length bs < 2 ^ 63 \<longrightarrow> yields pd (rd_strraw P) (uvarint (length bs) @ bs) bs)"

definition buffer_ok :: "pbuffer \<Rightarrow> bool" where
  "buffer_ok B \<longleftrightarrow>
     (\<forall>s b. put_string B s b = b @ uvarint (length s) @ str_bytes s) \<and>
     (\<forall>w b. put_int64 B w b = b @ le_enc 8 (unat w)) \<and>
     (\<forall>w b. put_uint32 B w b = b @ le_enc 4 (unat w)) \<and>
     (\<forall>n b. put_int B n b = b @ uvarint (unat (word_of_int n :: u64))) \<and>
     (\<forall>x b. put_bool B x b = b @ [if x then 1 else 0]) \<and>
     (\<forall>w b. put_uvarint B w b = b @ uvarint (unat w))"

text \<open>A callback of \<open>ChainBuffer\<close> may only append to the buffer it is given.\<close>

definition appends :: "(byte list \<Rightarrow> byte list) \<Rightarrow> byte list \<Rightarrow> bool" where
  "appends f bs \<longleftrightarrow> (\<forall>b. f b = b @ bs)"

definition writer_ok :: "'w pwriter \<Rightarrow> ('w \<Rightarrow> byte list) \<Rightarrow> bool" where
  "writer_ok W out \<longleftrightarrow>
     (\<forall>f bs w. appends f bs \<longrightarrow> out (chain_buffer W f w) = out w @ bs) \<and>
     (\<forall>bs w. out (chain_write W bs w) = out w @ bs)"

fun join :: "string \<Rightarrow> string list \<Rightarrow> string" where
  "join sep [] = []"
| "join sep [s] = s"
| "join sep (s # t # ts) = s @ sep @ join sep (t # ts)"

definition ctypes_ok :: "ctypes \<Rightarrow> bool" where
  "ctypes_ok C \<longleftrightarrow>
     inj (ct_name C) \<and>
     (\<forall>k. ct_base C (ct_name C k) = ct_name C k \<and> ct_elem C (ct_name C k) = []) \<and>
     (\<forall>k ps. ps \<noteq> [] \<longrightarrow> ct_base C (ct_with C (ct_name C k) ps) = ct_name C k \<and>
        ct_elem C (ct_with C (ct_name C k) ps) = join '', '' ps \<and> ct_with C (ct_name C k) ps \<noteq> []) \<and>
     (\<forall>k ps. ps \<noteq> [] \<longrightarrow> ct_base C (ct_sub C (ct_name C k) ps) = ct_name C k \<and>
        ct_elem C (ct_sub C (ct_name C k) ps) = join '', '' ps)"

section \<open>Rules\<close>

lemma rd_full_yields: "reader_ok P pd \<Longrightarrow> length bs = n \<Longrightarrow> yields pd (rd_full P n) bs bs"
  by (auto simp: reader_ok_def)

lemma rd_raw_yields: "reader_ok P pd \<Longrightarrow> length bs = n \<Longrightarrow> yields pd (rd_raw P n) bs bs"
  by (auto simp: reader_ok_def)

lemma rd_raw_length:
  assumes "reader_ok P pd" and "rd_raw P n r = (Ok bs, r')"
  shows "length bs = n"
proof (cases "length (pd r) < n")
  case True
  then show ?thesis using assms unfolding reader_ok_def short_fails_def by fastforce
next
  case False
  then have "length (take n (pd r)) = n" by simp
  with rd_raw_yields [OF assms(1) this] have "\<exists>r'. rd_raw P n r = (Ok (take n (pd r)), r')"
    by (metis append_take_drop_id yieldsD)
  then show ?thesis using assms(2) False by auto
qed

lemma rd_full_short: "reader_ok P pd \<Longrightarrow> length (pd r) < n \<Longrightarrow> \<exists>e r'. rd_full P n r = (Err e, r')"
  by (auto simp: reader_ok_def short_fails_def)

text \<open>\<open>ReadFull\<close> delivers or fails; it never panics.\<close>

lemma rd_full_cases:
  assumes "reader_ok P pd"
  shows "\<exists>y r'. rd_full P n r = (y, r') \<and> \<not> is_panic y \<and> (length (pd r) < n \<longrightarrow> (\<exists>e. y = Err e))"
proof (cases "length (pd r) < n")
  case True
  then obtain e r' where "rd_full P n r = (Err e, r')"
    using rd_full_short [OF assms True] by blast
  then show ?thesis by simp
next
  case False
  then have "length (take n (pd r)) = n" by simp
  with rd_full_yields [OF assms this] obtain r' where "rd_full P n r = (Ok (take n (pd r)), r')"
    by (metis append_take_drop_id yieldsD)
  then show ?thesis using False by simp
qed

lemma rd_uvarint_yields:
  "reader_ok P pd \<Longrightarrow> v < 2 ^ 64 \<Longrightarrow> yields pd (rd_uvarint P) (uvarint v) (word_of_nat v)"
  by (simp add: reader_ok_def)

lemma rd_uvarint_unat:
  "reader_ok P pd \<Longrightarrow> yields pd (rd_uvarint P) (uvarint (unat (w :: u64))) w"
  using rd_uvarint_yields [of P pd "unat w"] unsigned_less [of w, where ?'a = nat] by simp

lemma rd_int_yields:
  "reader_ok P pd \<Longrightarrow> v < 2 ^ 63 \<Longrightarrow> yields pd (rd_int P) (uvarint v) (int v)"
  by (simp add: reader_ok_def)

lemma rd_int64_yields: "reader_ok P pd \<Longrightarrow> yields pd (rd_int64 P) (le_enc 8 (unat w)) w"
  by (simp add: reader_ok_def)

lemma rd_int32_yields: "reader_ok P pd \<Longrightarrow> yields pd (rd_int32 P) (le_enc 4 (unat w)) w"
  by (simp add: reader_ok_def)

lemma rd_uint32_yields: "reader_ok P pd \<Longrightarrow> yields pd (rd_uint32 P) (le_enc 4 (unat w)) w"
  by (simp add: reader_ok_def)

lemma rd_bool_yields: "reader_ok P pd \<Longrightarrow> yields pd (rd_bool P) [if b then 1 else 0] b"
  by (simp add: reader_ok_def)

lemma rd_str_yields:
  "reader_ok P pd \<Longrightarrow> length s < 2 ^ 63 \<Longrightarrow> yields pd (rd_str P) (uvarint (length s) @ str_bytes s) s"
  by (simp add: reader_ok_def)

lemma rd_strraw_yields:
  "reader_ok P pd \<Longrightarrow> length bs < 2 ^ 63 \<Longrightarrow> yields pd (rd_strraw P) (uvarint (length bs) @ bs) bs"
  by (simp add: reader_ok_def)

lemma rd_read_Cons:
  "reader_ok P pd \<Longrightarrow> pd r = b # rest \<Longrightarrow> \<exists>r'. rd_read P 1 r = (([b], None), r') \<and> pd r' = rest"
  by (simp add: reader_ok_def)

lemma rd_read_Nil: "reader_ok P pd \<Longrightarrow> pd r = [] \<Longrightarrow> \<exists>e r'. rd_read P 1 r = (([], e), r')"
  by (simp add: reader_ok_def)

lemma put_string_eq: "buffer_ok B \<Longrightarrow> put_string B s b = b @ uvarint (length s) @ str_bytes s"
  by (simp add: buffer_ok_def)

lemma put_int64_eq: "buffer_ok B \<Longrightarrow> put_int64 B w b = b @ le_enc 8 (unat w)"
  by (simp add: buffer_ok_def)

lemma put_uint32_eq: "buffer_ok B \<Longrightarrow> put_uint32 B w b = b @ le_enc 4 (unat w)"
  by (simp add: buffer_ok_def)

lemma put_int_eq: "buffer_ok B \<Longrightarrow> n < 2 ^ 63 \<Longrightarrow> put_int B (int n) b = b @ uvarint n"
  by (simp add: buffer_ok_def unat_of_nat)

lemma put_bool_eq: "buffer_ok B \<Longrightarrow> put_bool B x b = b @ [if x then 1 else 0]"
  by (simp add: buffer_ok_def)

lemmas put_eqs = put_string_eq put_int64_eq put_uint32_eq put_int_eq put_bool_eq

lemma out_chain_buffer:
  "writer_ok W out \<Longrightarrow> (\<And>b. f b = b @ bs) \<Longrightarrow> out (chain_buffer W f w) = out w @ bs"
  by (simp add: writer_ok_def appends_def)

lemma out_chain_write: "writer_ok W out \<Longrightarrow> out (chain_write W bs w) = out w @ bs"
  by (simp add: writer_ok_def)

lemma ct_base_name: "ctypes_ok C \<Longrightarrow> ct_base C (ct_name C k) = ct_name C k"
  by (simp add: ctypes_ok_def)

lemma ct_base_with:
  "ctypes_ok C \<Longrightarrow> ps \<noteq> [] \<Longrightarrow> ct_base C (ct_with C (ct_name C k) ps) = ct_name C k"
  by (simp add: ctypes_ok_def)

lemma ct_elem_with:
  "ctypes_ok C \<Longrightarrow> ps \<noteq> [] \<Longrightarrow> ct_elem C (ct_with C (ct_name C k) ps) = join '', '' ps"
  by (simp add: ctypes_ok_def)

lemma ct_with_nonempty: "ctypes_ok C \<Longrightarrow> ps \<noteq> [] \<Longrightarrow> ct_with C (ct_name C k) ps \<noteq> []"
  by (simp add: ctypes_ok_def)

lemma ct_name_eq: "ctypes_ok C \<Longrightarrow> ct_name C j = ct_name C k \<longleftrightarrow> j = k"
  by (auto simp: ctypes_ok_def inj_def)

section \<open>A concrete instance over byte lists\<close>

definition lr_take :: "nat \<Rightarrow> (byte list, byte list) rdm" where
  "lr_take n r = (if length r < n then (Err (Ext_error ''unexpected EOF''), [])
                  else (Ok (take n r), drop n r))"

fun lr_uv :: "nat \<Rightarrow> nat \<Rightarrow> nat \<Rightarrow> (byte list, nat) rdm" where
  "lr_uv 0 x s bs = (Err (Ext_error ''overflow''), bs)"
| "lr_uv (Suc k) x s [] = (Err (Ext_error ''EOF''), [])"
| "lr_uv (Suc k) x s (b # bs) =
     (if unat b < 128
      then if k = 0 \<and> 1 < unat b then (Err (Ext_error ''overflow''), bs)
           else (Ok (x + unat b * 2 ^ s), bs)
      else lr_uv k (x + (unat b - 128) * 2 ^ s) (s + 7) bs)"

definition lr_map :: "('a \<Rightarrow> 'b) \<Rightarrow> ('r, 'a) rdm \<Rightarrow> ('r, 'b) rdm" where
  "lr_map f m = rbind m (\<lambda>x. rret (f x))"

definition lr_bool :: "(byte list, bool) rdm" where
  "lr_bool = rbind (lr_take 1) (\<lambda>bs. if bs = [1] then rret True else if bs = [0] then rret False
                                     else rlift (Err (Ext_error ''boolean'')))"

definition lr_strraw :: "(byte list, byte list) rdm" where
  "lr_strraw = rbind (lr_uv 10 0 0) lr_take"

definition list_reader :: "byte list preader" where
  "list_reader = \<lparr>
     rd_read = (\<lambda>n r. ((take n r, if r = [] then Some (Ext_error ''EOF'') else None), drop n r)),
     rd_full = lr_take,
     rd_raw = lr_take,
     rd_uvarint = lr_map word_of_nat (lr_uv 10 0 0),
     rd_int = lr_map (\<lambda>v. sint (word_of_nat v :: u64)) (lr_uv 10 0 0),
     rd_int32 = lr_map (\<lambda>bs. word_of_nat (le_dec bs)) (lr_take 4),
     rd_uint32 = lr_map (\<lambda>bs. word_of_nat (le_dec bs)) (lr_take 4),
     rd_int64 = lr_map (\<lambda>bs. word_of_nat (le_dec bs)) (lr_take 8),
     rd_bool = lr_bool,
     rd_str = lr_map bytes_str lr_strraw,
     rd_strraw = lr_strraw \<rparr>"

definition list_buffer :: pbuffer where
  "list_buffer = \<lparr>
     put_string = (\<lambda>s b. b @ uvarint (length s) @ str_bytes s),
     put_int64 = (\<lambda>w b. b @ le_enc 8 (unat w)),
     put_uint32 = (\<lambda>w b. b @ le_enc 4 (unat w)),
     put_int = (\<lambda>n b. b @ uvarint (unat (word_of_int n :: u64))),
     put_bool = (\<lambda>x b. b @ [if x then 1 else 0]),
     put_uvarint = (\<lambda>w b. b @ uvarint (unat w)) \<rparr>"

definition list_writer :: "byte list pwriter" where
  "list_writer = \<lparr> chain_buffer = (\<lambda>f w. w @ f []), chain_write = (\<lambda>bs w. w @ bs) \<rparr>"

lemma lr_take_yields: "length bs = n \<Longrightarrow> yields id (lr_take n) bs bs"
  by (rule yieldsI) (auto simp: lr_take_def)

lemma lr_map_yields: "yields pd m bs x \<Longrightarrow> f x = y \<Longrightarrow> yields pd (lr_map f m) bs y"
  unfolding lr_map_def by (auto intro: yields_bind_rret)

lemma lr_uv_uvarint:
  "0 < k \<Longrightarrow> n < 2 ^ (7 * k - 6) \<Longrightarrow> lr_uv k x s (uvarint n @ rest) = (Ok (x + n * 2 ^ s), rest)"
proof (induction k arbitrary: n x s)
  case (Suc k)
  show ?case
  proof (cases "n < 128")
    case True
    with Suc.prems show ?thesis by (auto simp: unat_byte_of_nat)
  next
    case False
    have k: "0 < k"
    proof (rule ccontr)
      assume "\<not> 0 < k"
      with Suc.prems False show False by simp
    qed
    then have "7 * Suc k - 6 = 7 + (7 * k - 6)" by simp
    then have "(2::nat) ^ (7 * Suc k - 6) = 128 * 2 ^ (7 * k - 6)"
      by (simp only: power_add) simp
    with Suc.prems have "n < 128 * 2 ^ (7 * k - 6)" by simp
    then have "n div 128 < 2 ^ (7 * k - 6)" by (simp add: less_mult_imp_div_less mult.commute)
    from Suc.IH [OF k this, of "x + n mod 128 * 2 ^ s" "s + 7"]
    have "lr_uv k (x + n mod 128 * 2 ^ s) (s + 7) (uvarint (n div 128) @ rest)
        = (Ok (x + (n mod 128 * 2 ^ s + n div 128 * 2 ^ (s + 7))), rest)"
      by (simp only: add.assoc)
    moreover have "n mod 128 * 2 ^ s + n div 128 * 2 ^ (s + 7) = (n mod 128 + n div 128 * 128) * 2 ^ s"
      unfolding power_add distrib_right by (simp only: mult.assoc mult.commute) simp
    moreover have "n mod 128 + 128 < 256" using mod_less_divisor [of 128 n] by linarith
    then have "unat (word_of_nat (n mod 128 + 128) :: byte) = n mod 128 + 128"
      by (simp only: unat_byte_of_nat mod_less)
    ultimately show ?thesis
      using False by (simp add: uvarint_big mod_div_mult_eq del: of_nat_add)
  qed
qed simp

lemma lr_uv_truncated:
  "uvarint n = bs @ rest \<Longrightarrow> rest \<noteq> [] \<Longrightarrow> \<exists>e r'. lr_uv k x s bs = (Err e, r')"
proof (induction k arbitrary: n x s bs)
  case (Suc k)
  show ?case
  proof (cases bs)
    case (Cons b bs')
    with Suc.prems have n: "128 \<le> n" by (cases "n < 128") auto
    with Suc.prems Cons have "uvarint (n div 128) = bs' @ rest" and b: "b = word_of_nat (n mod 128 + 128)"
      by (simp_all add: uvarint_big)
    with Suc.IH [of "n div 128" bs'] Suc.prems(2)
    have IH: "\<exists>e r'. lr_uv k (x + (unat b - 128) * 2 ^ s) (s + 7) bs' = (Err e, r')" by blast
    have "n mod 128 + 128 < 256" using mod_less_divisor [of 128 n] by linarith
    then have "unat b = n mod 128 + 128" unfolding b by (simp only: unat_byte_of_nat mod_less)
    with IH Cons show ?thesis by simp
  qed simp
qed simp

lemma lr_uv_yields:
  assumes "n < 2 ^ 64"
  shows "yields id (lr_uv 10 0 0) (uvarint n) n"
proof (rule yieldsI)
  fix r :: "byte list" and rest assume "id r = uvarint n @ rest"
  with assms show "\<exists>r'. lr_uv 10 0 0 r = (Ok n, r') \<and> id r' = rest"
    using lr_uv_uvarint [of 10 n 0 0 rest] by simp
next
  fix r :: "byte list" and rest assume "uvarint n = id r @ rest" and "rest \<noteq> []"
  with lr_uv_truncated [of n r rest 10 0 0] show "\<exists>e r'. lr_uv 10 0 0 r = (Err e, r')" by simp
qed

lemma word_le_dec [simp]:
  "(word_of_nat (le_dec (le_enc 4 (unat w))) :: u32) = w"
  "(word_of_nat (le_dec (le_enc 8 (unat v))) :: u64) = v"
  using unsigned_less [of w, where ?'a = nat] unsigned_less [of v, where ?'a = nat]
  by (simp_all add: le_dec_enc)

lemma lr_take_short: "short_fails id lr_take"
  by (simp add: short_fails_def lr_take_def)

lemma lr_strraw_yields: "length bs < 2 ^ 63 \<Longrightarrow> yields id lr_strraw (uvarint (length bs) @ bs) bs"
  unfolding lr_strraw_def by (rule yields_bind) (auto intro: lr_uv_yields lr_take_yields)

lemma list_reader_ok: "reader_ok list_reader id"
  unfolding reader_ok_def
proof (intro conjI allI impI)
  fix v :: nat assume "v < 2 ^ 63"
  then show "yields id (rd_int list_reader) (uvarint v) (int v)"
    unfolding list_reader_def
    by (auto intro!: lr_map_yields [OF lr_uv_yields]
        simp: signed_of_nat signed_take_bit_int_eq_self)
next
  fix b show "yields id (rd_bool list_reader) [if b then 1 else 0] b"
    by (cases b) (auto simp: list_reader_def lr_bool_def yields_def lr_take_def rbind_def
        append_eq_Cons_conv Cons_eq_append_conv)
next
  fix s :: string assume "length s < 2 ^ 63"
  then show "yields id (rd_str list_reader) (uvarint (length s) @ str_bytes s) s"
    using lr_strraw_yields [of "str_bytes s"]
    by (auto simp: list_reader_def intro!: lr_map_yields)
qed (auto simp: list_reader_def lr_take_short
    intro: lr_strraw_yields intro!: lr_map_yields [OF lr_uv_yields] lr_map_yields [OF lr_take_yields]
      lr_take_yields)

lemma list_buffer_ok: "buffer_ok list_buffer"
  by (simp add: buffer_ok_def list_buffer_def)

lemma list_writer_ok: "writer_ok list_writer id"
  by (simp add: writer_ok_def list_writer_def appends_def)

text \<open>The type names of ClickHouse, \<open>Base\<close> and \<open>Elem\<close> as the text before and inside the parentheses.\<close>

fun lc_name :: "ctconst \<Rightarrow> string" where
  "lc_name CT_UInt8 = ''UInt8''" | "lc_name CT_UInt16 = ''UInt16''"
| "lc_name CT_UInt32 = ''UInt32''" | "lc_name CT_UInt64 = ''UInt64''"
| "lc_name CT_Int8 = ''Int8''" | "lc_name CT_Int16 = ''Int16''"
| "lc_name CT_Int32 = ''Int32''" | "lc_name CT_Int64 = ''Int64''"
| "lc_name CT_Float32 = ''Float32''" | "lc_name CT_Float64 = ''Float64''"
| "lc_name CT_String = ''String''" | "lc_name CT_FixedString = ''FixedString''"
| "lc_name CT_Array = ''Array''" | "lc_name CT_Nullable = ''Nullable''"
| "lc_name CT_Map = ''Map''" | "lc_name CT_LowCardinality = ''LowCardinality''"
| "lc_name CT_Tuple = ''Tuple''" | "lc_name CT_Int128 = ''Int128''"
| "lc_name CT_Int256 = ''Int256''" | "lc_name CT_UInt128 = ''UInt128''"
| "lc_name CT_UInt256 = ''UInt256''" | "lc_name CT_Decimal = ''Decimal''"
| "lc_name CT_Decimal32 = ''Decimal32''" | "lc_name CT_Decimal64 = ''Decimal64''"
| "lc_name CT_Decimal128 = ''Decimal128''" | "lc_name CT_Decimal256 = ''Decimal256''"
| "lc_name CT_Date = ''Date''" | "lc_name CT_Date32 = ''Date32''"
| "lc_name CT_DateTime = ''DateTime''" | "lc_name CT_DateTime64 = ''DateTime64''"
| "lc_name CT_Enum8 = ''Enum8''" | "lc_name CT_Enum16 = ''Enum16''"
| "lc_name CT_IPv4 = ''IPv4''" | "lc_name CT_IPv6 = ''IPv6''" | "lc_name CT_UUID = ''UUID''"

definition lc_with :: "string \<Rightarrow> string list \<Rightarrow> string" where
  "lc_with n ps = n @ ''('' @ join '', '' ps @ '')''"

definition list_ctypes :: ctypes where
  "list_ctypes = \<lparr> ct_name = lc_name, ct_base = takeWhile (\<lambda>c. c \<noteq> CHR ''(''),
     ct_elem = (\<lambda>t. butlast (tl (dropWhile (\<lambda>c. c \<noteq> CHR ''('') t))), ct_with = lc_with, ct_sub = lc_with \<rparr>"

lemma lc_name_plain: "c \<in> set (lc_name k) \<Longrightarrow> c \<noteq> CHR ''(''"
  by (cases k) auto

definition lc_all :: "ctconst list" where
  "lc_all = [CT_UInt8, CT_UInt16, CT_UInt32, CT_UInt64, CT_Int8, CT_Int16, CT_Int32, CT_Int64,
     CT_Float32, CT_Float64, CT_String, CT_FixedString, CT_Array, CT_Nullable, CT_Map,
     CT_LowCardinality, CT_Tuple, CT_Int128, CT_Int256, CT_UInt128, CT_UInt256, CT_Decimal,
     CT_Decimal32, CT_Decimal64, CT_Decimal128, CT_Decimal256, CT_Date, CT_Date32, CT_DateTime,
     CT_DateTime64, CT_Enum8, CT_Enum16, CT_IPv4, CT_IPv6, CT_UUID]"

lemma lc_name_eq:
  assumes "lc_name j = lc_name k"
  shows "j = k"
proof -
  have "distinct (map lc_name lc_all)" by code_simp
  then have "inj_on lc_name (set lc_all)" by (simp add: distinct_map)
  moreover have "i \<in> set lc_all" for i by (cases i) (simp_all add: lc_all_def)
  ultimately show ?thesis using assms by (meson inj_onD)
qed

lemma lc_name_parts [simp]:
  "takeWhile (\<lambda>c. c \<noteq> CHR ''('') (lc_name k) = lc_name k"
  "dropWhile (\<lambda>c. c \<noteq> CHR ''('') (lc_name k) = []"
  "takeWhile (\<lambda>c. c \<noteq> CHR ''('') (lc_name k @ CHR ''('' # t) = lc_name k"
  "dropWhile (\<lambda>c. c \<noteq> CHR ''('') (lc_name k @ CHR ''('' # t) = CHR ''('' # t"
  using lc_name_plain [of _ k] by (simp_all add: takeWhile_eq_all_conv takeWhile_append2 dropWhile_append2)

lemma list_ctypes_simps [simp]:
  "ct_name list_ctypes = lc_name"
  "ct_base list_ctypes (lc_name k) = lc_name k"
  "ct_elem list_ctypes (lc_name k) = []"
  "ct_base list_ctypes (lc_with (lc_name k) ps) = lc_name k"
  "ct_elem list_ctypes (lc_with (lc_name k) ps) = join '', '' ps"
  "ct_with list_ctypes = lc_with"
  "ct_sub list_ctypes = lc_with"
  by (simp_all add: list_ctypes_def lc_with_def butlast_append)

lemma list_ctypes_ok: "ctypes_ok list_ctypes"
proof -
  have "ps \<noteq> [] \<Longrightarrow> lc_with s ps \<noteq> []" for s ps by (simp add: lc_with_def)
  then show ?thesis unfolding ctypes_ok_def by (simp add: inj_def) (blast dest: lc_name_eq)
qed

end
