(* ===== verification/Column_Iface.thy ===== *)
theory Column_Iface
  imports Proto
begin

text \<open>
  The interfaces of \<^verbatim>\<open>column/column.go\<close>. A Go interface value is a pair of method table and
  data; the method table is the record \<open>of_ops\<close> (the methods of \<open>Column\<close> and \<open>Of[T]\<close>, and the
  optional ones of \<open>SliceAccessor[T]\<close> and of the columns with \<open>Infer\<close>), so a wrapper column is
  a definition that takes its element column's table. The locale \<open>of_column\<close> is the contract of
  \<open>Of[T]\<close>: what a wrapper may rely on and what every element column is proved to provide.
  \<open>mem_layout\<close> is the contract of a Go element type's representation in memory, on which the
  unsafe casts of the fixed-width columns rest.
\<close>

section \<open>safeMul\<close>

definition safeMul :: "int \<Rightarrow> int \<Rightarrow> int go" where
  "safeMul rows elemSize =
     (if rows \<le> 0 \<or> elemSize \<le> 0 then Err (Errorf ''non-positive multiplier'')
      else if go_div maxInt rows < elemSize then Err (Errorf ''integer overflow'')
      else Ok (wrap64 (rows * elemSize)))"

lemma int_div_less_iff:
  assumes "0 < (r :: int)"
  shows "m div r < n \<longleftrightarrow> m < n * r"
proof
  assume "m div r < n"
  then have "(m div r + 1) * r \<le> n * r" using assms by (intro mult_right_mono) auto
  moreover have "m < (m div r + 1) * r"
    using assms pos_mod_bound [of r m] div_mult_mod_eq [of m r] unfolding distrib_right by linarith
  ultimately show "m < n * r" by simp
next
  assume "m < n * r"
  show "m div r < n"
  proof (rule ccontr)
    assume "\<not> m div r < n"
    then have "n * r \<le> m div r * r" using assms by (intro mult_right_mono) auto
    also have "\<dots> \<le> m" using assms pos_mod_sign [of r m] div_mult_mod_eq [of m r] by linarith
    finally show False using \<open>m < n * r\<close> by simp
  qed
qed

lemma safeMul_cases:
  assumes "0 < rows" and "0 < sz"
  shows "safeMul rows sz = (if rows * sz \<le> maxInt then Ok (rows * sz) else Err (Errorf ''integer overflow''))"
proof -
  have "go_div maxInt rows = maxInt div rows"
    using assms by (simp add: go_div_def maxInt_def)
  moreover have "maxInt div rows < sz \<longleftrightarrow> maxInt < sz * rows"
    using assms(1) by (rule int_div_less_iff)
  moreover have "wrap64 (rows * sz) = rows * sz" if "rows * sz \<le> maxInt"
    using that mult_pos_pos [OF assms] by (intro wrap64_id) (simp_all add: maxInt_def)
  ultimately show ?thesis
    using assms by (auto simp: safeMul_def mult.commute)
qed

lemma safeMul_nat:
  assumes "0 < n" and "0 < sz" and "n * sz < 2 ^ 62"
  shows "safeMul (int n) (int sz) = Ok (int (n * sz))"
proof -
  have "int (n * sz) < int (2 ^ 62)" using assms(3) by (simp only: of_nat_less_iff)
  with assms show ?thesis by (simp add: safeMul_cases maxInt_def)
qed

lemma safeMul_nonpos: "rows \<le> 0 \<Longrightarrow> safeMul rows sz = Err (Errorf ''non-positive multiplier'')"
  by (simp add: safeMul_def)

section \<open>The method table of a column\<close>

record ('r, 'w, 'c, 't) of_ops =
  of_name :: "'c \<Rightarrow> string"
  of_type :: "ctypes \<Rightarrow> 'c \<Rightarrow> string"
  of_len :: "'c \<Rightarrow> nat"
  of_append :: "'t \<Rightarrow> 'c \<Rightarrow> 'c go"
  of_append_arr :: "'t list \<Rightarrow> 'c \<Rightarrow> 'c go"
  of_row :: "'c \<Rightarrow> int \<Rightarrow> 't go"
  of_reset :: "'c \<Rightarrow> 'c"
  of_decode :: "'r preader \<Rightarrow> 'c \<Rightarrow> int \<Rightarrow> ('r, 'c) rdm"
  of_encode :: "pbuffer \<Rightarrow> 'c \<Rightarrow> byte list \<Rightarrow> byte list go"
  of_write :: "'w pwriter \<Rightarrow> pbuffer \<Rightarrow> 'c \<Rightarrow> 'w \<Rightarrow> 'w"
  of_slice :: "('c \<Rightarrow> int \<Rightarrow> int \<Rightarrow> 't list go) option"
  of_infer :: "(ctypes \<Rightarrow> string \<Rightarrow> 'c \<Rightarrow> 'c go) option"

section \<open>Element types in memory\<close>

text \<open>
  \<open>gt_kind\<close> is what the type switches of the package see, \<open>gt_size\<close> is \<open>unsafe.Sizeof\<close>,
  \<open>gt_bytes\<close> and \<open>gt_of\<close> are the memory image of a value on a little-endian machine, and
  \<open>gt_eq\<close> is Go's \<open>==\<close>.
\<close>

datatype basety = TUint8 | TUint16 | TUint32 | TUint64 | TInt8 | TInt16 | TInt32 | TInt64
  | TFloat32 | TFloat64 | TString | TOther

record 't gotype =
  gt_kind :: basety
  gt_size :: nat
  gt_bytes :: "'t \<Rightarrow> byte list"
  gt_of :: "byte list \<Rightarrow> 't"
  gt_zero :: 't
  gt_eq :: "'t \<Rightarrow> 't \<Rightarrow> bool"

fun split_chunks :: "nat \<Rightarrow> nat \<Rightarrow> byte list \<Rightarrow> byte list list" where
  "split_chunks 0 sz bs = []"
| "split_chunks (Suc k) sz bs = take sz bs # split_chunks k sz (drop sz bs)"

definition data_image :: "'t gotype \<Rightarrow> 't list \<Rightarrow> byte list" where
  "data_image T xs = concat (map (gt_bytes T) xs)"

definition data_of :: "'t gotype \<Rightarrow> nat \<Rightarrow> byte list \<Rightarrow> 't list" where
  "data_of T k bs = map (gt_of T) (split_chunks k (gt_size T) bs)"

lemma length_split_chunks [simp]: "length (split_chunks k sz bs) = k"
  by (induction k arbitrary: bs) simp_all

lemma length_data_of [simp]: "length (data_of T k bs) = k"
  by (simp add: data_of_def)

lemma data_image_simps [simp]:
  "data_image T [] = []"
  "data_image T (x # xs) = gt_bytes T x @ data_image T xs"
  "data_image T (xs @ ys) = data_image T xs @ data_image T ys"
  by (simp_all add: data_image_def)

locale mem_layout =
  fixes T :: "'t gotype"
  assumes size_pos: "0 < gt_size T"
    and length_bytes: "length (gt_bytes T x) = gt_size T"
    and of_bytes: "gt_of T (gt_bytes T x) = x"
    and bytes_of: "length bs = gt_size T \<Longrightarrow> gt_bytes T (gt_of T bs) = bs"
begin

lemma length_data_image: "length (data_image T xs) = length xs * gt_size T"
  by (induction xs) (simp_all add: length_bytes)

lemma data_of_image: "data_of T (length xs) (data_image T xs) = xs"
  by (induction xs) (simp_all add: data_of_def length_bytes of_bytes)

lemma data_image_of: "length bs = k * gt_size T \<Longrightarrow> data_image T (data_of T k bs) = bs"
proof (induction k arbitrary: bs)
  case (Suc k)
  then have "length (take (gt_size T) bs) = gt_size T" and "length (drop (gt_size T) bs) = k * gt_size T"
    by simp_all
  with Suc.IH show ?case by (simp add: data_of_def bytes_of)
qed (simp add: data_of_def)

lemma rows_le_image: "length xs \<le> length (data_image T xs)"
  using size_pos by (simp add: length_data_image)

end

section \<open>The contract of Of[T]\<close>

text \<open>
  \<open>rows c\<close> is the column's contents, \<open>wire c\<close> the bytes that represent it. Appending may
  canonicalise a value (\<open>norm\<close>: FixedString pads) and is only defined for accepted ones
  (\<open>acc\<close>: Enum panics on an unknown name). \<open>like c0 c\<close>: the two columns are configured alike
  (the N of FixedString(N), the names of an Enum).
\<close>

locale of_column =
  fixes I :: "('r, 'w, 'c, 't) of_ops"
    and inv :: "'c \<Rightarrow> bool"
    and rows :: "'c \<Rightarrow> 't list"
    and wire :: "'c \<Rightarrow> byte list"
    and acc :: "'c \<Rightarrow> 't \<Rightarrow> bool"
    and norm :: "'c \<Rightarrow> 't \<Rightarrow> 't"
    and like :: "'c \<Rightarrow> 'c \<Rightarrow> bool"
  assumes len: "inv c \<Longrightarrow> of_len I c = length (rows c)"
    and row: "inv c \<Longrightarrow> small (wire c) \<Longrightarrow> i < length (rows c) \<Longrightarrow> of_row I c (int i) = Ok (rows c ! i)"
    and reset: "inv c \<Longrightarrow> inv (of_reset I c) \<and> rows (of_reset I c) = [] \<and> like (of_reset I c) c"
    and append: "inv c \<Longrightarrow> acc c t \<Longrightarrow>
      \<exists>c'. of_append I t c = Ok c' \<and> inv c' \<and> like c c' \<and> rows c' = rows c @ [norm c t]"
    and append_arr: "inv c \<Longrightarrow> (\<And>t. t \<in> set ts \<Longrightarrow> acc c t) \<Longrightarrow>
      \<exists>c'. of_append_arr I ts c = Ok c' \<and> inv c' \<and> like c c' \<and> rows c' = rows c @ map (norm c) ts"
    and encode: "inv c \<Longrightarrow> buffer_ok B \<Longrightarrow> small (wire c) \<Longrightarrow>
      of_encode I B c b = Ok (b @ wire c)"
    and decode: "inv c \<Longrightarrow> inv c0 \<Longrightarrow> rows c0 = [] \<Longrightarrow> like c0 c \<Longrightarrow> reader_ok P pd \<Longrightarrow>
      small (wire c) \<Longrightarrow>
      \<exists>c'. yields pd (of_decode I P c0 (int (length (rows c)))) (wire c) c' \<and> inv c' \<and>
        rows c' = rows c \<and> wire c' = wire c \<and> like c0 c'"
    and slice: "inv c \<Longrightarrow> of_slice I = Some f \<Longrightarrow> lo \<le> hi \<Longrightarrow> hi \<le> length (rows c) \<Longrightarrow>
      f c (int lo) (int hi) = Ok (take (hi - lo) (drop lo (rows c)))"
    and rows_wire: "inv c \<Longrightarrow> length (rows c) \<le> length (wire c)"
    and like_refl: "like c c"
    and like_trans: "like c1 c2 \<Longrightarrow> like c2 c3 \<Longrightarrow> like c1 c3"
    and like_acc: "like c1 c2 \<Longrightarrow> acc c1 = acc c2"
    and like_norm: "like c1 c2 \<Longrightarrow> norm c1 = norm c2"
begin

text \<open>Reading all rows of a column one by one gives its contents.\<close>

lemma read_all:
  "inv c \<Longrightarrow> small (wire c) \<Longrightarrow> go_map (\<lambda>i. of_row I c (int i)) [0..<of_len I c] = Ok (rows c)"
  using go_map_upt [of 0 "length (rows c)" "\<lambda>i. of_row I c (int i)" "\<lambda>i. rows c ! i"]
  by (simp add: len row map_nth)

text \<open>Rows \<open>lo\<close> to \<open>hi\<close>, read one by one.\<close>

lemma read_range:
  assumes "inv c" and "small (wire c)" and "lo \<le> hi" and "hi \<le> length (rows c)"
  shows "go_map (\<lambda>j. of_row I c (int (lo + j))) [0..<hi - lo] = Ok (take (hi - lo) (drop lo (rows c)))"
proof -
  have "go_map (\<lambda>j. of_row I c (int (lo + j))) [0..<hi - lo] = Ok (map (\<lambda>j. rows c ! (lo + j)) [0..<hi - lo])"
    using assms by (intro go_map_upt row) auto
  moreover have "map (\<lambda>j. rows c ! (lo + j)) [0..<hi - lo] = take (hi - lo) (drop lo (rows c))"
    using assms by (intro nth_equalityI) auto
  ultimately show ?thesis by simp
qed

text \<open>What an encoder writes, a fresh column of the same configuration decodes.\<close>

lemma encode_decode:
  assumes "inv c" and "inv c0" and "rows c0 = []" and "like c0 c"
    and "reader_ok P pd" and "buffer_ok B" and "small (wire c)"
  shows "\<exists>bs c'. of_encode I B c b = Ok (b @ bs) \<and>
    yields pd (of_decode I P c0 (int (of_len I c))) bs c' \<and> rows c' = rows c"
  using encode [OF assms(1,6,7)] decode [OF assms(1-5,7)] assms(1) by (auto simp: len)

end

text \<open>
  Columns whose \<open>WriteColumn\<close> chains the bytes \<open>EncodeColumn\<close> appends.
\<close>

locale of_column_w = of_column I inv rows wire acc norm like
  for I :: "('r, 'w, 'c, 't) of_ops" and inv rows wire acc norm like +
  assumes write_out: "inv c \<Longrightarrow> writer_ok W out \<Longrightarrow> buffer_ok B \<Longrightarrow> small (wire c) \<Longrightarrow>
    out (of_write I W B c w) = out w @ wire c"
begin

lemma write_encode:
  "inv c \<Longrightarrow> writer_ok W out \<Longrightarrow> buffer_ok B \<Longrightarrow> small (wire c) \<Longrightarrow>
    of_encode I B c (out w) = Ok (out (of_write I W B c w))"
  by (simp add: encode write_out)

end

end
