(* ===== verification/Base_Column.thy ===== *)
theory Base_Column
  imports Column_Iface
begin

text \<open>
  The generic fixed-width column \<open>BaseColumn[T]\<close> of \<^verbatim>\<open>column/column.go\<close> and the helpers
  \<open>decodeFixed\<close>, \<open>encodeFixed\<close>, \<open>writeFixed\<close> of \<^verbatim>\<open>column/int128.go\<close>, with the memory layouts
  of Go's numeric types. A struct with the fields \<open>name\<close> and \<open>Data []T\<close> is the record
  \<open>data_col\<close>; the capacity of \<open>Data\<close> is not part of the model, so both branches of
  \<open>if cap(c.Data) >= rows\<close> give a slice of length \<open>rows\<close>, and the range check of the
  allocating one is kept.
\<close>

section \<open>The struct and its element access\<close>

record 't data_col =
  dc_name :: string
  dc_data :: "'t list"

definition new_data_col :: "string \<Rightarrow> 't data_col" where
  "new_data_col name = \<lparr> dc_name = name, dc_data = [] \<rparr>"

definition dc_len :: "'t data_col \<Rightarrow> nat" where
  [col_defs]: "dc_len c = length (dc_data c)"

definition dc_append :: "'t \<Rightarrow> 't data_col \<Rightarrow> 't data_col go" where
  [col_defs]: "dc_append v c = Ok (c\<lparr>dc_data := dc_data c @ [v]\<rparr>)"

definition dc_append_arr :: "'t list \<Rightarrow> 't data_col \<Rightarrow> 't data_col go" where
  [col_defs]: "dc_append_arr vs c = Ok (c\<lparr>dc_data := dc_data c @ vs\<rparr>)"

definition dc_row :: "'t data_col \<Rightarrow> int \<Rightarrow> 't go" where
  [col_defs]: "dc_row c i = idx (dc_data c) i"

text \<open>
  A slice expression is bounded by the length here, in Go by the capacity, which is not modelled: an
  upper bound between the two, which Go accepts, panics in the model. No property rests on it.
\<close>

definition dc_slice :: "'t data_col \<Rightarrow> int \<Rightarrow> int \<Rightarrow> 't list go" where
  [col_defs]: "dc_slice c lo hi = slice_expr (dc_data c) lo hi"

definition dc_reset :: "'t data_col \<Rightarrow> 't data_col" where
  [col_defs]: "dc_reset c = c\<lparr>dc_data := []\<rparr>"

section \<open>BaseColumn\<close>

definition base_type :: "'t gotype \<Rightarrow> ctypes \<Rightarrow> 't data_col \<Rightarrow> string" where
  "base_type T C c = (case gt_kind T of
       TUint8 \<Rightarrow> ct_name C CT_UInt8
     | TUint16 \<Rightarrow> ct_name C CT_UInt16
     | TUint32 \<Rightarrow> ct_name C CT_UInt32
     | TUint64 \<Rightarrow> ct_name C CT_UInt64
     | TInt8 \<Rightarrow> ct_name C CT_Int8
     | TInt16 \<Rightarrow> ct_name C CT_Int16
     | TInt32 \<Rightarrow> ct_name C CT_Int32
     | TInt64 \<Rightarrow> ct_name C CT_Int64
     | TFloat32 \<Rightarrow> ct_name C CT_Float32
     | TFloat64 \<Rightarrow> ct_name C CT_Float64
     | _ \<Rightarrow> [])"

definition base_infer :: "'t gotype \<Rightarrow> ctypes \<Rightarrow> string \<Rightarrow> 't data_col \<Rightarrow> 't data_col go" where
  "base_infer T C t c =
     (if t \<noteq> base_type T C c then Err (Errorf ''BaseColumn: expected type'') else Ok c)"

definition base_decode :: "'t gotype \<Rightarrow> 'r preader \<Rightarrow> 't data_col \<Rightarrow> int \<Rightarrow> ('r, 't data_col) rdm" where
  "base_decode T P c rows =
     (if rows = 0 then rret (c\<lparr>dc_data := []\<rparr>)
      else rbind (rlift (go_wrap ''decode column'' (safeMul rows (int (gt_size T))))) (\<lambda>n.
           rbind (rlift (go_make (gt_size T) rows (wrap64 (rows * 2)))) (\<lambda>_.
           if gt_size T \<in> {1, 2, 4, 8}
           then rbind (rd_full P (nat n)) (\<lambda>buf. rret (c\<lparr>dc_data := data_of T (nat rows) buf\<rparr>))
           else rlift (Err (Errorf ''unsupported element size'')))))"

definition base_encode :: "'t gotype \<Rightarrow> pbuffer \<Rightarrow> 't data_col \<Rightarrow> byte list \<Rightarrow> byte list go" where
  "base_encode T B c b =
     (if dc_data c = [] then Ok b
      else go_bind (safeMul (int (length (dc_data c))) (int (gt_size T))) (\<lambda>n.
           if gt_size T \<in> {1, 2, 4, 8} then Ok (b @ data_image T (dc_data c))
           else Err (Errorf ''unsupported element size'')))"

text \<open>\<open>WriteColumn\<close> logs a failed multiplication or an unsupported size and writes nothing.\<close>

definition base_write :: "'t gotype \<Rightarrow> 'w pwriter \<Rightarrow> pbuffer \<Rightarrow> 't data_col \<Rightarrow> 'w \<Rightarrow> 'w" where
  "base_write T W B c w =
     (if dc_data c = [] then w
      else case safeMul (int (length (dc_data c))) (int (gt_size T)) of
        Ok n \<Rightarrow> if gt_size T \<in> {1, 2, 4, 8} then chain_write W (data_image T (dc_data c)) w else w
      | _ \<Rightarrow> w)"

definition base_ops :: "'t gotype \<Rightarrow> ('r, 'w, 't data_col, 't) of_ops" where
  "base_ops T = \<lparr> of_name = dc_name, of_type = base_type T, of_len = dc_len,
     of_append = dc_append, of_append_arr = dc_append_arr, of_row = dc_row, of_reset = dc_reset,
     of_decode = base_decode T, of_encode = base_encode T, of_write = base_write T,
     of_slice = Some dc_slice, of_infer = Some (base_infer T) \<rparr>"

section \<open>The fixed-width helpers\<close>

text \<open>The helpers work on the \<open>Data\<close> slice alone; \<open>decodeFixed\<close> gives its new contents.\<close>

definition decodeFixed :: "'t gotype \<Rightarrow> 'r preader \<Rightarrow> int \<Rightarrow> nat \<Rightarrow> ('r, 't list) rdm" where
  "decodeFixed T P rows elemSize =
     (if rows = 0 then rret []
      else rbind (rlift (go_wrap ''decode column'' (safeMul rows (int elemSize)))) (\<lambda>n.
           rbind (rlift (go_make (gt_size T) rows (wrap64 (rows * 2)))) (\<lambda>_.
           rbind (rd_full P (nat n)) (\<lambda>dst. rret (data_of T (nat rows) dst)))))"

definition encodeFixed :: "'t gotype \<Rightarrow> 't list \<Rightarrow> nat \<Rightarrow> byte list \<Rightarrow> byte list go" where
  "encodeFixed T data elemSize b =
     (if data = [] then Ok b
      else go_bind (safeMul (int (length data)) (int elemSize)) (\<lambda>n. Ok (b @ data_image T data)))"

definition writeFixed :: "'t gotype \<Rightarrow> 't list \<Rightarrow> nat \<Rightarrow> 'w pwriter \<Rightarrow> 'w \<Rightarrow> 'w" where
  "writeFixed T data elemSize W w =
     (if data = [] then w
      else case safeMul (int (length data)) (int elemSize) of
        Ok n \<Rightarrow> chain_write W (data_image T data) w
      | _ \<Rightarrow> w)"

section \<open>Layouts of the numeric types\<close>

definition word_layout :: "basety \<Rightarrow> nat \<Rightarrow> ('a::len word \<Rightarrow> 'a word \<Rightarrow> bool) \<Rightarrow> 'a word gotype" where
  "word_layout k n eq = \<lparr> gt_kind = k, gt_size = n, gt_bytes = (\<lambda>w. le_enc n (unat w)),
     gt_of = (\<lambda>bs. word_of_nat (le_dec bs)), gt_zero = 0, gt_eq = eq \<rparr>"

text \<open>Go's \<open>==\<close> on floats, over their IEEE bits: NaN differs from itself, the zeros are equal.\<close>

definition f32_eq :: "u32 \<Rightarrow> u32 \<Rightarrow> bool" where
  "f32_eq a b = (let nan = (\<lambda>x :: u32. 0x7F800000 < x AND 0x7FFFFFFF);
                     zero = (\<lambda>x :: u32. x AND 0x7FFFFFFF = 0)
                 in \<not> nan a \<and> \<not> nan b \<and> (a = b \<or> zero a \<and> zero b))"

definition f64_eq :: "u64 \<Rightarrow> u64 \<Rightarrow> bool" where
  "f64_eq a b = (let nan = (\<lambda>x :: u64. 0x7FF0000000000000 < x AND 0x7FFFFFFFFFFFFFFF);
                     zero = (\<lambda>x :: u64. x AND 0x7FFFFFFFFFFFFFFF = 0)
                 in \<not> nan a \<and> \<not> nan b \<and> (a = b \<or> zero a \<and> zero b))"

abbreviation "uint8_t \<equiv> word_layout TUint8 1 (=) :: byte gotype"
abbreviation "uint16_t \<equiv> word_layout TUint16 2 (=) :: u16 gotype"
abbreviation "uint32_t \<equiv> word_layout TUint32 4 (=) :: u32 gotype"
abbreviation "uint64_t \<equiv> word_layout TUint64 8 (=) :: u64 gotype"
abbreviation "int8_t \<equiv> word_layout TInt8 1 (=) :: byte gotype"
abbreviation "int16_t \<equiv> word_layout TInt16 2 (=) :: u16 gotype"
abbreviation "int32_t \<equiv> word_layout TInt32 4 (=) :: u32 gotype"
abbreviation "int64_t \<equiv> word_layout TInt64 8 (=) :: u64 gotype"
abbreviation "float32_t \<equiv> word_layout TFloat32 4 f32_eq :: u32 gotype"
abbreviation "float64_t \<equiv> word_layout TFloat64 8 f64_eq :: u64 gotype"

abbreviation u8_ops :: "(byte list, byte list, byte data_col, byte) of_ops" where
  "u8_ops \<equiv> base_ops uint8_t"

lemma word_layout_ok:
  assumes n: "LENGTH('a::len) = 8 * n" "0 < n"
  shows "mem_layout (word_layout k n eq :: 'a word gotype)"
proof
  have pow: "(256::nat) ^ n = 2 ^ LENGTH('a)" by (simp add: n power_mult)
  fix x :: "'a word" and bs :: "byte list"
  show "0 < gt_size (word_layout k n eq :: 'a word gotype)"
    using n by (simp add: word_layout_def)
  show "length (gt_bytes (word_layout k n eq) x) = gt_size (word_layout k n eq :: 'a word gotype)"
    by (simp add: word_layout_def)
  show "gt_of (word_layout k n eq) (gt_bytes (word_layout k n eq) x) = x"
    using unsigned_less [of x, where ?'a = nat] by (simp add: word_layout_def le_dec_enc pow)
  assume "length bs = gt_size (word_layout k n eq :: 'a word gotype)"
  then have l: "length bs = n" by (simp add: word_layout_def)
  with le_dec_bound [of bs] have "le_dec bs < 2 ^ LENGTH('a)" by (simp add: pow)
  then have "unat (word_of_nat (le_dec bs) :: 'a word) = le_dec bs" by (simp add: unat_of_nat)
  with l show "gt_bytes (word_layout k n eq :: 'a word gotype) (gt_of (word_layout k n eq) bs) = bs"
    by (simp add: word_layout_def le_enc_dec)
qed

lemma word_layout_sel:
  "gt_size (word_layout k n eq) = n" "gt_eq (word_layout k n eq) = eq" "gt_kind (word_layout k n eq) = k"
  "gt_bytes (word_layout k (Suc 0) eq) (x :: byte) = [x]"
  by (simp_all add: word_layout_def)

section \<open>Contracts\<close>

locale base_layout = mem_layout +
  assumes base_size: "gt_size T \<in> {1, 2, 4, 8}"

lemma decodeFixed_eq_base:
  "gt_size T \<in> {1, 2, 4, 8} \<Longrightarrow>
    base_decode T P c rows = rbind (decodeFixed T P rows (gt_size T)) (\<lambda>d. rret (c\<lparr>dc_data := d\<rparr>))"
  by (auto simp: base_decode_def decodeFixed_def rbind_assoc simp del: rret_apply)

context mem_layout
begin

lemma decodeFixed_yields:
  assumes P: "reader_ok P pd" and sm: "small (data_image T xs)"
  shows "yields pd (decodeFixed T P (int (length xs)) (gt_size T)) (data_image T xs) xs"
proof (cases "xs = []")
  case False
  have l: "length xs * gt_size T < 2 ^ 40" using sm by (simp add: length_data_image)
  then have "int (length xs * gt_size T) < int (2 ^ 40)" by (simp only: of_nat_less_iff)
  then have mk: "go_make (gt_size T) (int (length xs)) (wrap64 (int (length xs) * 2)) = Ok ()"
    using size_pos by (intro go_make_double) (simp_all add: mult.commute)
  have sf: "safeMul (int (length xs)) (int (gt_size T)) = Ok (int (length xs * gt_size T))"
    using False size_pos l by (intro safeMul_nat) simp_all
  have "yields pd (rbind (rd_full P (length xs * gt_size T)) (\<lambda>dst. rret (data_of T (length xs) dst)))
      (data_image T xs) (data_of T (length xs) (data_image T xs))"
    by (rule yields_bind_rret, rule rd_full_yields [OF P]) (rule length_data_image)
  with False show ?thesis
    by (simp add: decodeFixed_def sf mk data_of_image nat_mult_distrib del: of_nat_mult)
qed (simp add: decodeFixed_def yields_rret)

lemma encodeFixed_eq:
  "small (data_image T xs) \<Longrightarrow> encodeFixed T xs (gt_size T) b = Ok (b @ data_image T xs)"
  using size_pos by (cases "xs = []") (simp_all add: encodeFixed_def safeMul_nat length_data_image)

lemma writeFixed_out:
  assumes "writer_ok W out" and "small (data_image T xs)"
  shows "out (writeFixed T xs (gt_size T) W w) = out w @ data_image T xs"
  using assms size_pos
  by (cases "xs = []") (simp_all add: writeFixed_def safeMul_nat length_data_image out_chain_write)

end

context base_layout
begin

lemma base_decode_yields:
  "reader_ok P pd \<Longrightarrow> small (data_image T xs) \<Longrightarrow>
    yields pd (base_decode T P c (int (length xs))) (data_image T xs) (c\<lparr>dc_data := xs\<rparr>)"
  by (simp add: decodeFixed_eq_base [OF base_size]) (rule yields_bind_rret [OF decodeFixed_yields], simp_all)

lemma base_encode_eq:
  "small (data_image T (dc_data c)) \<Longrightarrow> base_encode T B c b = Ok (b @ data_image T (dc_data c))"
  using encodeFixed_eq [of "dc_data c" b] base_size
  by (simp add: base_encode_def encodeFixed_def split: if_splits)

lemma base_write_out:
  "writer_ok W out \<Longrightarrow> small (data_image T (dc_data c)) \<Longrightarrow>
    out (base_write T W B c w) = out w @ data_image T (dc_data c)"
  using writeFixed_out [of W out "dc_data c" w] base_size
  by (simp add: base_write_def writeFixed_def split: if_splits)

end

sublocale base_layout \<subseteq> col: of_column_w "base_ops T" "\<lambda>_. True" dc_data
    "\<lambda>c. data_image T (dc_data c)" "\<lambda>_ _. True" "\<lambda>_ x. x" "\<lambda>_ _. True"
proof (unfold_locales, goal_cases)
  case (7 c c0 P pd)
  then show ?case using base_decode_yields [of P pd "dc_data c" c0] by (auto simp: base_ops_def)
qed (auto simp: base_ops_def col_defs slice_expr_in rows_le_image base_encode_eq base_write_out)

lemma base_layout_word:
  "LENGTH('a::len) = 8 * n \<Longrightarrow> n \<in> {1, 2, 4, 8} \<Longrightarrow> base_layout (word_layout k n eq :: 'a word gotype)"
  using word_layout_ok [where ?'a = 'a, of n k eq]
  by (auto simp: base_layout_def base_layout_axioms_def word_layout_def)

interpretation uint8_col: base_layout uint8_t
  by (rule base_layout_word) simp_all

interpretation uint16_col: base_layout uint16_t
  by (rule base_layout_word) simp_all

interpretation uint32_col: base_layout uint32_t
  by (rule base_layout_word) simp_all

interpretation uint64_col: base_layout uint64_t
  by (rule base_layout_word) simp_all

interpretation int8_col: base_layout int8_t
  by (rule base_layout_word) simp_all

interpretation int16_col: base_layout int16_t
  by (rule base_layout_word) simp_all

interpretation int32_col: base_layout int32_t
  by (rule base_layout_word) simp_all

interpretation int64_col: base_layout int64_t
  by (rule base_layout_word) simp_all

interpretation float32_col: base_layout float32_t
  by (rule base_layout_word) simp_all

interpretation float64_col: base_layout float64_t
  by (rule base_layout_word) simp_all

section \<open>Properties\<close>

text \<open>
  C1. What \<open>EncodeColumn\<close> of a \<open>BaseColumn[T]\<close> appends, \<open>DecodeColumn\<close> with the same row
  count reads back, from any reader and whatever the decoding column held before; and
  \<open>WriteColumn\<close> chains the same bytes. The bytes are the memory image of the values.
\<close>

theorem base_roundtrip:
  assumes T: "base_layout T" and P: "reader_ok P pd" and B: "buffer_ok B" and W: "writer_ok W out"
    and small: "length (dc_data c) * gt_size T < 2 ^ 40"
  shows "base_encode T B c b = Ok (b @ data_image T (dc_data c)) \<and>
    out (base_write T W B c w) = out w @ data_image T (dc_data c) \<and>
    yields pd (base_decode T P c0 (int (length (dc_data c)))) (data_image T (dc_data c))
      (c0\<lparr>dc_data := dc_data c\<rparr>)"
proof -
  have l: "small (data_image T (dc_data c))"
    using small by (simp add: mem_layout.length_data_image [OF base_layout.axioms(1) [OF T]])
  show ?thesis
    by (simp add: base_layout.base_encode_eq [OF T l] base_layout.base_write_out [OF T W l]
        base_layout.base_decode_yields [OF T P l])
qed

theorem base_roundtrip_witness:
  "base_encode uint16_t list_buffer \<lparr>dc_name = ''x'', dc_data = [1, 515]\<rparr> [9] = Ok [9, 1, 0, 3, 2] \<and>
   base_decode uint16_t list_reader (new_data_col ''y'') 2 [1, 0, 3, 2, 7] =
     (Ok \<lparr>dc_name = ''y'', dc_data = [1, 515]\<rparr>, [7])"
proof -
  let ?c = "\<lparr>dc_name = ''x'', dc_data = [1, 515 :: u16]\<rparr>"
  have L: "base_layout uint16_t" by (rule base_layout_word) simp_all
  have img: "gt_bytes uint16_t 1 = [1, 0]" "gt_bytes uint16_t 515 = [3, 2]"
    by (simp_all add: word_layout_def le_enc_numeral)
  have "length (dc_data ?c) * gt_size uint16_t < 2 ^ 40" by (simp add: word_layout_def)
  from base_roundtrip [OF L list_reader_ok list_buffer_ok list_writer_ok this, of "[9]" "[]" "new_data_col ''y''"]
  show ?thesis by (auto simp: img yields_def new_data_col_def dest: spec [of _ "[1, 0, 3, 2, 7]"])
qed

text \<open>
  C24. \<open>DecodeColumn\<close> of a \<open>BaseColumn[T]\<close> on every bad input: a negative row count and a size
  that overflows an \<open>int\<close> are errors before anything is read; up to 2^47 bytes, too few bytes
  are an error and it never panics.
\<close>

theorem base_decode_errors:
  assumes T: "base_layout T" and P: "reader_ok P pd"
  shows "(rows < 0 \<longrightarrow> base_decode T P c rows r =
        (Err (Wrapf ''decode column'' (Errorf ''non-positive multiplier'')), r)) \<and>
    (0 < rows \<and> maxInt < rows * int (gt_size T) \<longrightarrow> base_decode T P c rows r =
        (Err (Wrapf ''decode column'' (Errorf ''integer overflow'')), r)) \<and>
    (0 < rows \<and> rows * int (gt_size T) \<le> 2 ^ 47 \<and> int (length (pd r)) < rows * int (gt_size T) \<longrightarrow>
        (\<exists>e r'. base_decode T P c rows r = (Err e, r'))) \<and>
    (rows * int (gt_size T) \<le> 2 ^ 47 \<longrightarrow> \<not> is_panic (fst (base_decode T P c rows r)))"
proof (cases "rows \<le> 0")
  case True
  then show ?thesis by (auto simp: base_decode_def safeMul_nonpos)
next
  case False
  note sz = mem_layout.size_pos [OF base_layout.axioms(1) [OF T]]
    and base = base_layout.base_size [OF T]
  show ?thesis
  proof (cases "rows * int (gt_size T) \<le> maxInt")
    case over: False
    with False sz show ?thesis by (auto simp: base_decode_def safeMul_cases)
  next
    case fit: True
    define n where "n = nat (rows * int (gt_size T))"
    show ?thesis
    proof (cases "rows * int (gt_size T) \<le> 2 ^ 47")
      case True
      with False fit sz base have *: "base_decode T P c rows r =
          rbind (rd_full P n) (\<lambda>buf. rret (c\<lparr>dc_data := data_of T (nat rows) buf\<rparr>)) r"
        using go_make_double [of rows "gt_size T"]
        by (simp add: base_decode_def safeMul_cases n_def mult.commute)
      obtain y r' where full: "rd_full P n r = (y, r')" and y: "\<not> is_panic y" "length (pd r) < n \<longrightarrow> (\<exists>e. y = Err e)"
        using rd_full_cases [OF P, of n r] by blast
      then show ?thesis
        using False fit by (cases y) (auto simp: * n_def)
    qed (use False fit in auto)
  qed
qed

theorem base_decode_errors_witness:
  "base_decode uint16_t list_reader (new_data_col ''x'') (-1) [1] =
     (Err (Wrapf ''decode column'' (Errorf ''non-positive multiplier'')), [1]) \<and>
   (\<exists>e r'. base_decode uint16_t list_reader (new_data_col ''x'') 3 [1, 2, 3] = (Err e, r'))"
proof -
  have L: "base_layout uint16_t" by (rule base_layout_word) simp_all
  show ?thesis
    using base_decode_errors [OF L list_reader_ok, of "-1" "new_data_col ''x''" "[1]"]
      base_decode_errors [OF L list_reader_ok, of 3 "new_data_col ''x''" "[1, 2, 3]"]
    by (simp add: word_layout_def)
qed

end
