(* ===== verification/Str_Column.thy ===== *)
theory Str_Column
  imports Base_Column
begin

text \<open>
  \<open>StrColumn\<close> of \<^verbatim>\<open>column/str.go\<close>. \<open>DecodeColumn\<close> reads the strings into one contiguous
  buffer \<open>buf\<close> with the start offsets in \<open>pos\<close>, then cuts \<open>Data\<close> out of it. The capacities of
  \<open>buf\<close> and \<open>pos\<close>, on which the growth policy branches, are fields of the record; the one-byte
  buffer \<open>vib\<close> is the argument of the reader's one-byte \<open>Read\<close>.
\<close>

record str_col =
  sc_name :: string
  sc_data :: "string list"
  sc_buf :: "byte list"
  sc_bufcap :: int
  sc_pos :: "int list"
  sc_poscap :: int

definition new_str_col :: "string \<Rightarrow> str_col" where
  "new_str_col name = \<lparr> sc_name = name, sc_data = [], sc_buf = [], sc_bufcap = 0, sc_pos = [], sc_poscap = 0 \<rparr>"

section \<open>readUVarint\<close>

text \<open>\<open>k\<close> is the number of iterations left, so \<open>i = 10 - k\<close> at the loop's head.\<close>

fun str_readUVarint :: "'r preader \<Rightarrow> nat \<Rightarrow> u64 \<Rightarrow> nat \<Rightarrow> ('r, int) rdm" where
  "str_readUVarint P 0 x s = rlift (Err (Errorf ''uvarint overflow''))"
| "str_readUVarint P (Suc k) x s = (\<lambda>r. case rd_read P 1 r of ((vib, err), r') \<Rightarrow>
     (case vib of
        [] \<Rightarrow> (Err (Ext_error ''unexpected EOF''), r')
      | b # _ \<Rightarrow> (case err of
          Some e \<Rightarrow> (Err e, r')
        | None \<Rightarrow>
            if b < 0x80
            then if k = 0 \<and> 1 < b then (Err (Errorf ''uvarint overflow''), r')
                 else (Ok (sint (x OR push_bit s (ucast b))), r')
            else str_readUVarint P k (x OR push_bit s (ucast (b AND 0x7F))) (s + 7) r')))"

section \<open>The column\<close>

definition str_len :: "str_col \<Rightarrow> nat" where
  [col_defs]: "str_len c = length (sc_data c)"

definition str_type :: "ctypes \<Rightarrow> str_col \<Rightarrow> string" where
  "str_type C c = ct_name C CT_String"

definition str_infer :: "ctypes \<Rightarrow> string \<Rightarrow> str_col \<Rightarrow> str_col go" where
  "str_infer C t c = (if ct_base C t \<noteq> ct_name C CT_String
     then Err (Errorf ''StrColumn: expected String'') else Ok c)"

definition str_append :: "string \<Rightarrow> str_col \<Rightarrow> str_col go" where
  [col_defs]: "str_append v c = Ok (c\<lparr>sc_data := sc_data c @ [v]\<rparr>)"

definition str_append_arr :: "string list \<Rightarrow> str_col \<Rightarrow> str_col go" where
  [col_defs]: "str_append_arr vs c = Ok (c\<lparr>sc_data := sc_data c @ vs\<rparr>)"

definition str_row :: "str_col \<Rightarrow> int \<Rightarrow> string go" where
  [col_defs]: "str_row c i = idx (sc_data c) i"

definition str_slice :: "str_col \<Rightarrow> int \<Rightarrow> int \<Rightarrow> string list go" where
  [col_defs]: "str_slice c lo hi = slice_expr (sc_data c) lo hi"

definition str_reset :: "str_col \<Rightarrow> str_col" where
  [col_defs]: "str_reset c = c\<lparr>sc_data := []\<rparr>"

text \<open>
  One iteration reads a length and that many bytes. The slice \<open>c.buf[:end]\<close> or
  \<open>c.buf[c.pos[i]:end]\<close> panics when \<open>end\<close> has become smaller, which a length of 2^63 or more
  (negative as an \<open>int\<close>) brings about.
\<close>

definition str_grow :: "int \<Rightarrow> int \<Rightarrow> int \<Rightarrow> int \<Rightarrow> int go" where
  "str_grow bcap end' n left =
     (if bcap < end'
      then let newCap = (if 128 \<le> n then end' else wrap64 (end' + n * left))
           in go_bind (go_make 1 end' newCap) (\<lambda>_. Ok newCap)
      else Ok bcap)"

fun str_loop :: "'r preader \<Rightarrow> nat \<Rightarrow> int list \<Rightarrow> byte list \<Rightarrow> int \<Rightarrow> ('r, int list \<times> byte list \<times> int) rdm" where
  "str_loop P 0 pos buf bcap = rret (pos @ [int (length buf)], buf, bcap)"
| "str_loop P (Suc k) pos buf bcap =
     rbind (str_readUVarint P 10 0 0) (\<lambda>n.
       let start = int (length buf); end' = wrap64 (start + n)
       in rbind (rlift (str_grow bcap end' n (int (Suc k)))) (\<lambda>bcap'.
          if end' < start then rlift (Panic ''slice bounds out of range'')
          else rbind (rd_full P (nat (end' - start))) (\<lambda>bs.
            str_loop P k (pos @ [start]) (buf @ bs) bcap')))"

definition str_cut :: "byte list \<Rightarrow> int list \<Rightarrow> nat \<Rightarrow> string list" where
  "str_cut buf pos rows =
     map (\<lambda>i. bytes_str (take (nat (pos ! Suc i - pos ! i)) (drop (nat (pos ! i)) buf))) [0..<rows]"

definition str_decode :: "'r preader \<Rightarrow> str_col \<Rightarrow> int \<Rightarrow> ('r, str_col) rdm" where
  "str_decode P c rows =
     (if rows = 0 then rret (c\<lparr>sc_data := [], sc_buf := [], sc_pos := []\<rparr>)
      else let want = wrap64 (rows + 1) in
        rbind (rlift (if sc_poscap c < want
                      then go_bind (go_make 8 want (wrap64 (want * 2))) (\<lambda>_. Ok (wrap64 (want * 2)))
                      else Ok (sc_poscap c))) (\<lambda>pcap.
        rbind (rlift (if want < 0 then Panic ''slice bounds out of range'' else Ok ())) (\<lambda>_.
        rbind (str_loop P (nat rows) [] [] (sc_bufcap c)) (\<lambda>(pos, buf, bcap).
        rbind (rlift (if rows < 0 then Panic ''index out of range'' else Ok ())) (\<lambda>_.
        rbind (rlift (go_make 16 rows (wrap64 (rows * 2)))) (\<lambda>_.
        rret (c\<lparr>sc_data := str_cut buf pos (nat rows), sc_buf := buf, sc_bufcap := bcap,
                sc_pos := pos, sc_poscap := pcap\<rparr>)))))))"

fun str_puts :: "pbuffer \<Rightarrow> string list \<Rightarrow> byte list \<Rightarrow> byte list" where
  "str_puts B [] b = b"
| "str_puts B (v # vs) b = str_puts B vs (put_string B v b)"

definition str_encode :: "pbuffer \<Rightarrow> str_col \<Rightarrow> byte list \<Rightarrow> byte list go" where
  "str_encode B c b = Ok (str_puts B (sc_data c) b)"

definition str_write :: "'w pwriter \<Rightarrow> pbuffer \<Rightarrow> str_col \<Rightarrow> 'w \<Rightarrow> 'w" where
  "str_write W B c w = chain_buffer W (str_puts B (sc_data c)) w"

definition str_ops :: "('r, 'w, str_col, string) of_ops" where
  "str_ops = \<lparr> of_name = sc_name, of_type = str_type, of_len = str_len,
     of_append = str_append, of_append_arr = str_append_arr, of_row = str_row, of_reset = str_reset,
     of_decode = str_decode, of_encode = str_encode, of_write = str_write,
     of_slice = Some str_slice, of_infer = Some str_infer \<rparr>"

section \<open>The wire image\<close>

definition str_image :: "string list \<Rightarrow> byte list" where
  "str_image vs = concat (map (\<lambda>v. uvarint (length v) @ str_bytes v) vs)"

lemma str_image_simps [simp]:
  "str_image [] = []"
  "str_image (v # vs) = uvarint (length v) @ str_bytes v @ str_image vs"
  by (simp_all add: str_image_def)

lemma str_puts_eq: "buffer_ok B \<Longrightarrow> str_puts B vs b = b @ str_image vs"
  by (induction vs arbitrary: b) (simp_all add: put_string_eq)

lemma rows_le_str_image: "length vs \<le> length (str_image vs)"
proof (induction vs)
  case (Cons v vs)
  then show ?case using length_uvarint_pos [of "length v"] by simp
qed simp

lemma bytes_le_str_image: "length (concat vs) \<le> length (str_image vs)"
  by (induction vs) simp_all

section \<open>The varint loop\<close>

lemma or_push_bit_add:
  assumes "unat (x :: u64) < 2 ^ s"
  shows "x OR push_bit s y = x + y * 2 ^ s"
proof -
  have "take_bit s x = x"
    using assms by (simp add: word_unat_eq_iff unsigned_take_bit_eq take_bit_nat_eq_self_iff)
  then have "\<not> bit x n" if "s \<le> n" for n
    using that by (metis bit_take_bit_iff not_less)
  then have "x + push_bit s y = x OR push_bit s y"
    by (intro disjunctive_add_eq_or) (auto simp: bit_eq_iff bit_and_iff bit_push_bit_iff)
  then show ?thesis by (simp add: push_bit_eq_mult)
qed

lemma low7: "unat (b AND 0x7F :: byte) = unat b mod 128"
proof -
  have "b AND 0x7F = take_bit 7 b" by (simp add: take_bit_eq_mask mask_eq_exp_minus_1)
  then have "unat (b AND 0x7F) = take_bit 7 (unat b)" by (simp only: unsigned_take_bit_eq)
  then show ?thesis by (simp add: take_bit_eq_mod)
qed

lemma ucast_byte: "(ucast (b :: byte) :: u64) = word_of_nat (unat b)"
  by (simp add: unsigned_ucast_eq flip: word_unat_eq_iff)

lemma str_step_word:
  assumes "m < 2 ^ s" and "s \<le> 63"
  shows "(word_of_nat m :: u64) OR push_bit s (ucast (b :: byte)) = word_of_nat (m + unat b * 2 ^ s)"
proof -
  have "(2::nat) ^ s \<le> 2 ^ 63" using assms(2) by (rule power_increasing) simp
  with assms(1) have "unat (word_of_nat m :: u64) < 2 ^ s" by (simp add: unat_of_nat)
  then show ?thesis
    by (simp only: or_push_bit_add ucast_byte of_nat_add of_nat_mult of_nat_power of_nat_numeral)
qed

lemma str_readUVarint_step:
  assumes P: "reader_ok P pd"
  shows "0 < k \<Longrightarrow> s + 7 * k = 70 \<Longrightarrow> n < 2 ^ (7 * k - 6) \<Longrightarrow> m < 2 ^ s \<Longrightarrow> pd r = uvarint n @ rest \<Longrightarrow>
    \<exists>r'. str_readUVarint P k (word_of_nat m) s r =
        (Ok (sint (word_of_nat (m + n * 2 ^ s) :: u64)), r') \<and> pd r' = rest"
proof (induction k arbitrary: n m r s)
  case (Suc k)
  have s: "s \<le> 63" and s7: "(s + 7) + 7 * k = 70" using Suc.prems(2) by simp_all
  show ?case
  proof (cases "n < 128")
    case True
    with Suc.prems(5) rd_read_Cons [OF P, of r "word_of_nat n" rest] obtain r'
      where r: "rd_read P 1 r = (([word_of_nat n], None), r')" "pd r' = rest" by auto
    have "unat (word_of_nat n :: byte) = n" using True by (simp add: unat_byte_of_nat)
    moreover have "k = 0 \<Longrightarrow> n < 2" using Suc.prems(3) by simp
    ultimately show ?thesis
      using True r str_step_word [of m s "word_of_nat n"] Suc.prems(4) s
      by (auto simp: word_less_nat_alt)
  next
    case False
    have k: "0 < k"
    proof (rule ccontr)
      assume "\<not> 0 < k"
      with Suc.prems(3) False show False by simp
    qed
    define b where "b = (word_of_nat (n mod 128 + 128) :: byte)"
    have "n mod 128 + 128 < 256" using mod_less_divisor [of 128 n] by linarith
    then have b: "unat b = n mod 128 + 128" unfolding b_def by (simp only: unat_byte_of_nat mod_less)
    with False Suc.prems(5) rd_read_Cons [OF P, of r b "uvarint (n div 128) @ rest"] obtain r'
      where r: "rd_read P 1 r = (([b], None), r')" "pd r' = uvarint (n div 128) @ rest"
      by (auto simp: uvarint_big b_def)
    from k have "7 * Suc k - 6 = 7 + (7 * k - 6)" by simp
    then have "(2::nat) ^ (7 * Suc k - 6) = 128 * 2 ^ (7 * k - 6)" by (simp only: power_add) simp
    with Suc.prems(3) have n: "n div 128 < 2 ^ (7 * k - 6)"
      by (simp add: less_mult_imp_div_less mult.commute)
    have "n mod 128 * 2 ^ s \<le> 127 * 2 ^ s" by (intro mult_right_mono) auto
    with Suc.prems(4) have "m + n mod 128 * 2 ^ s < 2 ^ s + 127 * 2 ^ s" by (rule add_less_le_mono)
    then have m: "m + n mod 128 * 2 ^ s < 2 ^ (s + 7)" by (simp add: power_add)
    have "m + n mod 128 * 2 ^ s + n div 128 * 2 ^ (s + 7) = m + (n mod 128 + n div 128 * 128) * 2 ^ s"
      unfolding power_add distrib_right by (simp only: mult.assoc mult.commute) simp
    then have sum: "m + n mod 128 * 2 ^ s + n div 128 * 2 ^ (s + 7) = m + n * 2 ^ s"
      by (simp only: mod_div_mult_eq)
    from Suc.IH [OF k s7 n m r(2)]
    show ?thesis
      using r(1) b str_step_word [of m s "b AND 0x7F"] Suc.prems(4) s
      by (simp add: low7 word_less_nat_alt sum del: of_nat_add of_nat_mult)
  qed
qed simp

lemma str_readUVarint_truncated:
  assumes P: "reader_ok P pd"
  shows "uvarint n = pd r @ rest \<Longrightarrow> rest \<noteq> [] \<Longrightarrow> \<exists>e r'. str_readUVarint P k x s r = (Err e, r')"
proof (induction k arbitrary: n x s r)
  case (Suc k)
  show ?case
  proof (cases "pd r")
    case Nil
    with rd_read_Nil [OF P, of r] show ?thesis by auto
  next
    case (Cons b bs)
    with rd_read_Cons [OF P, of r b bs] obtain r'
      where r: "rd_read P 1 r = (([b], None), r')" "pd r' = bs" by auto
    from Cons Suc.prems have n: "128 \<le> n" by (cases "n < 128") auto
    with Cons Suc.prems have tl: "uvarint (n div 128) = pd r' @ rest"
      and b: "b = word_of_nat (n mod 128 + 128)" by (simp_all add: uvarint_big r)
    have "n mod 128 + 128 < 256" using mod_less_divisor [of 128 n] by linarith
    then have "unat b = n mod 128 + 128" unfolding b by (simp only: unat_byte_of_nat mod_less)
    then have "\<not> b < 0x80" by (simp add: word_less_nat_alt)
    with Suc.IH [OF tl Suc.prems(2)] r(1) show ?thesis by auto
  qed
qed simp

lemma str_readUVarint_yields_word:
  assumes P: "reader_ok P pd" and n: "n < 2 ^ 64"
  shows "yields pd (str_readUVarint P 10 0 0) (uvarint n) (sint (word_of_nat n :: u64))"
proof (rule yieldsI)
  fix r rest assume "pd r = uvarint n @ rest"
  then show "\<exists>r'. str_readUVarint P 10 0 0 r = (Ok (sint (word_of_nat n :: u64)), r') \<and> pd r' = rest"
    using str_readUVarint_step [OF P, of 10 0 n 0 r rest] n by simp
qed (rule str_readUVarint_truncated [OF P])

lemma str_readUVarint_yields:
  assumes "reader_ok P pd" and "n < 2 ^ 63"
  shows "yields pd (str_readUVarint P 10 0 0) (uvarint n) (int n)"
  using str_readUVarint_yields_word [OF assms(1), of n] assms(2)
  by (simp add: signed_of_nat signed_take_bit_int_eq_self)

section \<open>The decode loop\<close>

fun str_starts :: "nat \<Rightarrow> string list \<Rightarrow> int list" where
  "str_starts n [] = [int n]"
| "str_starts n (v # vs) = int n # str_starts (n + length v) vs"

lemma str_starts_nth:
  "i \<le> length vs \<Longrightarrow> str_starts n vs ! i = int (n + length (concat (take i vs)))"
proof (induction vs arbitrary: n i)
  case (Cons v vs)
  then show ?case by (cases i) (simp_all add: add.assoc)
qed simp

lemma str_cut_starts: "str_cut (concat (map str_bytes vs)) (str_starts 0 vs) (length vs) = vs"
proof (rule nth_equalityI)
  fix i assume "i < length (str_cut (concat (map str_bytes vs)) (str_starts 0 vs) (length vs))"
  then have i: "i < length vs" by (simp add: str_cut_def)
  have len: "length (concat (map str_bytes us)) = length (concat us)" for us
    by (induction us) simp_all
  have "concat (map str_bytes vs) = concat (map str_bytes (take i vs)) @ str_bytes (vs ! i) @
      concat (map str_bytes (drop (Suc i) vs))"
    using id_take_nth_drop [OF i] by (metis concat.simps(2) concat_append list.simps(9) map_append)
  moreover have "str_starts 0 vs ! Suc i - str_starts 0 vs ! i = int (length (vs ! i))"
    using i by (simp add: str_starts_nth take_Suc_conv_app_nth)
  ultimately show "str_cut (concat (map str_bytes vs)) (str_starts 0 vs) (length vs) ! i = vs ! i"
    using i by (simp add: str_cut_def str_starts_nth len)
qed (simp add: str_cut_def)

lemma str_grow_Ok:
  assumes "start + n < 2 ^ 40" and "k < 2 ^ 40"
  shows "\<exists>c. str_grow bcap (int start + int n) (int n) (int (Suc k)) = Ok c"
proof (cases "n < 128")
  case True
  have s: "int start + int n < 2 ^ 40" using assms(1) by (simp flip: of_nat_add)
  have "n * Suc k \<le> 127 * 2 ^ 40" using assms(2) True by (intro mult_le_mono) simp_all
  then have "int (n * Suc k) \<le> int (127 * 2 ^ 40)" by (simp only: of_nat_le_iff)
  then have nk: "int n * int (Suc k) \<le> 127 * 2 ^ 40"
    by (simp only: of_nat_mult of_nat_numeral of_nat_power)
  define m where "m = int n * int (Suc k)"
  have m: "0 \<le> m" "m \<le> 127 * 2 ^ 40" using nk by (simp_all add: m_def)
  with s have "wrap64 (int start + int n + m) = int start + int n + m"
    by (intro wrap64_id) simp_all
  with s m have "go_make 1 (int start + int n) (wrap64 (int start + int n + m)) = Ok ()"
    by (simp add: go_make_def maxAlloc_def)
  with True show ?thesis by (simp add: str_grow_def m_def del: of_nat_Suc)
next
  case False
  have "int start + int n < 2 ^ 40" using assms(1) by (simp flip: of_nat_add)
  with False show ?thesis by (simp add: str_grow_def go_make_def maxAlloc_def)
qed

lemma str_loop_yields:
  assumes P: "reader_ok P pd"
  shows "length buf + length (str_image vs) < 2 ^ 40 \<Longrightarrow>
    \<exists>bcap'. yields pd (str_loop P (length vs) pos buf bcap) (str_image vs)
      (pos @ str_starts (length buf) vs, buf @ concat (map str_bytes vs), bcap')"
proof (induction vs arbitrary: pos buf bcap)
  case (Cons v vs)
  have sm: "length buf + length v < 2 ^ 40" and k: "length vs < 2 ^ 40"
    using Cons.prems rows_le_str_image [of vs] by simp_all
  then have "int (length buf) + int (length v) < 2 ^ 40" by (simp flip: of_nat_add)
  then have e: "wrap64 (int (length buf) + int (length v)) = int (length buf) + int (length v)"
    by (intro wrap64_id) simp_all
  obtain c where g: "str_grow bcap (int (length buf) + int (length v)) (int (length v)) (int (Suc (length vs))) = Ok c"
    using str_grow_Ok [OF sm k] by blast
  obtain bcap' where IH: "yields pd (str_loop P (length vs) (pos @ [int (length buf)]) (buf @ str_bytes v) c)
      (str_image vs) (pos @ str_starts (length buf) (v # vs), buf @ str_bytes v @ concat (map str_bytes vs), bcap')"
    using Cons.IH [of "buf @ str_bytes v" "pos @ [int (length buf)]" c] Cons.prems by auto
  have len: "yields pd (str_readUVarint P 10 0 0) (uvarint (length v)) (int (length v))"
    using sm by (intro str_readUVarint_yields [OF P]) simp
  have body: "yields pd (rd_full P (length v)) (str_bytes v) (str_bytes v)"
    by (rule rd_full_yields [OF P]) simp
  have "yields pd (str_loop P (length (v # vs)) pos buf bcap)
      (uvarint (length v) @ str_bytes v @ str_image vs)
      (pos @ str_starts (length buf) (v # vs), buf @ concat (map str_bytes (v # vs)), bcap')"
    unfolding length_Cons str_loop.simps
    by (rule yields_bind [OF len])
      (auto simp: e g Let_def intro!: yields_bind [OF body] IH simp del: of_nat_Suc str_starts.simps)
  then show ?case by auto
qed (fastforce intro: yields_rret)

lemma str_make_Ok:
  assumes "n < 2 ^ 40"
  shows "go_make 8 (int n + 1) (wrap64 ((int n + 1) * 2)) = Ok ()"
    and "go_make 16 (int n) (wrap64 (int n * 2)) = Ok ()"
    and "wrap64 (int n + 1) = int n + 1"
proof -
  have "int n < int (2 ^ 40)" using assms by (simp only: of_nat_less_iff)
  then have n: "int n < 2 ^ 40" by simp
  show "go_make 8 (int n + 1) (wrap64 ((int n + 1) * 2)) = Ok ()"
    using n by (intro go_make_double) simp_all
  show "go_make 16 (int n) (wrap64 (int n * 2)) = Ok ()"
    using n by (intro go_make_double) simp_all
  show "wrap64 (int n + 1) = int n + 1" using n by (intro wrap64_id) simp_all
qed

text \<open>The columns \<open>DecodeColumn\<close> may leave behind: the strings, and the buffer they are cut from.\<close>

definition str_holds :: "str_col \<Rightarrow> string list \<Rightarrow> bool" where
  "str_holds c vs \<longleftrightarrow> sc_data c = vs \<and> sc_buf c = concat (map str_bytes vs) \<and>
     (vs \<noteq> [] \<longrightarrow> sc_pos c = str_starts 0 vs)"

lemma str_decode_yields:
  assumes P: "reader_ok P pd" and sm: "small (str_image vs)"
  shows "\<exists>c'. yields pd (str_decode P c (int (length vs))) (str_image vs) c' \<and> str_holds c' vs \<and> sc_name c' = sc_name c"
proof (cases "vs = []")
  case True
  then show ?thesis
    by (auto simp: str_decode_def str_holds_def intro!: exI yields_rret)
next
  case False
  have n: "length vs < 2 ^ 40" using sm rows_le_str_image [of vs] by linarith
  define want where "want = int (length vs) + 1"
  have w: "wrap64 (int (length vs) + 1) = want" "\<not> want < 0"
      "go_make 8 want (wrap64 (want * 2)) = Ok ()" "go_make 16 (int (length vs)) (wrap64 (int (length vs) * 2)) = Ok ()"
    using str_make_Ok [OF n] by (simp_all add: want_def)
  obtain bcap' where loop: "yields pd (str_loop P (length vs) [] [] (sc_bufcap c)) (str_image vs)
      (str_starts 0 vs, concat (map str_bytes vs), bcap')"
    using str_loop_yields [OF P, of "[]" vs "[]" "sc_bufcap c"] sm by auto
  define c' where "c' = c\<lparr>sc_data := vs, sc_buf := concat (map str_bytes vs), sc_bufcap := bcap',
      sc_pos := str_starts 0 vs,
      sc_poscap := (if sc_poscap c < want then wrap64 (want * 2) else sc_poscap c)\<rparr>"
  have "yields pd (str_decode P c (int (length vs))) (str_image vs) c'"
    using False unfolding str_decode_def c'_def w
    by (cases "sc_poscap c < want")
      (simp_all add: w, (rule yields_bind_pure [OF loop], simp add: str_cut_starts)+)
  then show ?thesis by (auto simp: str_holds_def c'_def)
qed

interpretation str_col: of_column_w "str_ops :: ('r, 'w, str_col, string) of_ops" "\<lambda>_. True" sc_data
    "\<lambda>c. str_image (sc_data c)" "\<lambda>_ _. True" "\<lambda>_ v. v" "\<lambda>_ _. True"
proof (unfold_locales, goal_cases)
  case (7 c c0 P pd)
  then show ?case
    using str_decode_yields [of P pd "sc_data c" c0] by (auto simp: str_ops_def str_holds_def)
next
  case (14 c W out B w)
  then show ?case by (simp add: str_ops_def str_write_def out_chain_buffer str_puts_eq)
qed (auto simp: str_ops_def str_encode_def col_defs slice_expr_in rows_le_str_image str_puts_eq)

section \<open>Properties\<close>

lemma wrap64_sint [simp]: "wrap64 (sint (w :: u64)) = sint w"
  by (simp add: wrap64_def)

lemma sint_u64: "n < 2 ^ 64 \<Longrightarrow> sint (word_of_nat n :: u64) = (if n < 2 ^ 63 then int n else int n - 2 ^ 64)"
proof (cases "n < 2 ^ 63")
  case False
  assume n: "n < 2 ^ 64"
  have "(int n + 2 ^ 63) mod 2 ^ 64 = (int n - 2 ^ 63 + 2 ^ 64) mod 2 ^ 64"
    by (simp add: add.commute)
  also have "\<dots> = (int n - 2 ^ 63) mod 2 ^ 64" by (rule mod_add_self2)
  also have "\<dots> = int n - 2 ^ 63" using n False by (intro mod_pos_pos_trivial) simp_all
  finally have "signed_take_bit 63 (int n) = int n - 2 ^ 64"
    by (simp add: signed_take_bit_eq_take_bit_shift take_bit_eq_mod)
  with False show ?thesis by (simp add: signed_of_nat)
qed (simp add: signed_of_nat signed_take_bit_int_eq_self)

lemma str_decode_hostile:
  assumes P: "reader_ok P pd" and rows: "0 < rows" and n: "2 ^ 48 < n" "n < 2 ^ 64"
    and cap: "0 \<le> sc_bufcap c" "sc_bufcap c \<le> 2 ^ 48"
  shows "panics pd (str_decode P c rows) (uvarint n)"
proof -
  obtain k where k: "nat rows = Suc k" using rows by (cases "nat rows") auto
  define l where "l = sint (word_of_nat n :: u64)"
  have l: "l < 0 \<or> 2 ^ 48 < l"
    using n sint_u64 [OF n(2)] by (auto simp: l_def)
  have w: "wrap64 l = l" by (simp add: l_def)
  have "panics pd (str_loop P (Suc k) [] [] (sc_bufcap c)) (uvarint n @ [])"
    unfolding str_loop.simps
    by (rule panics_bind [OF str_readUVarint_yields_word [OF P n(2)]])
      (use l cap in \<open>auto simp: w str_grow_def go_make_def maxAlloc_def simp flip: l_def\<close>)
  then show ?thesis
    using rows by (auto simp: str_decode_def k Let_def go_make_def simp del: str_loop.simps intro!: panics_first)
qed

text \<open>
  C2. A String column: \<open>EncodeColumn\<close> and \<open>WriteColumn\<close> produce, for each value, the varint of
  its length and its bytes; \<open>DecodeColumn\<close> with the same row count reads exactly these bytes
  back into the same strings, whatever the decoding column's buffers held or could hold; and
  every truncated input is an error.
\<close>

theorem str_roundtrip:
  assumes P: "reader_ok P pd" and B: "buffer_ok B" and W: "writer_ok W out"
    and small: "length (str_image (sc_data c)) < 2 ^ 40"
  shows "str_encode B c b = Ok (b @ str_image (sc_data c)) \<and>
    out (str_write W B c w) = out w @ str_image (sc_data c) \<and>
    (\<exists>c'. yields pd (str_decode P c0 (int (str_len c))) (str_image (sc_data c)) c' \<and>
      sc_data c' = sc_data c \<and> sc_name c' = sc_name c0)"
  using str_decode_yields [OF P small, of c0]
  by (auto simp: str_encode_def str_write_def str_puts_eq [OF B] out_chain_buffer [OF W] str_len_def str_holds_def)

theorem str_roundtrip_witness:
  "str_encode list_buffer (new_str_col ''s''\<lparr>sc_data := [''ab'', [], ''c'']\<rparr>) [7] =
     Ok [7, 2, 97, 98, 0, 1, 99] \<and>
   (\<exists>c' r'. str_decode list_reader (new_str_col ''t'') 3 [2, 97, 98, 0, 1, 99, 5] = (Ok c', r') \<and>
      sc_data c' = [''ab'', [], ''c''] \<and> r' = [5])"
proof -
  let ?c = "new_str_col ''s''\<lparr>sc_data := [''ab'', [], ''c'']\<rparr>"
  have img: "str_image (sc_data ?c) = [2, 97, 98, 0, 1, 99]" by (simp add: str_bytes_def)
  then have small: "length (str_image (sc_data ?c)) < 2 ^ 40" by simp
  show ?thesis
    using str_roundtrip [OF list_reader_ok list_buffer_ok list_writer_ok small, of "[7]" "[]" "new_str_col ''t''"]
    by (auto simp: str_bytes_def str_len_def dest: yieldsD [of id _ _ _ "[2, 97, 98, 0, 1, 99, 5]" "[5]"])
qed

text \<open>
  C25. The limits of \<open>StrColumn.DecodeColumn\<close>: a negative row count panics, and so does a length
  prefix beyond 2^48 (the allocator's limit) or of 2^63 and more (negative as an \<open>int\<close>),
  whenever the column's buffer has not grown beyond the allocator's limit. A server can bring
  the client down with nine bytes.
\<close>

theorem str_decode_panics:
  assumes P: "reader_ok P pd"
  shows "(rows < 0 \<longrightarrow> - (2 ^ 63) \<le> rows \<longrightarrow> is_panic (fst (str_decode P c rows r))) \<and>
    (0 < rows \<longrightarrow> 2 ^ 48 < n \<longrightarrow> n < 2 ^ 64 \<longrightarrow> 0 \<le> sc_bufcap c \<longrightarrow> sc_bufcap c \<le> 2 ^ 48 \<longrightarrow>
       pd r = uvarint n @ rest \<longrightarrow> is_panic (fst (str_decode P c rows r)))"
proof (intro conjI impI)
  assume r: "rows < 0" "- (2 ^ 63) \<le> rows"
  then have "wrap64 (rows + 1) = rows + 1" by (intro wrap64_id) simp_all
  moreover have "go_make 8 want cap \<noteq> Err e" for want cap e by (simp add: go_make_def)
  ultimately show "is_panic (fst (str_decode P c rows r))"
    using r by (auto simp: str_decode_def Let_def go_make_def rlift_Ok)
next
  assume "0 < rows" "2 ^ 48 < n" "n < 2 ^ 64" "0 \<le> sc_bufcap c" "sc_bufcap c \<le> 2 ^ 48"
    and r: "pd r = uvarint n @ rest"
  from str_decode_hostile [OF P this(1-5)] r show "is_panic (fst (str_decode P c rows r))"
    by (fastforce simp: panics_def)
qed

theorem str_decode_panics_witness:
  "is_panic (fst (str_decode list_reader (new_str_col ''s'') 1 (uvarint (2 ^ 50)))) \<and>
   is_panic (fst (str_decode list_reader (new_str_col ''s'') (-1) []))"
  using str_decode_panics [OF list_reader_ok, of 1 "new_str_col ''s''" "uvarint (2 ^ 50)" "2 ^ 50" "[]"]
    str_decode_panics [OF list_reader_ok, of "-1" "new_str_col ''s''" "[]"]
  by (simp add: new_str_col_def)

end
