(* ===== verification/Go_Strings.thy ===== *)
theory Go_Strings
  imports Proto
begin

text \<open>
  The functions of Go's \<^verbatim>\<open>strconv\<close> and \<^verbatim>\<open>strings\<close> packages that the repository calls, over
  HOL strings (a Go string is a sequence of bytes, and so is a HOL string).
\<close>

section \<open>Decimal numbers\<close>

definition digit :: "nat \<Rightarrow> char" where
  "digit d = char_of (48 + d)"

definition is_digit :: "char \<Rightarrow> bool" where
  "is_digit c \<longleftrightarrow> 48 \<le> (of_char c :: nat) \<and> (of_char c :: nat) \<le> 57"

definition digit_val :: "char \<Rightarrow> nat" where
  "digit_val c = of_char c - 48"

fun nat_str :: "nat \<Rightarrow> string" where
  "nat_str n = (if n < 10 then [digit n] else nat_str (n div 10) @ [digit (n mod 10)])"

declare nat_str.simps [simp del]

definition itoa :: "int \<Rightarrow> string" where
  "itoa n = (if n < 0 then ''-'' @ nat_str (nat (- n)) else nat_str (nat n))"

definition str_val :: "string \<Rightarrow> nat" where
  "str_val s = foldl (\<lambda>a c. a * 10 + digit_val c) 0 s"

text \<open>\<open>strconv.ParseInt(s, 10, bits)\<close>; \<open>strconv.Atoi\<close> is the one with 64 bits.\<close>

definition parse_int :: "nat \<Rightarrow> string \<Rightarrow> int go" where
  "parse_int bits s =
     (let (neg, ds) = (case s of
          [] \<Rightarrow> (False, [])
        | c # cs \<Rightarrow> if c = CHR ''-'' then (True, cs) else if c = CHR ''+'' then (False, cs) else (False, s))
      in if ds = [] \<or> \<not> list_all is_digit ds then Err (Ext_error ''invalid syntax'')
         else let v = (if neg then - int (str_val ds) else int (str_val ds))
              in if v < - (2 ^ (bits - 1)) \<or> 2 ^ (bits - 1) \<le> v then Err (Ext_error ''value out of range'')
                 else Ok v)"

definition atoi :: "string \<Rightarrow> int go" where
  "atoi = parse_int 64"

lemma of_char_digit: "d < 10 \<Longrightarrow> (of_char (digit d) :: nat) = 48 + d"
  by (simp add: digit_def)

lemma digit_is_digit [simp]: "d < 10 \<Longrightarrow> is_digit (digit d)"
  by (simp add: is_digit_def of_char_digit)

lemma digit_val_digit [simp]: "d < 10 \<Longrightarrow> digit_val (digit d) = d"
  by (simp add: digit_val_def of_char_digit)

lemma nat_str_digits: "list_all is_digit (nat_str n)"
  by (induction n rule: nat_str.induct) (subst nat_str.simps, simp)

lemma nat_str_nonempty [simp]: "nat_str n \<noteq> []"
  by (subst nat_str.simps) simp

lemma str_val_snoc: "str_val (s @ [c]) = str_val s * 10 + digit_val c"
  by (simp add: str_val_def)

lemma str_val_nat_str [simp]: "str_val (nat_str n) = n"
proof (induction n rule: nat_str.induct)
  case (1 n)
  then show ?case
    by (subst nat_str.simps) (simp add: str_val_snoc, simp add: str_val_def)
qed

lemma is_digit_not_sign: "is_digit c \<Longrightarrow> c \<noteq> CHR ''-'' \<and> c \<noteq> CHR ''+''"
  by (auto simp: is_digit_def)

lemma parse_int_digits:
  assumes "s \<noteq> []" and "list_all is_digit s"
  shows "parse_int bits s = (if 2 ^ (bits - 1) \<le> int (str_val s) then Err (Ext_error ''value out of range'')
    else Ok (int (str_val s)))"
proof -
  obtain c cs where s: "s = c # cs" using assms(1) by (cases s) auto
  with assms(2) have "c \<noteq> CHR ''-''" "c \<noteq> CHR ''+''"
    using is_digit_not_sign [of c] by simp_all
  moreover have "\<not> int (str_val s) < - (2 ^ (bits - 1))"
    by (metis negative_zle not_less of_nat_numeral of_nat_power order_trans zero_le_power_eq_numeral
        neg_le_0_iff_le of_nat_0_le_iff zero_le_numeral zero_le_power)
  ultimately show ?thesis using assms by (simp add: parse_int_def s)
qed

lemma parse_int_itoa:
  assumes "- (2 ^ (bits - 1)) \<le> n" and "n < 2 ^ (bits - 1)"
  shows "parse_int bits (itoa n) = Ok n"
proof (cases "n < 0")
  case True
  with assms show ?thesis by (simp add: itoa_def parse_int_def nat_str_digits)
next
  case False
  with assms show ?thesis by (simp add: itoa_def parse_int_digits nat_str_digits)
qed

lemma atoi_itoa: "- (2 ^ 63) \<le> n \<Longrightarrow> n < 2 ^ 63 \<Longrightarrow> atoi (itoa n) = Ok n"
  by (simp add: atoi_def parse_int_itoa)

lemma itoa_nonempty [simp]: "itoa n \<noteq> []"
  by (simp add: itoa_def)

section \<open>Trimming and splitting\<close>

text \<open>The UTF-8 encodings of the code points \<open>unicode.IsSpace\<close> accepts.\<close>

definition space_seqs :: "string list" where
  "space_seqs = map (map char_of) ([[32], [9], [10], [11], [12], [13], [0xC2, 0x85], [0xC2, 0xA0], [0xE1, 0x9A, 0x80],
     [0xE2, 0x80, 0x80], [0xE2, 0x80, 0x81], [0xE2, 0x80, 0x82], [0xE2, 0x80, 0x83], [0xE2, 0x80, 0x84],
     [0xE2, 0x80, 0x85], [0xE2, 0x80, 0x86], [0xE2, 0x80, 0x87], [0xE2, 0x80, 0x88], [0xE2, 0x80, 0x89],
     [0xE2, 0x80, 0x8A], [0xE2, 0x80, 0xA8], [0xE2, 0x80, 0xA9], [0xE2, 0x80, 0xAF], [0xE2, 0x81, 0x9F],
     [0xE3, 0x80, 0x80]] :: nat list list)"

fun strip_one :: "string list \<Rightarrow> string \<Rightarrow> string option" where
  "strip_one [] s = None"
| "strip_one (p # ps) s = (if p \<noteq> [] \<and> take (length p) s = p then Some (drop (length p) s) else strip_one ps s)"

lemma strip_one_shorter: "strip_one ps s = Some t \<Longrightarrow> length t < length s"
proof (induction ps)
  case (Cons p ps)
  then show ?case by (cases s) (auto split: if_splits)
qed simp

function trim_left :: "string list \<Rightarrow> string \<Rightarrow> string" where
  "trim_left ps s = (case strip_one ps s of None \<Rightarrow> s | Some t \<Rightarrow> trim_left ps t)"
  by pat_completeness auto
termination
  by (relation "measure (\<lambda>(ps, s). length s)") (auto dest: strip_one_shorter)

declare trim_left.simps [simp del]

definition trim_both :: "string list \<Rightarrow> string \<Rightarrow> string" where
  "trim_both ps s = rev (trim_left (map rev ps) (rev (trim_left ps s)))"

definition trim_space :: "string \<Rightarrow> string" where
  "trim_space s = trim_both space_seqs s"

text \<open>\<open>strings.Trim(s, cutset)\<close> for an ASCII cutset.\<close>

definition str_trim :: "string \<Rightarrow> string \<Rightarrow> string" where
  "str_trim s cutset = trim_both (map (\<lambda>c. [c]) cutset) s"

text \<open>\<open>strings.Split(s, sep)\<close> and \<open>strings.Cut(s, sep)\<close> for a one-character separator.\<close>

fun str_split :: "char \<Rightarrow> string \<Rightarrow> string list" where
  "str_split sep [] = [[]]"
| "str_split sep (c # cs) =
     (if c = sep then [] # str_split sep cs
      else case str_split sep cs of [] \<Rightarrow> [[c]] | p # ps \<Rightarrow> (c # p) # ps)"

fun str_cut_at :: "char \<Rightarrow> string \<Rightarrow> (string \<times> string) option" where
  "str_cut_at sep [] = None"
| "str_cut_at sep (c # cs) =
     (if c = sep then Some ([], cs)
      else case str_cut_at sep cs of None \<Rightarrow> None | Some (a, b) \<Rightarrow> Some (c # a, b))"

text \<open>Characters that start and end no space: printable ASCII other than the blank.\<close>

definition plain :: "char \<Rightarrow> bool" where
  "plain c \<longleftrightarrow> 32 < (of_char c :: nat) \<and> (of_char c :: nat) < 128"

lemma strip_one_None:
  "\<forall>p \<in> set ps. p \<noteq> [] \<longrightarrow> hd p \<noteq> c \<Longrightarrow> strip_one ps (c # s) = None"
proof (induction ps)
  case (Cons p ps)
  then show ?case by (cases p) auto
qed simp

lemma strip_one_Nil [simp]: "strip_one ps [] = None"
  by (induction ps) auto

lemma trim_left_Nil [simp]: "trim_left ps [] = []"
  by (subst trim_left.simps) simp

lemma space_seqs_plain:
  assumes "plain c" and "p \<in> set space_seqs"
  shows "p \<noteq> [] \<and> hd p \<noteq> c \<and> last p \<noteq> c"
proof -
  have "\<forall>p \<in> set space_seqs. p \<noteq> [] \<and> \<not> plain (hd p) \<and> \<not> plain (last p)" by code_simp
  with assms show ?thesis by blast
qed

lemma trim_both_id:
  assumes "\<And>p. p \<in> set ps \<Longrightarrow> p \<noteq> [] \<and> hd p \<noteq> hd s \<and> last p \<noteq> last s"
  shows "trim_both ps s = s"
proof (cases s)
  case (Cons c cs)
  have l: "trim_left ps s = s"
    using assms by (subst trim_left.simps) (simp add: Cons strip_one_None)
  obtain d ds where r: "rev s = d # ds" using Cons by (cases "rev s") auto
  then have d: "d = last s" by (metis hd_rev list.sel(1))
  have "strip_one (map rev ps) (rev s) = None"
    unfolding r by (rule strip_one_None) (use assms in \<open>auto simp: hd_rev d\<close>)
  then have "trim_left (map rev ps) (rev s) = rev s" by (subst trim_left.simps) simp
  with l show ?thesis by (simp add: trim_both_def)
qed (simp add: trim_both_def)

lemma trim_space_id: "s = [] \<or> plain (hd s) \<and> plain (last s) \<Longrightarrow> trim_space s = s"
proof -
  assume s: "s = [] \<or> plain (hd s) \<and> plain (last s)"
  show ?thesis
  proof (cases "s = []")
    case False
    with s show ?thesis unfolding trim_space_def
      using space_seqs_plain by (intro trim_both_id) blast
  qed (simp add: trim_space_def trim_both_def)
qed

lemma strip_one_space: "strip_one space_seqs (CHR '' '' # s) = Some s"
proof -
  have "space_seqs = [CHR '' ''] # tl space_seqs" by code_simp
  then show ?thesis
    by (metis append_Cons append_Nil drop_Suc_Cons drop0 length_Cons list.size(3) not_Cons_self2 strip_one.simps(2)
        take0 take_Suc_Cons)
qed

text \<open>One leading blank is dropped.\<close>

lemma trim_space_blank: "trim_space (CHR '' '' # s) = trim_space s"
  unfolding trim_space_def trim_both_def
  by (subst (1) trim_left.simps) (simp add: strip_one_space)

lemma str_split_no: "sep \<notin> set s \<Longrightarrow> str_split sep s = [s]"
  by (induction s) auto

lemma str_split_append: "sep \<notin> set a \<Longrightarrow> str_split sep (a @ sep # b) = a # str_split sep b"
  by (induction a) (auto split: list.splits)

lemma str_cut_at_append: "sep \<notin> set a \<Longrightarrow> str_cut_at sep (a @ sep # b) = Some (a, b)"
  by (induction a) auto

lemma str_cut_at_None: "str_cut_at sep s = None \<longleftrightarrow> sep \<notin> set s"
  by (induction s) (auto split: option.splits)

section \<open>Unsigned numbers and cut sets\<close>

text \<open>\<open>strconv.ParseUint(s, 10, bits)\<close>\<close>

definition parse_uint :: "nat \<Rightarrow> string \<Rightarrow> nat go" where
  "parse_uint bits s =
     (if s = [] \<or> \<not> list_all is_digit s then Err (Ext_error ''invalid syntax'')
      else if 2 ^ bits \<le> str_val s then Err (Ext_error ''value out of range'')
      else Ok (str_val s))"

lemma parse_uint_nat_str: "n < 2 ^ bits \<Longrightarrow> parse_uint bits (nat_str n) = Ok n"
  by (simp add: parse_uint_def nat_str_digits)

lemma strip_one_chars: "strip_one (map (\<lambda>c. [c]) cs) (d # s) = (if d \<in> set cs then Some s else None)"
  by (induction cs) auto

lemma trim_left_chars: "trim_left (map (\<lambda>c. [c]) cs) s = dropWhile (\<lambda>c. c \<in> set cs) s"
proof (induction s)
  case (Cons d s)
  then show ?case by (subst trim_left.simps) (simp add: strip_one_chars)
qed simp

lemma str_trim_eq:
  "str_trim s cs = rev (dropWhile (\<lambda>c. c \<in> set cs) (rev (dropWhile (\<lambda>c. c \<in> set cs) s)))"
proof -
  have "map rev (map (\<lambda>c. [c]) cs) = map (\<lambda>c. [c]) cs" by simp
  then show ?thesis by (simp only: str_trim_def trim_both_def trim_left_chars)
qed

lemma dropWhile_id: "xs = [] \<or> \<not> P (hd xs) \<Longrightarrow> dropWhile P xs = xs"
  by (cases xs) auto

lemma str_trim_id: "s = [] \<or> hd s \<notin> set cs \<and> last s \<notin> set cs \<Longrightarrow> str_trim s cs = s"
  by (auto simp: str_trim_eq dropWhile_id hd_rev)

lemma str_trim_wrapped:
  assumes "set a \<subseteq> set cs" "set b \<subseteq> set cs" "s \<noteq> []" "hd s \<notin> set cs" "last s \<notin> set cs"
  shows "str_trim (a @ s @ b) cs = s"
proof -
  let ?P = "\<lambda>c. c \<in> set cs"
  have "dropWhile ?P (a @ s @ b) = s @ b"
    using assms by (cases s) (auto simp: dropWhile_append subset_iff dropWhile_eq_Nil_conv)
  moreover have "dropWhile ?P (rev b @ rev s) = rev s"
    using assms by (cases "rev s") (auto simp: dropWhile_append subset_iff dropWhile_eq_Nil_conv hd_rev
        dest: arg_cong [of "rev s" _ hd])
  ultimately show ?thesis by (simp add: str_trim_eq)
qed

lemma digit_range: "is_digit c \<Longrightarrow> c \<notin> set ''', (){}=;:@/?&#%.''"
  by (auto simp: is_digit_def)

lemma nat_str_chars: "c \<in> set (nat_str n) \<Longrightarrow> is_digit c"
  using nat_str_digits [of n] by (simp add: list_all_iff)

end
