(* ===== verification/FixedString_Column.thy ===== *)
theory FixedString_Column
  imports Str_Column Go_Strings
begin

text \<open>
  \<open>FixedStringColumn\<close> of \<^verbatim>\<open>column/fixedstring.go\<close>: blocks of \<open>n\<close> bytes. Unlike every other
  column, its \<open>DecodeColumn\<close> appends to what the column holds.
\<close>

record fs_col =
  fs_name :: string
  fs_n :: int
  fs_data :: "byte list list"

definition new_fs_col :: "string \<Rightarrow> int \<Rightarrow> fs_col go" where
  "new_fs_col name n = (if n \<le> 0 then Panic ''column: NewFixedStringColumn: size <= 0''
     else Ok \<lparr> fs_name = name, fs_n = n, fs_data = [] \<rparr>)"

definition fs_type :: "ctypes \<Rightarrow> fs_col \<Rightarrow> string" where
  "fs_type C c = ct_with C (ct_name C CT_FixedString) [itoa (fs_n c)]"

definition fs_len :: "fs_col \<Rightarrow> nat" where
  [col_defs]: "fs_len c = length (fs_data c)"

definition fs_append :: "byte list \<Rightarrow> fs_col \<Rightarrow> fs_col go" where
  "fs_append v c =
     (if fs_n c \<le> int (length v)
      then go_bind (slice_expr v 0 (fs_n c)) (\<lambda>v. Ok (c\<lparr>fs_data := fs_data c @ [v]\<rparr>))
      else go_bind (go_make 1 (fs_n c) (fs_n c)) (\<lambda>_.
           Ok (c\<lparr>fs_data := fs_data c @ [v @ replicate (nat (fs_n c) - length v) 0]\<rparr>)))"

definition fs_append_arr :: "byte list list \<Rightarrow> fs_col \<Rightarrow> fs_col go" where
  "fs_append_arr vs c = go_fold fs_append vs c"

definition fs_row :: "fs_col \<Rightarrow> int \<Rightarrow> byte list go" where
  [col_defs]: "fs_row c i = idx (fs_data c) i"

definition fs_slice :: "fs_col \<Rightarrow> int \<Rightarrow> int \<Rightarrow> byte list list go" where
  [col_defs]: "fs_slice c lo hi = slice_expr (fs_data c) lo hi"

definition fs_reset :: "fs_col \<Rightarrow> fs_col" where
  [col_defs]: "fs_reset c = c\<lparr>fs_data := []\<rparr>"

fun fs_loop :: "'r preader \<Rightarrow> nat \<Rightarrow> fs_col \<Rightarrow> ('r, fs_col) rdm" where
  "fs_loop P 0 c = rret c"
| "fs_loop P (Suc k) c =
     rbind (rlift (go_make 1 (fs_n c) (fs_n c))) (\<lambda>_.
     rbind (rd_full P (nat (fs_n c))) (\<lambda>buf.
     fs_loop P k (c\<lparr>fs_data := fs_data c @ [buf]\<rparr>)))"

definition fs_decode :: "'r preader \<Rightarrow> fs_col \<Rightarrow> int \<Rightarrow> ('r, fs_col) rdm" where
  "fs_decode P c rows = fs_loop P (nat rows) c"

definition fs_encode :: "pbuffer \<Rightarrow> fs_col \<Rightarrow> byte list \<Rightarrow> byte list go" where
  "fs_encode B c b = Ok (foldl (@) b (fs_data c))"

definition fs_write :: "'w pwriter \<Rightarrow> pbuffer \<Rightarrow> fs_col \<Rightarrow> 'w \<Rightarrow> 'w" where
  "fs_write W B c w = chain_buffer W (\<lambda>b. foldl (@) b (fs_data c)) w"

definition fs_infer :: "ctypes \<Rightarrow> string \<Rightarrow> fs_col \<Rightarrow> fs_col go" where
  "fs_infer C t c =
     (let elem = ct_elem C t in
      if elem = [] then Err (Errorf ''fixedstring: no elements'')
      else go_bind (go_wrap ''fixedstring: parse size'' (atoi elem)) (\<lambda>n.
           if n \<le> 0 then Err (Errorf ''fixedstring: size <= 0'') else Ok (c\<lparr>fs_n := n\<rparr>)))"

definition fs_ops :: "('r, 'w, fs_col, byte list) of_ops" where
  "fs_ops = \<lparr> of_name = fs_name, of_type = fs_type, of_len = fs_len,
     of_append = fs_append, of_append_arr = fs_append_arr, of_row = fs_row, of_reset = fs_reset,
     of_decode = fs_decode, of_encode = fs_encode, of_write = fs_write,
     of_slice = Some fs_slice, of_infer = Some fs_infer \<rparr>"

section \<open>Contract\<close>

definition fs_inv :: "fs_col \<Rightarrow> bool" where
  "fs_inv c \<longleftrightarrow> 0 < fs_n c \<and> fs_n c \<le> maxAlloc \<and> (\<forall>v \<in> set (fs_data c). int (length v) = fs_n c)"

text \<open>What the column stores for \<open>v\<close>: its first \<open>n\<close> bytes, zero-padded.\<close>

definition fs_norm :: "fs_col \<Rightarrow> byte list \<Rightarrow> byte list" where
  "fs_norm c v = take (nat (fs_n c)) (v @ replicate (nat (fs_n c) - length v) 0)"

lemma fs_append_Ok:
  "0 < fs_n c \<Longrightarrow> fs_n c \<le> maxAlloc \<Longrightarrow> fs_append v c = Ok (c\<lparr>fs_data := fs_data c @ [fs_norm c v]\<rparr>)"
  by (auto simp: fs_append_def fs_norm_def slice_expr_def go_make_def)

lemma length_fs_norm: "0 < fs_n c \<Longrightarrow> int (length (fs_norm c v)) = fs_n c"
  by (simp add: fs_norm_def)

lemma fs_norm_update [simp]: "fs_norm (c\<lparr>fs_data := d\<rparr>) = fs_norm c"
  by (simp add: fs_norm_def fun_eq_iff)

lemma fs_norm_cong: "fs_n c1 = fs_n c2 \<Longrightarrow> fs_norm c1 = fs_norm c2"
  by (simp add: fs_norm_def fun_eq_iff)

lemma fs_append_arr_Ok:
  "0 < fs_n c \<Longrightarrow> fs_n c \<le> maxAlloc \<Longrightarrow>
    fs_append_arr vs c = Ok (c\<lparr>fs_data := fs_data c @ map (fs_norm c) vs\<rparr>)"
  unfolding fs_append_arr_def by (induction vs arbitrary: c) (simp_all add: fs_append_Ok)

lemma foldl_append_concat: "foldl (@) b xs = b @ concat xs"
  by (induction xs arbitrary: b) simp_all

lemma fs_loop_yields:
  assumes P: "reader_ok P pd" and n: "0 < fs_n c" "fs_n c \<le> maxAlloc"
  shows "\<forall>v \<in> set vs. int (length v) = fs_n c \<Longrightarrow>
    yields pd (fs_loop P (length vs) (c\<lparr>fs_data := d\<rparr>)) (concat vs) (c\<lparr>fs_data := d @ vs\<rparr>)"
proof (induction vs arbitrary: d)
  case (Cons v vs)
  have full: "yields pd (rd_full P (nat (fs_n c))) v v"
    using Cons.prems by (intro rd_full_yields [OF P]) auto
  from Cons.IH [of "d @ [v]"] Cons.prems show ?case
    using n by (auto simp: go_make_def intro!: yields_bind [OF full])
qed (simp add: yields_rret)

lemma fs_decode_yields:
  assumes P: "reader_ok P pd" and c: "fs_inv c" and n: "fs_n c0 = fs_n c"
  shows "yields pd (fs_decode P c0 (int (length (fs_data c)))) (concat (fs_data c))
    (c0\<lparr>fs_data := fs_data c0 @ fs_data c\<rparr>)"
  using fs_loop_yields [OF P, of c0 "fs_data c" "fs_data c0"] c n
  by (simp add: fs_decode_def fs_inv_def)

lemma length_fs_concat:
  assumes "fs_inv c" shows "length (fs_data c) \<le> length (concat (fs_data c))"
proof -
  have "\<forall>v \<in> set vs. 0 < length v \<Longrightarrow> length vs \<le> length (concat vs)" for vs :: "byte list list"
    by (induction vs) (auto simp: neq_Nil_conv)
  moreover have "\<forall>v \<in> set (fs_data c). 0 < length v"
    using assms by (fastforce simp: fs_inv_def)
  ultimately show ?thesis by blast
qed

interpretation fs_col: of_column_w "fs_ops :: ('r, 'w, fs_col, byte list) of_ops" fs_inv fs_data
    "\<lambda>c. concat (fs_data c)" "\<lambda>_ _. True" fs_norm "\<lambda>c0 c. fs_n c0 = fs_n c"
proof (unfold_locales, goal_cases)
  case (4 c t)
  then show ?case by (auto simp: fs_ops_def fs_inv_def fs_append_Ok length_fs_norm)
next
  case (5 c ts)
  then show ?case by (auto simp: fs_ops_def fs_inv_def fs_append_arr_Ok length_fs_norm)
next
  case (7 c c0 P pd)
  then show ?case
    using fs_decode_yields [of P pd c c0] by (auto simp: fs_ops_def fs_inv_def)
next
  case (14 c W out B w)
  then show ?case by (simp add: fs_ops_def fs_write_def out_chain_buffer foldl_append_concat)
qed (auto simp: fs_ops_def fs_encode_def col_defs slice_expr_in length_fs_concat foldl_append_concat fs_inv_def
    intro: fs_norm_cong)

section \<open>Properties\<close>

text \<open>
  C35. A FixedString(n) column stores each appended value truncated or zero-padded to \<open>n\<close> bytes,
  its wire image is the concatenation of the blocks, and decoding that image with the same \<open>n\<close>
  appends exactly these blocks to what the decoding column held (a decode into a column that
  was not reset keeps the old rows); truncated input is an error.
\<close>

theorem fs_roundtrip:
  assumes P: "reader_ok P pd" and B: "buffer_ok B" and W: "writer_ok W out"
    and new: "new_fs_col name n = Ok e" and n: "n \<le> maxAlloc" and c0: "fs_n c0 = n"
  shows "\<exists>c. fs_append_arr vs e = Ok c \<and>
    fs_data c = map (\<lambda>v. take (nat n) (v @ replicate (nat n - length v) 0)) vs \<and>
    fs_encode B c b = Ok (b @ concat (fs_data c)) \<and>
    out (fs_write W B c w) = out w @ concat (fs_data c) \<and>
    yields pd (fs_decode P c0 (int (fs_len c))) (concat (fs_data c)) (c0\<lparr>fs_data := fs_data c0 @ fs_data c\<rparr>)"
proof -
  have e: "fs_n e = n" "0 < n" "fs_data e = []" using new by (auto simp: new_fs_col_def split: if_splits)
  define c where "c = e\<lparr>fs_data := map (fs_norm e) vs\<rparr>"
  have c: "fs_append_arr vs e = Ok c" using e n by (simp add: fs_append_arr_Ok c_def)
  have inv: "fs_inv c" using e n by (auto simp: fs_inv_def c_def length_fs_norm)
  have "yields pd (fs_decode P c0 (int (fs_len c))) (concat (fs_data c)) (c0\<lparr>fs_data := fs_data c0 @ fs_data c\<rparr>)"
    using fs_decode_yields [OF P inv, of c0] c0 e by (simp add: fs_len_def c_def)
  with c e show ?thesis
    by (auto simp: fs_encode_def fs_write_def foldl_append_concat out_chain_buffer [OF W] c_def fs_norm_def)
qed

theorem fs_roundtrip_witness:
  "\<exists>c. fs_append_arr [[1], [2, 3, 4]] \<lparr>fs_name = ''f'', fs_n = 2, fs_data = []\<rparr> = Ok c \<and>
     fs_encode list_buffer c [9] = Ok [9, 1, 0, 2, 3]"
  using fs_roundtrip [OF list_reader_ok list_buffer_ok list_writer_ok,
      of "''f''" 2 "\<lparr>fs_name = ''f'', fs_n = 2, fs_data = []\<rparr>" "\<lparr>fs_name = ''f'', fs_n = 2, fs_data = []\<rparr>"
        "[[1], [2, 3, 4]]" "[9]" "[]"]
  by (auto simp: new_fs_col_def maxAlloc_def)

text \<open>
  \<open>Infer\<close> on the type a FixedString column reports configures any other column to the same
  size; it refuses a type without parameter, a parameter that is not a number, and sizes below 1,
  so a column never gets a size that is not positive.
\<close>

theorem fs_infer_type:
  assumes C: "ctypes_ok C" and n: "0 < fs_n c" "fs_n c < 2 ^ 63"
  shows "fs_infer C (fs_type C c) c0 = Ok (c0\<lparr>fs_n := fs_n c\<rparr>) \<and>
    fs_infer C (ct_name C CT_FixedString) c0 = Err (Errorf ''fixedstring: no elements'') \<and>
    fs_infer C (ct_with C (ct_name C CT_FixedString) [itoa (- fs_n c)]) c0 =
      Err (Errorf ''fixedstring: size <= 0'') \<and>
    (\<forall>t c'. fs_infer C t c0 = Ok c' \<longrightarrow> 0 < fs_n c' \<and> c' = c0\<lparr>fs_n := fs_n c'\<rparr>)"
proof (intro conjI allI impI)
  show "fs_infer C (fs_type C c) c0 = Ok (c0\<lparr>fs_n := fs_n c\<rparr>)"
    using n by (simp add: fs_infer_def fs_type_def ct_elem_with [OF C] atoi_itoa)
  show "fs_infer C (ct_name C CT_FixedString) c0 = Err (Errorf ''fixedstring: no elements'')"
    using C by (simp add: fs_infer_def ctypes_ok_def)
  show "fs_infer C (ct_with C (ct_name C CT_FixedString) [itoa (- fs_n c)]) c0 =
      Err (Errorf ''fixedstring: size <= 0'')"
    using n by (simp add: fs_infer_def ct_elem_with [OF C] atoi_itoa)
  fix t c' assume "fs_infer C t c0 = Ok c'"
  then have "0 < fs_n c' \<and> (\<exists>n. c' = c0\<lparr>fs_n := n\<rparr>)"
    by (auto simp: fs_infer_def Let_def go_bind_eq_Ok split: if_splits)
  then show "0 < fs_n c'" "c' = c0\<lparr>fs_n := fs_n c'\<rparr>" by auto
qed

theorem fs_infer_type_witness:
  "fs_infer list_ctypes ''FixedString(16)'' \<lparr>fs_name = ''f'', fs_n = 1, fs_data = []\<rparr> =
     Ok \<lparr>fs_name = ''f'', fs_n = 16, fs_data = []\<rparr>"
proof -
  have "fs_type list_ctypes \<lparr>fs_name = ''f'', fs_n = 16, fs_data = []\<rparr> = ''FixedString(16)''"
    by code_simp
  then show ?thesis
    using fs_infer_type [OF list_ctypes_ok, of "\<lparr>fs_name = ''f'', fs_n = 16, fs_data = []\<rparr>"
        "\<lparr>fs_name = ''f'', fs_n = 1, fs_data = []\<rparr>"] by simp
qed

end
