(* ===== verification/Offsets.thy ===== *)
theory Offsets
  imports Column_Iface
begin

text \<open>
  The offsets of Array and Map columns: \<open>encodeUVarInts\<close> and \<open>writeUVarInts\<close> of
  \<^verbatim>\<open>column/array.go\<close>, the loop both \<open>DecodeColumn\<close>s read them with, and how a list of offsets
  cuts the element column into rows. Offset \<open>i\<close> is the end of row \<open>i\<close>.
\<close>

section \<open>Reading and writing\<close>

fun encodeUVarInts :: "u64 list \<Rightarrow> byte list \<Rightarrow> byte list" where
  "encodeUVarInts [] b = b"
| "encodeUVarInts (v # vs) b = encodeUVarInts vs (b @ uvarint (unat v))"

text \<open>
  \<open>writeUVarInts\<close> hands slices of its one array \<open>buf\<close> to \<open>ChainWrite\<close>, which keeps them until the
  flush. The flush therefore sends, for each offset, as many bytes as its varint has, from the
  array as the last \<open>PutUvarint\<close> left it.
\<close>

definition put_uvarint_over :: "byte list \<Rightarrow> u64 \<Rightarrow> byte list" where
  "put_uvarint_over buf v = uvarint (unat v) @ drop (length (uvarint (unat v))) buf"

definition writeUVarInts :: "'w pwriter \<Rightarrow> u64 list \<Rightarrow> 'w \<Rightarrow> 'w" where
  "writeUVarInts W vs w =
     (let buf = foldl put_uvarint_over (replicate 10 0) vs
      in foldl (\<lambda>w v. chain_write W (take (length (uvarint (unat v))) buf) w) w vs)"

fun read_offsets :: "string \<Rightarrow> 'r preader \<Rightarrow> nat \<Rightarrow> u64 list \<Rightarrow> ('r, u64 list) rdm" where
  "read_offsets msg P 0 offs = rret offs"
| "read_offsets msg P (Suc k) offs =
     rbind (rwrap (Wrapf msg) (rd_uvarint P)) (\<lambda>v. read_offsets msg P k (offs @ [v]))"

text \<open>\<open>total := 0; if rows > 0 { total = int(c.Offsets[rows-1]) }\<close>\<close>

definition offs_total :: "u64 list \<Rightarrow> int" where
  "offs_total offs = (if offs = [] then 0 else sint (last offs))"

definition offs_image :: "u64 list \<Rightarrow> byte list" where
  "offs_image offs = concat (map (\<lambda>v. uvarint (unat v)) offs)"

lemma offs_image_simps [simp]:
  "offs_image [] = []"
  "offs_image (v # vs) = uvarint (unat v) @ offs_image vs"
  by (simp_all add: offs_image_def)

lemma encodeUVarInts_eq: "encodeUVarInts vs b = b @ offs_image vs"
  by (induction vs arbitrary: b) simp_all

lemma length_offs_image: "length offs \<le> length (offs_image offs)"
proof (induction offs)
  case (Cons v vs)
  then show ?case using length_uvarint_pos [of "unat v"] by simp
qed simp

lemma read_offsets_yields:
  assumes P: "reader_ok P pd"
  shows "yields pd (read_offsets msg P (length vs) offs) (offs_image vs) (offs @ vs)"
proof (induction vs arbitrary: offs)
  case (Cons v vs)
  from Cons.IH [of "offs @ [v]"] show ?case
    by (auto intro!: yields_bind yields_rwrap rd_uvarint_unat [OF P])
qed (simp add: yields_rret)

text \<open>What the shared array does to small offsets.\<close>

lemma uvarint_low: "v < 128 \<Longrightarrow> uvarint (unat (v :: u64)) = [ucast v]"
  by (simp add: word_less_nat_alt unsigned_ucast_eq word_unat_eq_iff unat_of_nat take_bit_eq_mod)

lemma offs_image_low: "\<forall>v \<in> set vs. v < 128 \<Longrightarrow> offs_image vs = map ucast vs"
  by (induction vs) (simp_all add: uvarint_low)

lemma put_low: "\<forall>v \<in> set vs. v < 128 \<Longrightarrow> vs \<noteq> [] \<Longrightarrow> \<exists>tl. foldl put_uvarint_over buf vs = ucast (last vs) # tl"
  by (induction vs rule: rev_induct) (simp_all add: put_uvarint_over_def uvarint_low)

lemma chain_low:
  assumes W: "writer_ok W out" and buf: "buf = b # bs"
  shows "\<forall>v \<in> set (vs :: u64 list). v < 128 \<Longrightarrow>
    out (foldl (\<lambda>w v. chain_write W (take (length (uvarint (unat v))) buf) w) w vs) = out w @ replicate (length vs) b"
proof (induction vs arbitrary: w)
  case (Cons v vs)
  then have "uvarint (unat v) = [ucast v]" by (intro uvarint_low) simp
  with Cons show ?case by (simp add: buf out_chain_write [OF W])
qed simp

lemma writeUVarInts_low:
  assumes W: "writer_ok W out" and vs: "\<forall>v \<in> set vs. v < 128"
  shows "out (writeUVarInts W vs w) = out w @ replicate (length vs) (ucast (last vs))"
proof (cases "vs = []")
  case False
  then show ?thesis
    using put_low [OF vs False, of "replicate 10 0"] chain_low [OF W _ vs]
    by (auto simp: writeUVarInts_def Let_def)
qed (simp add: writeUVarInts_def)

lemma ucast_low_inj: "v < 128 \<Longrightarrow> u < 128 \<Longrightarrow> (ucast (v :: u64) :: byte) = ucast u \<longleftrightarrow> v = u"
  by (simp add: word_unat_eq_iff unsigned_ucast_eq word_less_nat_alt take_bit_eq_mod)

lemma map_replicate_iff:
  "map f vs = replicate (length vs) b \<longleftrightarrow> (\<forall>v \<in> set vs. f v = b)"
  by (induction vs) auto

section \<open>Rows\<close>

fun offs_lens :: "u64 \<Rightarrow> u64 list \<Rightarrow> nat list" where
  "offs_lens p [] = []"
| "offs_lens p (v # vs) = unat (v - p) # offs_lens v vs"

fun chunk_by :: "nat list \<Rightarrow> 'a list \<Rightarrow> 'a list list" where
  "chunk_by [] xs = []"
| "chunk_by (n # ns) xs = take n xs # chunk_by ns (drop n xs)"

definition offs_rows :: "u64 list \<Rightarrow> 'a list \<Rightarrow> 'a list list" where
  "offs_rows offs xs = chunk_by (offs_lens 0 offs) xs"

text \<open>The offsets cut the \<open>n\<close> elements up completely.\<close>

definition offs_fit :: "u64 list \<Rightarrow> nat \<Rightarrow> bool" where
  "offs_fit offs n \<longleftrightarrow> sum_list (offs_lens 0 offs) = n"

lemma length_offs_lens [simp]: "length (offs_lens p offs) = length offs"
  by (induction offs arbitrary: p) simp_all

lemma length_chunk_by [simp]: "length (chunk_by ns xs) = length ns"
  by (induction ns arbitrary: xs) simp_all

lemma length_offs_rows [simp]: "length (offs_rows offs xs) = length offs"
  by (simp add: offs_rows_def)

lemma chunk_by_nth:
  "i < length ns \<Longrightarrow> chunk_by ns xs ! i = take (ns ! i) (drop (sum_list (take i ns)) xs)"
proof (induction ns arbitrary: i xs)
  case (Cons n ns)
  then show ?case by (cases i) (simp_all add: add.commute)
qed simp

lemma offs_nth:
  "i < length offs \<Longrightarrow> offs ! i = p + word_of_nat (sum_list (take (Suc i) (offs_lens p offs)))"
proof (induction offs arbitrary: i p)
  case (Cons v vs)
  then show ?case by (cases i) (simp_all add: add.assoc)
qed simp

lemma offs_last:
  assumes "offs \<noteq> []"
  shows "last offs = word_of_nat (sum_list (offs_lens 0 offs))"
proof -
  have "last offs = offs ! (length offs - 1)" using assms by (rule last_conv_nth)
  then show ?thesis using offs_nth [of "length offs - 1" offs 0] assms by simp
qed

lemma offs_lens_snoc:
  "offs_lens p (offs @ [v]) = offs_lens p offs @ [unat (v - (if offs = [] then p else last offs))]"
  by (induction offs arbitrary: p) simp_all

lemma chunk_by_snoc:
  "sum_list ns = length xs \<Longrightarrow> chunk_by (ns @ [length v]) (xs @ v) = chunk_by ns xs @ [v]"
proof (induction ns arbitrary: xs)
  case (Cons n ns)
  then have "n \<le> length xs" by (metis le_add1 sum_list.Cons)
  with Cons.prems Cons.IH [of "drop n xs"] show ?case by simp
qed simp

text \<open>Appending one row of \<open>v\<close>: the new offset is the element count afterwards.\<close>

lemma offs_append:
  assumes fit: "offs_fit offs (length xs)" and v: "length v < 2 ^ 63"
  shows "offs_rows (offs @ [word_of_nat (length xs) + word_of_nat (length v)]) (xs @ v) = offs_rows offs xs @ [v]"
    and "offs_fit (offs @ [word_of_nat (length xs) + word_of_nat (length v)]) (length (xs @ v))"
proof -
  have last: "(if offs = [] then 0 else last offs) = word_of_nat (length xs)"
    using fit offs_last [of offs] by (auto simp: offs_fit_def)
  have d: "unat (word_of_nat (length v) :: u64) = length v" using v by (simp add: unat_of_nat)
  show "offs_rows (offs @ [word_of_nat (length xs) + word_of_nat (length v)]) (xs @ v) = offs_rows offs xs @ [v]"
    "offs_fit (offs @ [word_of_nat (length xs) + word_of_nat (length v)]) (length (xs @ v))"
    using fit chunk_by_snoc [of "offs_lens 0 offs" xs v]
    by (simp_all add: offs_rows_def offs_fit_def offs_lens_snoc last d)
qed

text \<open>Which offsets the rows \<open>rs\<close> have: the running sums of their lengths.\<close>

fun end_offsets :: "u64 \<Rightarrow> 'a list list \<Rightarrow> u64 list" where
  "end_offsets p [] = []"
| "end_offsets p (r # rs) = (p + word_of_nat (length r)) # end_offsets (p + word_of_nat (length r)) rs"

lemma end_offsets_map [simp]: "end_offsets p (map (map f) rs) = end_offsets p rs"
  by (induction rs arbitrary: p) simp_all

lemma length_end_offsets [simp]: "length (end_offsets p rs) = length rs"
  by (induction rs arbitrary: p) simp_all

lemma chunk_by_concat:
  "sum_list ns = length xs \<Longrightarrow> concat (chunk_by ns xs) = xs \<and> map length (chunk_by ns xs) = ns"
proof (induction ns arbitrary: xs)
  case (Cons n ns)
  then have "n \<le> length xs" by (metis le_add1 sum_list.Cons)
  with Cons.prems Cons.IH [of "drop n xs"] show ?case by simp
qed simp

lemma end_offsets_lens: "map length rs = offs_lens p offs \<Longrightarrow> end_offsets p rs = offs"
proof (induction offs arbitrary: p rs)
  case (Cons v vs)
  then obtain r rs' where rs: "rs = r # rs'" "length r = unat (v - p)" "map length rs' = offs_lens v vs" by auto
  then have "p + word_of_nat (length r) = v" by simp
  with rs Cons.IH [of rs' v] show ?case by simp
qed simp

lemma offs_rows_inverse:
  assumes "offs_fit offs (length xs)" and "offs_rows offs xs = rs"
  shows "offs = end_offsets 0 rs" and "xs = concat rs"
  using chunk_by_concat [of "offs_lens 0 offs" xs] end_offsets_lens [of rs 0 offs] assms
  by (auto simp: offs_fit_def offs_rows_def)

text \<open>The bounds of row \<open>i\<close> that \<open>Row\<close> computes from the offsets.\<close>

definition offs_lo :: "u64 list \<Rightarrow> int \<Rightarrow> u64 go" where
  "offs_lo offs i = (if 0 < i then idx offs (i - 1) else Ok 0)"

lemma offs_bounds:
  assumes fit: "offs_fit offs (length xs)" and i: "i < length offs" and sm: "length xs < 2 ^ 40"
  shows "\<exists>lo hi. lo \<le> hi \<and> hi \<le> length xs \<and> offs_lo offs (int i) = Ok (word_of_nat lo) \<and>
    idx offs (int i) = Ok (word_of_nat hi) \<and> offs_rows offs xs ! i = take (hi - lo) (drop lo xs)"
proof (intro exI conjI)
  let ?ns = "offs_lens 0 offs"
  let ?lo = "sum_list (take i ?ns)" and ?hi = "sum_list (take (Suc i) ?ns)"
  have Suc: "?hi = ?lo + ?ns ! i" using i by (simp add: take_Suc_conv_app_nth)
  show "?lo \<le> ?hi" by (simp add: Suc)
  have "sum_list ?ns = ?hi + sum_list (drop (Suc i) ?ns)"
    by (metis append_take_drop_id sum_list_append)
  then show "?hi \<le> length xs" using fit by (simp add: offs_fit_def)
  show "offs_lo offs (int i) = Ok (word_of_nat ?lo)"
  proof (cases i)
    case (Suc j)
    then have "offs_lo offs (int i) = idx offs (int j)" by (simp add: offs_lo_def)
    then show ?thesis using i Suc offs_nth [of j offs 0] by simp
  qed (simp add: offs_lo_def)
  show "idx offs (int i) = Ok (word_of_nat ?hi)" using i offs_nth [of i offs 0] by simp
  show "offs_rows offs xs ! i = take (?hi - ?lo) (drop ?lo xs)"
    using i by (simp add: offs_rows_def chunk_by_nth Suc)
qed

lemma offs_total_eq:
  assumes "offs_fit offs n" and "n < 2 ^ 40"
  shows "offs_total offs = int n"
proof (cases "offs = []")
  case False
  then have "last offs = word_of_nat n" using offs_last assms(1) by (simp add: offs_fit_def)
  then show ?thesis
    using assms(2) False by (simp add: offs_total_def signed_of_nat signed_take_bit_int_eq_self)
qed (use assms in \<open>simp add: offs_total_def offs_fit_def\<close>)

lemma sint_small: "n < 2 ^ 40 \<Longrightarrow> sint (word_of_nat n :: u64) = int n"
  by (simp add: signed_of_nat signed_take_bit_int_eq_self)

lemma unat_small: "n < 2 ^ 40 \<Longrightarrow> unat (word_of_nat n :: u64) = n"
  by (simp add: unat_of_nat)

end
