(* ===== verification/Array_Column.thy ===== *)
theory Array_Column
  imports FixedString_Column Offsets
begin

text \<open>
  \<open>ArrayColumn[T]\<close> of \<^verbatim>\<open>column/array.go\<close>, over the method table \<open>I\<close> of its element column and
  the size \<open>sz\<close> of a \<open>T\<close> in memory. The contract lemmas live in a locale that assumes the
  contract of the element column; they make \<open>arr_ops\<close> an \<open>of_column\<close> again, so arrays nest.
\<close>

record 'c arr_col =
  ac_name :: string
  ac_offsets :: "u64 list"
  ac_elem :: 'c

definition new_arr_col :: "string \<Rightarrow> 'c \<Rightarrow> 'c arr_col" where
  "new_arr_col name elem = \<lparr> ac_name = name, ac_offsets = [], ac_elem = elem \<rparr>"

definition arr_type :: "('r, 'w, 'c, 't) of_ops \<Rightarrow> ctypes \<Rightarrow> 'c arr_col \<Rightarrow> string" where
  "arr_type I C c = ct_with C (ct_name C CT_Array) [of_type I C (ac_elem c)]"

definition arr_len :: "'c arr_col \<Rightarrow> nat" where
  "arr_len c = length (ac_offsets c)"

definition arr_reset :: "('r, 'w, 'c, 't) of_ops \<Rightarrow> 'c arr_col \<Rightarrow> 'c arr_col" where
  "arr_reset I c = c\<lparr>ac_offsets := [], ac_elem := of_reset I (ac_elem c)\<rparr>"

definition arr_append :: "('r, 'w, 'c, 't) of_ops \<Rightarrow> 't list \<Rightarrow> 'c arr_col \<Rightarrow> 'c arr_col go" where
  "arr_append I v c =
     (let prev = word_of_nat (of_len I (ac_elem c)) in
      go_bind (of_append_arr I v (ac_elem c)) (\<lambda>elem.
      Ok (c\<lparr>ac_elem := elem, ac_offsets := ac_offsets c @ [prev + word_of_nat (length v)]\<rparr>)))"

definition arr_append_arr :: "('r, 'w, 'c, 't) of_ops \<Rightarrow> 't list list \<Rightarrow> 'c arr_col \<Rightarrow> 'c arr_col go" where
  "arr_append_arr I v c = go_fold (arr_append I) v c"

definition arr_row :: "nat \<Rightarrow> ('r, 'w, 'c, 't) of_ops \<Rightarrow> 'c arr_col \<Rightarrow> int \<Rightarrow> 't list go" where
  "arr_row sz I c i =
     go_bind (offs_lo (ac_offsets c) i) (\<lambda>lo.
     go_bind (idx (ac_offsets c) i) (\<lambda>hi.
     case of_slice I of
       Some dataSlice \<Rightarrow> dataSlice (ac_elem c) (sint lo) (sint hi)
     | None \<Rightarrow>
         go_bind (go_make sz (int (unat (hi - lo))) (int (unat (hi - lo)))) (\<lambda>_.
         go_map (\<lambda>j. of_row I (ac_elem c) (wrap64 (sint lo + int j))) [0..<unat (hi - lo)])))"

definition arr_infer :: "('r, 'w, 'c, 't) of_ops \<Rightarrow> ctypes \<Rightarrow> string \<Rightarrow> 'c arr_col \<Rightarrow> 'c arr_col go" where
  "arr_infer I C t c =
     (if ct_base C t \<noteq> ct_name C CT_Array then Err (Errorf ''array: expected Array'')
      else case of_infer I of
        None \<Rightarrow> Err (Errorf ''array: element column does not support Infer'')
      | Some infer \<Rightarrow>
          go_bind (go_wrap ''array: infer element'' (infer C (ct_elem C t) (ac_elem c))) (\<lambda>elem.
          Ok (c\<lparr>ac_elem := elem\<rparr>)))"

definition arr_decode :: "('r, 'w, 'c, 't) of_ops \<Rightarrow> 'r preader \<Rightarrow> 'c arr_col \<Rightarrow> int \<Rightarrow> ('r, 'c arr_col) rdm" where
  "arr_decode I P c rows =
     rbind (read_offsets ''array: read offset'' P (nat rows) []) (\<lambda>offs.
     rbind (of_decode I P (ac_elem c) (offs_total offs)) (\<lambda>elem.
     rret (c\<lparr>ac_offsets := offs, ac_elem := elem\<rparr>)))"

definition arr_encode :: "('r, 'w, 'c, 't) of_ops \<Rightarrow> pbuffer \<Rightarrow> 'c arr_col \<Rightarrow> byte list \<Rightarrow> byte list go" where
  "arr_encode I B c b = of_encode I B (ac_elem c) (encodeUVarInts (ac_offsets c) b)"

definition arr_write :: "('r, 'w, 'c, 't) of_ops \<Rightarrow> 'w pwriter \<Rightarrow> pbuffer \<Rightarrow> 'c arr_col \<Rightarrow> 'w \<Rightarrow> 'w" where
  "arr_write I W B c w = of_write I W B (ac_elem c) (writeUVarInts W (ac_offsets c) w)"

definition arr_ops :: "nat \<Rightarrow> ('r, 'w, 'c, 't) of_ops \<Rightarrow> ('r, 'w, 'c arr_col, 't list) of_ops" where
  "arr_ops sz I = \<lparr> of_name = ac_name, of_type = arr_type I, of_len = arr_len,
     of_append = arr_append I, of_append_arr = arr_append_arr I, of_row = arr_row sz I,
     of_reset = arr_reset I, of_decode = arr_decode I, of_encode = arr_encode I,
     of_write = arr_write I, of_slice = None, of_infer = Some (arr_infer I) \<rparr>"

lemma new_arr_col_simps [simp]:
  "ac_offsets (new_arr_col n e) = []" "ac_elem (new_arr_col n e) = e"
  by (simp_all add: new_arr_col_def)

lemma arr_ops_simps [simp]:
  "of_len (arr_ops sz I) = arr_len"
  "of_append (arr_ops sz I) = arr_append I"
  "of_append_arr (arr_ops sz I) = arr_append_arr I"
  "of_row (arr_ops sz I) = arr_row sz I"
  "of_reset (arr_ops sz I) = arr_reset I"
  "of_decode (arr_ops sz I) = arr_decode I"
  "of_encode (arr_ops sz I) = arr_encode I"
  "of_write (arr_ops sz I) = arr_write I"
  "of_slice (arr_ops sz I) = None"
  by (simp_all add: arr_ops_def)

section \<open>Contract\<close>

text \<open>A Go value of type \<open>T\<close> is at most 256 bytes (the largest element type of the package has 32).\<close>

locale array_client = elem: of_column I inv rows wire acc norm like
  for sz :: nat and I :: "('r, 'w, 'c, 't) of_ops" and inv rows wire acc norm like +
  assumes sz: "sz \<le> 256"
begin

definition a_inv :: "'c arr_col \<Rightarrow> bool" where
  "a_inv c \<longleftrightarrow> inv (ac_elem c) \<and> offs_fit (ac_offsets c) (length (rows (ac_elem c)))"

definition a_rows :: "'c arr_col \<Rightarrow> 't list list" where
  "a_rows c = offs_rows (ac_offsets c) (rows (ac_elem c))"

definition a_wire :: "'c arr_col \<Rightarrow> byte list" where
  "a_wire c = offs_image (ac_offsets c) @ wire (ac_elem c)"

definition a_acc :: "'c arr_col \<Rightarrow> 't list \<Rightarrow> bool" where
  "a_acc c v \<longleftrightarrow> length v < 2 ^ 63 \<and> (\<forall>t \<in> set v. acc (ac_elem c) t)"

definition a_norm :: "'c arr_col \<Rightarrow> 't list \<Rightarrow> 't list" where
  "a_norm c = map (norm (ac_elem c))"

definition a_like :: "'c arr_col \<Rightarrow> 'c arr_col \<Rightarrow> bool" where
  "a_like c1 c2 \<longleftrightarrow> like (ac_elem c1) (ac_elem c2)"

lemma length_a_rows [simp]: "length (a_rows c) = length (ac_offsets c)"
  by (simp add: a_rows_def)

lemma a_append:
  assumes "a_inv c" and "a_acc c v"
  shows "\<exists>c'. arr_append I v c = Ok c' \<and> a_inv c' \<and> a_like c c' \<and> a_rows c' = a_rows c @ [a_norm c v]"
proof -
  obtain e where e: "of_append_arr I v (ac_elem c) = Ok e" "inv e" "like (ac_elem c) e"
    "rows e = rows (ac_elem c) @ map (norm (ac_elem c)) v"
    using assms elem.append_arr [of "ac_elem c" v] by (auto simp: a_inv_def a_acc_def)
  then show ?thesis
    using assms offs_append [of "ac_offsets c" "rows (ac_elem c)" "map (norm (ac_elem c)) v"]
    by (auto simp: arr_append_def a_inv_def a_rows_def a_like_def a_norm_def a_acc_def elem.len)
qed

lemma a_like_refl: "a_like c c"
  by (simp add: a_like_def elem.like_refl)

lemma a_like_trans: "a_like c1 c2 \<Longrightarrow> a_like c2 c3 \<Longrightarrow> a_like c1 c3"
  unfolding a_like_def by (rule elem.like_trans)

lemma a_like_norm: "a_like c1 c2 \<Longrightarrow> a_norm c1 = a_norm c2"
  by (simp add: a_like_def a_norm_def elem.like_norm [of "ac_elem c1" "ac_elem c2"])

lemma a_like_acc: "a_like c1 c2 \<Longrightarrow> a_acc c1 = a_acc c2"
  by (simp add: a_like_def a_acc_def fun_eq_iff elem.like_acc [of "ac_elem c1" "ac_elem c2"])

lemma a_append_arr:
  "a_inv c \<Longrightarrow> (\<And>v. v \<in> set vs \<Longrightarrow> a_acc c v) \<Longrightarrow>
    \<exists>c'. arr_append_arr I vs c = Ok c' \<and> a_inv c' \<and> a_like c c' \<and> a_rows c' = a_rows c @ map (a_norm c) vs"
proof (induction vs arbitrary: c)
  case (Cons v vs)
  obtain c1 where c1: "arr_append I v c = Ok c1" "a_inv c1" "a_like c c1" "a_rows c1 = a_rows c @ [a_norm c v]"
    using Cons.prems a_append [of c v] by auto
  with Cons.prems have "a_acc c1 u" if "u \<in> set vs" for u using that a_like_acc [of c c1] by simp
  from Cons.IH [OF c1(2) this] obtain c2 where "arr_append_arr I vs c1 = Ok c2" "a_inv c2" "a_like c1 c2"
    "a_rows c2 = a_rows c1 @ map (a_norm c1) vs" by blast
  with c1 show ?case
    by (auto simp: arr_append_arr_def a_like_norm [OF c1(3)] intro: a_like_trans)
qed (simp add: arr_append_arr_def a_like_refl)

lemma small_elem: "small (a_wire c) \<Longrightarrow> small (wire (ac_elem c))"
  by (simp add: a_wire_def)

lemma small_rows: "a_inv c \<Longrightarrow> small (a_wire c) \<Longrightarrow> length (rows (ac_elem c)) < 2 ^ 40"
  using elem.rows_wire [of "ac_elem c"] small_elem [of c] by (simp add: a_inv_def)

lemma a_row:
  assumes inv: "a_inv c" and sm: "small (a_wire c)" and i: "i < length (a_rows c)"
  shows "arr_row sz I c (int i) = Ok (a_rows c ! i)"
proof -
  let ?xs = "rows (ac_elem c)"
  have e: "inv (ac_elem c)" "offs_fit (ac_offsets c) (length ?xs)" using inv by (simp_all add: a_inv_def)
  note len = small_rows [OF inv sm]
  obtain lo hi where b: "lo \<le> hi" "hi \<le> length ?xs" "offs_lo (ac_offsets c) (int i) = Ok (word_of_nat lo)"
    "idx (ac_offsets c) (int i) = Ok (word_of_nat hi)" "a_rows c ! i = take (hi - lo) (drop lo ?xs)"
    using offs_bounds [OF e(2) _ len, of i] i by (auto simp: a_rows_def)
  have lh: "lo < 2 ^ 40" "hi < 2 ^ 40" "hi - lo < 2 ^ 40" using b(1,2) len by simp_all
  have "(word_of_nat hi - word_of_nat lo :: u64) = word_of_nat (hi - lo)"
    using b(1) by (simp add: of_nat_diff)
  then have d: "unat (word_of_nat hi - word_of_nat lo :: u64) = hi - lo"
    by (simp only: unat_small [OF lh(3)])
  have d': "uint (word_of_nat hi - word_of_nat lo :: u64) = int (hi - lo)"
    unfolding d [symmetric] by simp
  show ?thesis
  proof (cases "of_slice I")
    case (Some f)
    then show ?thesis
      using elem.slice [OF e(1) Some b(1,2)]
      by (simp add: arr_row_def b(3-5) sint_small [OF lh(1)] sint_small [OF lh(2)])
  next
    case None
    have "sz * (hi - lo) \<le> 256 * 2 ^ 40" using sz lh(3) by (intro mult_le_mono) simp_all
    then have "int (sz * (hi - lo)) \<le> int (256 * 2 ^ 40)" by (simp only: of_nat_le_iff)
    then have mk: "go_make sz (int (hi - lo)) (int (hi - lo)) = Ok ()"
      by (simp add: go_make_def maxAlloc_def del: of_nat_diff)
    have w: "wrap64 (int lo + int j) = int (lo + j)" if "j < hi - lo" for j
    proof -
      have "int (lo + j) < int (2 ^ 40)" using that lh(2) by (simp only: of_nat_less_iff)
      then show ?thesis by (simp add: wrap64_id)
    qed
    have "go_map (\<lambda>j. of_row I (ac_elem c) (int (lo + j))) [0..<hi - lo] = Ok (take (hi - lo) (drop lo ?xs))"
      by (rule elem.read_range [OF e(1) small_elem [OF sm] b(1,2)])
    moreover have "go_map (\<lambda>j. of_row I (ac_elem c) (wrap64 (int lo + int j))) [0..<hi - lo] =
        go_map (\<lambda>j. of_row I (ac_elem c) (int (lo + j))) [0..<hi - lo]"
      by (rule go_map_cong) (simp add: w)
    ultimately show ?thesis
      using None by (simp add: arr_row_def b(3-5) sint_small [OF lh(1)] d d' mk del: of_nat_diff)
  qed
qed

lemma a_decode:
  assumes "a_inv c" "a_inv c0" "a_rows c0 = []" "a_like c0 c" and P: "reader_ok P pd" and sm: "small (a_wire c)"
  shows "\<exists>c'. yields pd (arr_decode I P c0 (int (length (a_rows c)))) (a_wire c) c' \<and> a_inv c' \<and>
    a_rows c' = a_rows c \<and> a_wire c' = a_wire c \<and> a_like c0 c'"
proof -
  let ?n = "length (rows (ac_elem c))"
  have "ac_offsets c0 = []" using assms(3) length_a_rows [of c0] by simp
  then have "rows (ac_elem c0) = []" using assms(2) by (simp add: a_inv_def offs_fit_def)
  then obtain e where e: "yields pd (of_decode I P (ac_elem c0) (int ?n)) (wire (ac_elem c)) e" "inv e"
      "rows e = rows (ac_elem c)" "wire e = wire (ac_elem c)" "like (ac_elem c0) e"
    using elem.decode [of "ac_elem c" "ac_elem c0" P pd] assms small_elem [OF sm]
    by (auto simp: a_inv_def a_like_def)
  have t: "offs_total (ac_offsets c) = int ?n"
    using assms(1) small_rows [OF assms(1) sm] by (intro offs_total_eq) (simp_all add: a_inv_def)
  have "yields pd (arr_decode I P c0 (int (length (a_rows c)))) (a_wire c)
      (c0\<lparr>ac_offsets := ac_offsets c, ac_elem := e\<rparr>)"
    unfolding arr_decode_def a_wire_def
    by (rule yields_bind [where x = "ac_offsets c"])
      (use read_offsets_yields [OF P, of _ "ac_offsets c" "[]"] in \<open>auto simp: t intro: yields_bind_rret [OF e(1)]\<close>)
  with e assms(1) show ?thesis
    by (auto simp: a_inv_def a_rows_def a_wire_def a_like_def)
qed

end

sublocale array_client \<subseteq> arr: of_column "arr_ops sz I" a_inv a_rows a_wire a_acc a_norm a_like
proof (unfold_locales, goal_cases)
  case (3 c)
  then show ?case
    using elem.reset [of "ac_elem c"] by (simp add: arr_reset_def a_inv_def a_rows_def a_like_def offs_fit_def offs_rows_def)
next
  case (6 c B b)
  then show ?case
    by (simp add: arr_encode_def encodeUVarInts_eq a_inv_def a_wire_def elem.encode)
next
  case (7 c c0 P pd)
  then show ?case using a_decode [of c c0 P pd] by simp
next
  case (11 c1 c2 c3)
  then show ?case by (rule a_like_trans)
next
  case (9 c)
  then show ?case
    using elem.rows_wire [of "ac_elem c"] length_offs_image [of "ac_offsets c"] by (simp add: a_wire_def)
qed (simp_all add: arr_len_def a_row a_append a_append_arr a_like_refl a_like_acc a_like_norm)

interpretation u64_array: array_client 8 "base_ops uint64_t :: ('r, 'w, u64 data_col, u64) of_ops" "\<lambda>_. True" dc_data
    "\<lambda>c. data_image uint64_t (dc_data c)" "\<lambda>_ _. True" "\<lambda>_ x. x" "\<lambda>_ _. True"
  by unfold_locales simp

interpretation str_array: array_client 16 "str_ops :: ('r, 'w, str_col, string) of_ops" "\<lambda>_. True" sc_data
    "\<lambda>c. str_image (sc_data c)" "\<lambda>_ _. True" "\<lambda>_ v. v" "\<lambda>_ _. True"
  by unfold_locales simp

interpretation str_array2: array_client 24
    "arr_ops 16 str_ops :: ('r, 'w, str_col arr_col, string list) of_ops"
    str_array.a_inv str_array.a_rows str_array.a_wire str_array.a_acc str_array.a_norm str_array.a_like
  by unfold_locales simp

context array_client
begin

lemma a_new:
  assumes "inv e" and "rows e = []"
  shows "a_inv (new_arr_col n e)" and "a_rows (new_arr_col n e) = []"
  using assms by (simp_all add: a_inv_def a_rows_def offs_fit_def offs_rows_def)

lemma a_roundtrip:
  assumes e: "inv e" "rows e = []" and e0: "inv e0" "rows e0 = []" "like e0 e"
    and vs: "\<forall>v \<in> set vs. length v < 2 ^ 63 \<and> (\<forall>t \<in> set v. acc e t)"
    and P: "reader_ok P pd" and B: "buffer_ok B"
  shows "\<exists>c. arr_append_arr I vs (new_arr_col n e) = Ok c \<and> arr_len c = length vs \<and>
    ac_offsets c = end_offsets 0 vs \<and> rows (ac_elem c) = concat (map (map (norm e)) vs) \<and>
    (let bs = offs_image (ac_offsets c) @ wire (ac_elem c) in length bs < 2 ^ 40 \<longrightarrow>
      (\<forall>i < length vs. arr_row sz I c (int i) = Ok (map (norm e) (vs ! i))) \<and>
      (\<forall>b. arr_encode I B c b = Ok (b @ bs)) \<and>
      (\<exists>c'. yields pd (arr_decode I P (new_arr_col m e0) (int (length vs))) bs c' \<and> arr_len c' = length vs \<and>
        (\<forall>i < length vs. arr_row sz I c' (int i) = Ok (map (norm e) (vs ! i)))))"
proof -
  have "a_acc (new_arr_col n e) v" if "v \<in> set vs" for v
    using that vs by (auto simp: a_acc_def)
  then obtain c where c: "arr_append_arr I vs (new_arr_col n e) = Ok c" "a_inv c" "a_like (new_arr_col n e) c"
    "a_rows c = map (map (norm e)) vs"
    using a_append_arr [OF a_new(1) [OF e], of vs n] by (auto simp: a_new e a_norm_def)
  have len: "arr_len c = length vs" if "a_rows c = map (map (norm e)) vs" for c
    using arg_cong [OF that, of length] by (simp add: arr_len_def)
  have offs: "ac_offsets c = end_offsets 0 vs" "rows (ac_elem c) = concat (map (map (norm e)) vs)"
    using offs_rows_inverse [of "ac_offsets c" "rows (ac_elem c)"] c(2,4) by (simp_all add: a_inv_def a_rows_def)
  have row: "\<forall>i < length vs. arr_row sz I c (int i) = Ok (map (norm e) (vs ! i))"
    if "a_inv c" "a_rows c = map (map (norm e)) vs" "small (a_wire c)" for c
    using a_row [OF that(1,3)] that(2) by simp
  show ?thesis
    unfolding Let_def a_wire_def [symmetric]
  proof (rule exI [of _ c], intro conjI impI)
    assume sm: "length (a_wire c) < 2 ^ 40"
    show "\<forall>b. arr_encode I B c b = Ok (b @ a_wire c)" using arr.encode [OF c(2) B sm] by simp
    have "a_like (new_arr_col m e0) c" using e0 c(3) elem.like_trans by (auto simp: a_like_def)
    then obtain c' where "yields pd (arr_decode I P (new_arr_col m e0) (int (length (a_rows c)))) (a_wire c) c'"
      "a_inv c'" "a_rows c' = a_rows c" "a_wire c' = a_wire c"
      using a_decode [OF c(2) a_new [OF e0(1,2)] _ P sm] by blast
    then show "\<exists>c'. yields pd (arr_decode I P (new_arr_col m e0) (int (length vs))) (a_wire c) c' \<and> arr_len c' = length vs \<and>
        (\<forall>i < length vs. arr_row sz I c' (int i) = Ok (map (norm e) (vs ! i)))"
      using c(4) len [of c'] row [of c'] sm by auto
  qed (use c len row offs in auto)
qed

end

section \<open>Properties\<close>

text \<open>
  C3. An Array column over any element column that keeps the contract of \<open>Of[T]\<close>: after
  \<open>AppendArr\<close> of the rows \<open>vs\<close> to a fresh column, the offsets are the running sums of the lengths of
  the rows and the element column has their elements in order. The wire form is these offsets as
  varints before the wire form of the element column; as long as it is shorter than 2^40 bytes,
  \<open>Row(i)\<close> is row \<open>i\<close> (its elements as the element column stores them), \<open>EncodeColumn\<close> appends
  exactly the wire form, and a fresh column decodes it into the same rows; truncations are errors.
  The element column may itself be an Array.
\<close>

theorem arr_roundtrip:
  assumes E: "of_column I ok rows wire acc norm like" and sz: "sz \<le> 256"
    and e: "ok e" "rows e = []" and e0: "ok e0" "rows e0 = []" "like e0 e"
    and vs: "\<forall>v \<in> set vs. length v < 2 ^ 63 \<and> (\<forall>t \<in> set v. acc e t)"
    and P: "reader_ok P pd" and B: "buffer_ok B"
  shows "\<exists>c. arr_append_arr I vs (new_arr_col n e) = Ok c \<and> arr_len c = length vs \<and>
    ac_offsets c = end_offsets 0 vs \<and> rows (ac_elem c) = concat (map (map (norm e)) vs) \<and>
    (let bs = offs_image (ac_offsets c) @ wire (ac_elem c) in length bs < 2 ^ 40 \<longrightarrow>
      (\<forall>i < length vs. arr_row sz I c (int i) = Ok (map (norm e) (vs ! i))) \<and>
      (\<forall>b. arr_encode I B c b = Ok (b @ bs)) \<and>
      (\<exists>c'. yields pd (arr_decode I P (new_arr_col m e0) (int (length vs))) bs c' \<and> arr_len c' = length vs \<and>
        (\<forall>i < length vs. arr_row sz I c' (int i) = Ok (map (norm e) (vs ! i)))))"
proof -
  have "array_client sz I ok rows wire acc norm like"
    using E sz by (simp add: array_client_def array_client_axioms_def)
  from array_client.a_roundtrip [OF this e e0 vs P B] show ?thesis .
qed

text \<open>The witness is a column of arrays of arrays of strings.\<close>

theorem arr_roundtrip_witness:
  "\<exists>c c'. arr_append_arr (arr_ops 16 (str_ops :: (byte list, byte list, str_col, string) of_ops)) [[[''a''], []], []]
        (new_arr_col ''x'' (new_arr_col ''y'' (new_str_col ''z''))) = Ok c \<and>
     arr_row 24 (arr_ops 16 (str_ops :: (byte list, byte list, str_col, string) of_ops)) c 0 = Ok [[''a''], []] \<and>
     arr_encode (arr_ops 16 (str_ops :: (byte list, byte list, str_col, string) of_ops)) list_buffer c [] = Ok [2, 2, 1, 1, 1, 97] \<and>
     arr_decode (arr_ops 16 (str_ops :: (byte list, byte list, str_col, string) of_ops)) list_reader
        (new_arr_col ''w'' (new_arr_col ''y'' (new_str_col ''z''))) 2 [2, 2, 1, 1, 1, 97] = (Ok c', []) \<and>
     arr_row 24 (arr_ops 16 (str_ops :: (byte list, byte list, str_col, string) of_ops)) c' 0 = Ok [[''a''], []]"
proof -
  let ?e = "new_arr_col ''y'' (new_str_col ''z'')" and ?vs = "[[[''a''], []], []]"
  let ?I = "arr_ops 16 (str_ops :: (byte list, byte list, str_col, string) of_ops)"
  have e: "str_array.a_inv ?e" "str_array.a_rows ?e = []" "str_array.a_like ?e ?e"
    using str_array.a_new [of "new_str_col ''z''" "''y''"] by (simp_all add: new_str_col_def str_array.a_like_refl)
  have v: "\<forall>v \<in> set ?vs. length v < 2 ^ 63 \<and> (\<forall>t \<in> set v. str_array.a_acc ?e t)"
    by (simp add: str_array.a_acc_def)
  have n: "str_array.a_norm ?e = (\<lambda>v. v)" by (simp add: str_array.a_norm_def fun_eq_iff)
  have sz: "(24 :: nat) \<le> 256" by simp
  note R = arr_roundtrip [where e = ?e and ?e0.0 = ?e and vs = ?vs and P = list_reader and pd = id
      and B = list_buffer and sz = 24 and n = "''x''" and m = "''w''", OF str_array.arr.of_column_axioms sz e(1,2) e v list_reader_ok list_buffer_ok]
  from R obtain c where c: "arr_append_arr ?I ?vs (new_arr_col ''x'' ?e) = Ok c" "ac_offsets c = end_offsets 0 ?vs"
    and r: "let bs = offs_image (ac_offsets c) @ str_array.a_wire (ac_elem c) in length bs < 2 ^ 40 \<longrightarrow>
      (\<forall>i < length ?vs. arr_row 24 ?I c (int i) = Ok (map (str_array.a_norm ?e) (?vs ! i))) \<and>
      (\<forall>b. arr_encode ?I list_buffer c b = Ok (b @ bs)) \<and>
      (\<exists>c'. yields id (arr_decode ?I list_reader (new_arr_col ''w'' ?e) (int (length ?vs))) bs c' \<and> arr_len c' = length ?vs \<and>
        (\<forall>i < length ?vs. arr_row 24 ?I c' (int i) = Ok (map (str_array.a_norm ?e) (?vs ! i))))"
    by (elim exE conjE) (rule that)
  have "ac_elem c = ?e\<lparr>ac_offsets := [1, 1], ac_elem := (new_str_col ''z'')\<lparr>sc_data := [''a'']\<rparr>\<rparr>"
    using c(1) by (auto simp: arr_append_arr_def arr_append_def new_arr_col_def str_ops_def str_append_arr_def str_len_def arr_len_def new_str_col_def)
  then have w: "offs_image (ac_offsets c) @ str_array.a_wire (ac_elem c) = [2, 2, 1, 1, 1, 97]"
    by (simp add: c(2) str_array.a_wire_def str_bytes_def)
  from r obtain c' where
    c': "yields id (arr_decode ?I list_reader (new_arr_col ''w'' ?e) (int (length ?vs))) [2, 2, 1, 1, 1, 97] c'"
      "\<forall>i < length ?vs. arr_row 24 ?I c' (int i) = Ok (map (str_array.a_norm ?e) (?vs ! i))"
    and c0: "\<forall>i < length ?vs. arr_row 24 ?I c (int i) = Ok (map (str_array.a_norm ?e) (?vs ! i))"
      "\<forall>b. arr_encode ?I list_buffer c b = Ok (b @ [2, 2, 1, 1, 1, 97])"
    unfolding Let_def w by auto
  have "id [2, 2, 1, 1, 1, 97] = [2, 2, 1, 1, 1, 97 :: byte] @ []" by simp
  from yieldsD [OF c'(1) this]
  have "arr_decode ?I list_reader (new_arr_col ''w'' ?e) 2 [2, 2, 1, 1, 1, 97] = (Ok c', [])" by simp
  moreover have "arr_row 24 ?I c 0 = Ok [[''a''], []]" "arr_row 24 ?I c' 0 = Ok [[''a''], []]"
    using c0(1) [rule_format, of 0] c'(2) [rule_format, of 0] by (simp_all add: n)
  ultimately show ?thesis using c(1) c0(2) by (intro exI [of _ c] exI [of _ c']) simp
qed

text \<open>
  C33. \<open>WriteColumn\<close> of an Array column does not write the offsets \<open>EncodeColumn\<close> encodes: with
  offsets below 128 the flush repeats the last offset once per row, so the two agree only when
  all offsets are equal (at most one row, or only empty rows after the first).
\<close>

theorem arr_write_offsets:
  assumes E: "of_column_w I ok rows wire acc norm like" and W: "writer_ok W out" and B: "buffer_ok B"
    and c: "ok (ac_elem c)" "length (wire (ac_elem c)) < 2 ^ 40"
    and offs: "\<forall>v \<in> set (ac_offsets c). v < 128"
  shows "out (arr_write I W B c w) = out w @
      replicate (arr_len c) (ucast (last (ac_offsets c))) @ wire (ac_elem c) \<and>
    (arr_encode I B c (out w) = Ok (out (arr_write I W B c w)) \<longleftrightarrow>
      (\<forall>v \<in> set (ac_offsets c). v = last (ac_offsets c)))"
proof -
  note col = of_column_w.axioms(1) [OF E]
  have enc: "arr_encode I B c (out w) = Ok (out w @ map ucast (ac_offsets c) @ wire (ac_elem c))"
    using of_column.encode [OF col c(1) B] c(2) offs
    by (simp add: arr_encode_def encodeUVarInts_eq offs_image_low)
  have wr: "out (arr_write I W B c w) = out w @
      replicate (arr_len c) (ucast (last (ac_offsets c))) @ wire (ac_elem c)"
    using of_column_w.write_out [OF E c(1) W B] c(2)
    by (simp add: arr_write_def writeUVarInts_low [OF W offs] arr_len_def)
  have "(ucast v :: byte) = ucast (last (ac_offsets c)) \<longleftrightarrow> v = last (ac_offsets c)"
    if "v \<in> set (ac_offsets c)" for v
    using that offs last_in_set [of "ac_offsets c"] by (metis empty_iff list.set(1) ucast_low_inj)
  then show ?thesis
    by (auto simp: enc wr arr_len_def map_replicate_iff)
qed

theorem arr_write_offsets_witness:
  "arr_write u8_ops list_writer list_buffer
     \<lparr>ac_name = ''a'', ac_offsets = [1, 3], ac_elem = \<lparr>dc_name = [], dc_data = [7, 8, 9]\<rparr>\<rparr> [] = [3, 3, 7, 8, 9] \<and>
   arr_encode u8_ops list_buffer
     \<lparr>ac_name = ''a'', ac_offsets = [1, 3], ac_elem = \<lparr>dc_name = [], dc_data = [7, 8, 9]\<rparr>\<rparr> [] \<noteq> Ok [3, 3, 7, 8, 9]"
proof -
  let ?c = "\<lparr>ac_name = ''a'', ac_offsets = [1, 3], ac_elem = \<lparr>dc_name = [], dc_data = [7, 8, 9 :: byte]\<rparr>\<rparr>"
  have "\<forall>v \<in> set (ac_offsets ?c). v < 128" by simp
  note arr_write_offsets [OF uint8_col.col.of_column_w_axioms list_writer_ok list_buffer_ok _ _ this, of "[]"]
  then show ?thesis by (auto simp: arr_len_def word_layout_sel)
qed

text \<open>
  C34. Offsets from the wire, over a fixed-width element column: an offset of 2^63 or more (a
  negative \<open>int\<close>) is refused by the element column, but offsets that decrease are accepted, and
  \<open>Row\<close> of the row they describe panics.
\<close>

theorem arr_decode_offsets:
  assumes T: "base_layout T" and P: "reader_ok P pd"
  shows "(2 ^ 63 \<le> n \<longrightarrow> n < 2 ^ 64 \<longrightarrow>
      fails pd (arr_decode (base_ops T) P c 1) (uvarint n)
        (\<lambda>e. e = Wrapf ''decode column'' (Errorf ''non-positive multiplier''))) \<and>
    (length xs < m \<longrightarrow> m < 2 ^ 40 \<longrightarrow> length (data_image T xs) < 2 ^ 40 \<longrightarrow>
      (\<exists>c'. yields pd (arr_decode (base_ops T) P c 2) (uvarint m @ uvarint (length xs) @ data_image T xs) c' \<and>
        is_panic (arr_row sz (base_ops T) c' 1)))"
proof (intro conjI impI)
  assume n: "2 ^ 63 \<le> n" "n < 2 ^ 64"
  have u: "unat (word_of_nat n :: u64) = n" using n by (simp add: unat_of_nat)
  have "yields pd (read_offsets ''array: read offset'' P 1 []) (uvarint n) [word_of_nat n]"
    using read_offsets_yields [OF P, of "''array: read offset''" "[word_of_nat n]" "[]"] by (simp add: u)
  moreover have "sint (word_of_nat n :: u64) < 0" using n by (simp add: sint_u64)
  then have "fails pd (rbind (of_decode (base_ops T) P (ac_elem c) (offs_total [word_of_nat n])) k) []
      (\<lambda>e. e = Wrapf ''decode column'' (Errorf ''non-positive multiplier''))" for k
    by (simp add: base_ops_def base_decode_def offs_total_def safeMul_nonpos fails_def)
  ultimately show "fails pd (arr_decode (base_ops T) P c 1) (uvarint n)
      (\<lambda>e. e = Wrapf ''decode column'' (Errorf ''non-positive multiplier''))"
    using fails_bind [of pd _ "uvarint n" _ _ "[]"] by (fastforce simp: arr_decode_def)
next
  assume m: "length xs < m" "m < 2 ^ 40" and sm: "length (data_image T xs) < 2 ^ 40"
  let ?offs = "[word_of_nat m, word_of_nat (length xs)] :: u64 list"
  have l: "length xs < 2 ^ 40" using m by simp
  have r: "yields pd (read_offsets ''array: read offset'' P 2 []) (uvarint m @ uvarint (length xs)) ?offs"
    using read_offsets_yields [OF P, of "''array: read offset''" ?offs "[]"]
    by (simp add: unat_small [OF m(2)] unat_small [OF l] numeral_2_eq_2)
  have t: "offs_total ?offs = int (length xs)" by (simp add: offs_total_def sint_small [OF l])
  let ?c = "c\<lparr>ac_offsets := ?offs, ac_elem := (ac_elem c)\<lparr>dc_data := xs\<rparr>\<rparr>"
  have d: "yields pd (of_decode (base_ops T) P (ac_elem c) (offs_total ?offs)) (data_image T xs)
      ((ac_elem c)\<lparr>dc_data := xs\<rparr>)"
    using base_layout.base_decode_yields [OF T P sm] by (simp add: t base_ops_def)
  have "yields pd (arr_decode (base_ops T) P c 2) ((uvarint m @ uvarint (length xs)) @ data_image T xs) ?c"
    unfolding arr_decode_def
    by (rule yields_bind [where x = ?offs], simp add: r, rule yields_bind_rret [OF d])
  moreover have "is_panic (arr_row sz (base_ops T) ?c 1)"
    using m by (simp add: arr_row_def offs_lo_def idx_def base_ops_def dc_slice_def slice_expr_def
        sint_small [OF m(2)] sint_small [OF l])
  ultimately show "\<exists>c'. yields pd (arr_decode (base_ops T) P c 2) (uvarint m @ uvarint (length xs) @ data_image T xs) c' \<and>
      is_panic (arr_row sz (base_ops T) c' 1)"
    unfolding append_assoc by blast
qed

theorem arr_decode_offsets_witness:
  "\<exists>c' r'. arr_decode u8_ops list_reader (new_arr_col ''a'' (new_data_col [])) 2 [2, 1, 7] = (Ok c', r') \<and>
     is_panic (arr_row 1 u8_ops c' 1)"
proof -
  have T: "base_layout uint8_t" by (rule base_layout_word) simp_all
  from arr_decode_offsets [OF T list_reader_ok, of 0 "new_arr_col ''a'' (new_data_col [])" "[7]" 2 1]
  obtain c' where c': "yields id (arr_decode u8_ops list_reader (new_arr_col ''a'' (new_data_col [])) 2) [2, 1, 7] c'"
    "is_panic (arr_row 1 u8_ops c' 1)"
    by (auto simp: word_layout_sel)
  then show ?thesis using yieldsD [OF c'(1), of "[2, 1, 7]" "[]"] by auto
qed

end
