(* ===== verification/Nullable_Column.thy ===== *)
theory Nullable_Column
  imports Array_Column
begin

text \<open>
  \<open>Nullable[T]\<close> of \<^verbatim>\<open>column/nullable.go\<close>: an element column and a bitmap with one byte per row.
  \<open>DecodeColumn\<close> reads the bitmap into the memory of a \<open>[]bool\<close>; a byte other than 0 is taken as
  \<open>true\<close>. \<open>zero\<close> is Go's zero value of \<open>T\<close>.
\<close>

record 'c nul_col =
  nul_values :: 'c
  nul_nulls :: "bool list"

definition new_nul_col :: "'c \<Rightarrow> 'c nul_col" where
  "new_nul_col col = \<lparr> nul_values = col, nul_nulls = [] \<rparr>"

definition nul_name :: "('r, 'w, 'c, 't) of_ops \<Rightarrow> 'c nul_col \<Rightarrow> string" where
  "nul_name I c = of_name I (nul_values c)"

definition nul_type :: "('r, 'w, 'c, 't) of_ops \<Rightarrow> ctypes \<Rightarrow> 'c nul_col \<Rightarrow> string" where
  "nul_type I C c = ct_sub C (ct_name C CT_Nullable) [of_type I C (nul_values c)]"

definition nul_len :: "'c nul_col \<Rightarrow> nat" where
  "nul_len c = length (nul_nulls c)"

definition nul_append :: "'t \<Rightarrow> ('r, 'w, 'c, 't) of_ops \<Rightarrow> 't \<Rightarrow> bool \<Rightarrow> 'c nul_col \<Rightarrow> 'c nul_col go" where
  "nul_append zero I v isNull c =
     go_bind (of_append I (if isNull then zero else v) (nul_values c)) (\<lambda>vals.
     Ok (c\<lparr>nul_values := vals, nul_nulls := nul_nulls c @ [isNull]\<rparr>))"

definition nul_append_arr :: "'t \<Rightarrow> ('r, 'w, 'c, 't) of_ops \<Rightarrow> 't list \<Rightarrow> 'c nul_col \<Rightarrow> 'c nul_col go" where
  "nul_append_arr zero I vs c = go_fold (\<lambda>x. nul_append zero I x False) vs c"

definition nul_row :: "('r, 'w, 'c, 't) of_ops \<Rightarrow> 'c nul_col \<Rightarrow> int \<Rightarrow> ('t \<times> bool) go" where
  "nul_row I c i = go_bind (of_row I (nul_values c) i) (\<lambda>v. go_bind (idx (nul_nulls c) i) (\<lambda>b. Ok (v, b)))"

definition nul_decode :: "('r, 'w, 'c, 't) of_ops \<Rightarrow> 'r preader \<Rightarrow> 'c nul_col \<Rightarrow> int \<Rightarrow> ('r, 'c nul_col) rdm" where
  "nul_decode I P c rows =
     (if rows = 0
      then rbind (of_decode I P (nul_values c) 0) (\<lambda>vals. rret (c\<lparr>nul_values := vals, nul_nulls := []\<rparr>))
      else rbind (rlift (go_make 1 rows (wrap64 (rows * 2)))) (\<lambda>_.
           rbind (rd_full P (nat rows)) (\<lambda>buf.
           rbind (of_decode I P (nul_values c) rows) (\<lambda>vals.
           rret (c\<lparr>nul_values := vals, nul_nulls := map (\<lambda>b. b \<noteq> 0) buf\<rparr>)))))"

definition nul_bitmap :: "'c nul_col \<Rightarrow> byte list" where
  "nul_bitmap c = map (\<lambda>isNull. if isNull then 1 else 0) (nul_nulls c)"

definition nul_encode :: "('r, 'w, 'c, 't) of_ops \<Rightarrow> pbuffer \<Rightarrow> 'c nul_col \<Rightarrow> byte list \<Rightarrow> byte list go" where
  "nul_encode I B c b = of_encode I B (nul_values c) (foldl (\<lambda>b x. b @ [x]) b (nul_bitmap c))"

definition nul_write :: "('r, 'w, 'c, 't) of_ops \<Rightarrow> 'w pwriter \<Rightarrow> pbuffer \<Rightarrow> 'c nul_col \<Rightarrow> 'w \<Rightarrow> 'w" where
  "nul_write I W B c w =
     of_write I W B (nul_values c) (chain_buffer W (\<lambda>b. foldl (\<lambda>b x. b @ [x]) b (nul_bitmap c)) w)"

lemma foldl_snoc: "foldl (\<lambda>b x. b @ [x]) b xs = b @ xs"
  by (induction xs arbitrary: b) simp_all

lemma bitmap_inverse: "map (\<lambda>b. b \<noteq> 0) (map (\<lambda>x. if x then 1 else 0 :: byte) bs) = bs"
  by (induction bs) simp_all

section \<open>Contract\<close>

locale nullable_client = elem: of_column_w I inv rows wire acc norm like
  for zero :: 't and I :: "('r, 'w, 'c, 't) of_ops" and inv rows wire acc norm like
begin

definition n_inv :: "'c nul_col \<Rightarrow> bool" where
  "n_inv c \<longleftrightarrow> inv (nul_values c) \<and> length (nul_nulls c) = length (rows (nul_values c))"

definition n_rows :: "'c nul_col \<Rightarrow> ('t \<times> bool) list" where
  "n_rows c = zip (rows (nul_values c)) (nul_nulls c)"

definition n_wire :: "'c nul_col \<Rightarrow> byte list" where
  "n_wire c = nul_bitmap c @ wire (nul_values c)"

lemma n_append:
  assumes "n_inv c" and "acc (nul_values c) (if b then zero else v)"
  shows "\<exists>c'. nul_append zero I v b c = Ok c' \<and> n_inv c' \<and> like (nul_values c) (nul_values c') \<and>
    n_rows c' = n_rows c @ [(norm (nul_values c) (if b then zero else v), b)]"
  using assms elem.append [of "nul_values c" "if b then zero else v"]
  by (auto simp: nul_append_def n_inv_def n_rows_def simp del: if_split)

lemma n_row:
  assumes "n_inv c" "small (n_wire c)" "i < length (n_rows c)"
  shows "nul_row I c (int i) = Ok (n_rows c ! i)"
  using assms elem.row [of "nul_values c" i] by (simp add: nul_row_def n_rows_def n_inv_def n_wire_def)

lemma n_encode:
  "n_inv c \<Longrightarrow> buffer_ok B \<Longrightarrow> small (n_wire c) \<Longrightarrow> nul_encode I B c b = Ok (b @ n_wire c)"
  by (simp add: nul_encode_def n_wire_def n_inv_def foldl_snoc elem.encode)

lemma n_write:
  "n_inv c \<Longrightarrow> writer_ok W out \<Longrightarrow> buffer_ok B \<Longrightarrow> small (n_wire c) \<Longrightarrow>
    out (nul_write I W B c w) = out w @ n_wire c"
  by (simp add: nul_write_def n_wire_def n_inv_def foldl_snoc elem.write_out out_chain_buffer)

lemma n_decode:
  assumes inv: "n_inv c" and c0: "inv (nul_values c0)" "rows (nul_values c0) = []" "like (nul_values c0) (nul_values c)"
    and P: "reader_ok P pd" and sm: "small (n_wire c)"
  shows "\<exists>c'. yields pd (nul_decode I P c0 (int (nul_len c))) (n_wire c) c' \<and> n_inv c' \<and> n_rows c' = n_rows c \<and>
    n_wire c' = n_wire c"
proof -
  let ?n = "length (rows (nul_values c))"
  have l: "length (nul_nulls c) = ?n" and small: "small (wire (nul_values c))"
    using inv sm by (simp_all add: n_inv_def n_wire_def)
  obtain e where e: "yields pd (of_decode I P (nul_values c0) (int ?n)) (wire (nul_values c)) e" "inv e"
      "rows e = rows (nul_values c)" "wire e = wire (nul_values c)"
    using elem.decode [OF _ c0 P small] inv by (auto simp: n_inv_def)
  have "yields pd (nul_decode I P c0 (int (nul_len c))) (n_wire c) (c0\<lparr>nul_values := e, nul_nulls := nul_nulls c\<rparr>)"
  proof (cases "?n = 0")
    case True
    with l e(1) show ?thesis
      by (auto simp: nul_decode_def nul_len_def n_wire_def nul_bitmap_def intro: yields_bind_rret)
  next
    case False
    have "int ?n < int (2 ^ 40)"
      using sm l by (simp only: of_nat_less_iff) (simp add: n_wire_def nul_bitmap_def)
    then have mk: "go_make (Suc 0) (int ?n) (wrap64 (int ?n * 2)) = Ok ()"
      using go_make_double [of "int ?n" 1] by simp
    have bm: "yields pd (rd_full P ?n) (nul_bitmap c) (nul_bitmap c)"
      by (rule rd_full_yields [OF P]) (simp add: nul_bitmap_def l)
    have "map (\<lambda>b. b \<noteq> 0) (nul_bitmap c) = nul_nulls c" by (simp only: nul_bitmap_def bitmap_inverse)
    with False show ?thesis
      by (simp add: nul_decode_def nul_len_def l mk n_wire_def)
        (rule yields_bind [OF bm], simp, rule yields_bind_rret [OF e(1)])
  qed
  with e inv show ?thesis
    by (auto simp: n_inv_def n_rows_def n_wire_def nul_bitmap_def)
qed

lemma n_append_all:
  "n_inv c \<Longrightarrow> (\<And>v b. (v, b) \<in> set vs \<Longrightarrow> acc (nul_values c) (if b then zero else v)) \<Longrightarrow>
    \<exists>c'. go_fold (\<lambda>(v, b). nul_append zero I v b) vs c = Ok c' \<and> n_inv c' \<and>
      like (nul_values c) (nul_values c') \<and>
      n_rows c' = n_rows c @ map (\<lambda>(v, b). (norm (nul_values c) (if b then zero else v), b)) vs"
proof (induction vs arbitrary: c)
  case (Cons vb vs)
  obtain v b where vb: "vb = (v, b)" by force
  obtain c1 where c1: "nul_append zero I v b c = Ok c1" "n_inv c1" "like (nul_values c) (nul_values c1)"
    "n_rows c1 = n_rows c @ [(norm (nul_values c) (if b then zero else v), b)]"
    using n_append [OF Cons.prems(1), of b v] Cons.prems(2) [of v b] by (auto simp: vb simp del: if_split)
  have "acc (nul_values c1) (if b then zero else v)" if "(v, b) \<in> set vs" for v b
    using Cons.prems(2) [of v b] that elem.like_acc [OF c1(3)] by simp
  from Cons.IH [OF c1(2) this] obtain c2 where "go_fold (\<lambda>(v, b). nul_append zero I v b) vs c1 = Ok c2" "n_inv c2"
    "like (nul_values c1) (nul_values c2)"
    "n_rows c2 = n_rows c1 @ map (\<lambda>(v, b). (norm (nul_values c1) (if b then zero else v), b)) vs" by blast
  with c1 elem.like_trans [OF c1(3)] show ?case
    by (auto simp: vb elem.like_norm [OF c1(3)] simp del: if_split)
qed (simp add: elem.like_refl)

end

interpretation u64_nullable: nullable_client 0 "base_ops uint64_t :: ('r, 'w, u64 data_col, u64) of_ops" "\<lambda>_. True" dc_data
    "\<lambda>c. data_image uint64_t (dc_data c)" "\<lambda>_ _. True" "\<lambda>_ x. x" "\<lambda>_ _. True"
  by unfold_locales

interpretation str_nullable: nullable_client "[]" "str_ops :: ('r, 'w, str_col, string) of_ops" "\<lambda>_. True" sc_data
    "\<lambda>c. str_image (sc_data c)" "\<lambda>_ _. True" "\<lambda>_ v. v" "\<lambda>_ _. True"
  by unfold_locales

section \<open>Properties\<close>

text \<open>
  C16. A Nullable column over any element column that keeps the contract of \<open>Of[T]\<close>: after the
  values \<open>vs\<close> with their null flags are appended to a fresh column, \<open>Row(i)\<close> gives back the value
  (the zero value of \<open>T\<close> for a null) and the flag, \<open>EncodeColumn\<close> and \<open>WriteColumn\<close> produce the
  same bytes, the bitmap before the values, and decoding them into a fresh column gives the same
  rows; truncations are errors.
\<close>

theorem nul_roundtrip:
  assumes E: "of_column_w I ok rows wire acc norm like"
    and e: "ok e" "rows e = []" and e0: "ok e0" "rows e0 = []" "like e0 e"
    and vs: "\<forall>(v, b) \<in> set vs. acc e (if b then zero else v)"
    and P: "reader_ok P pd" and B: "buffer_ok B" and W: "writer_ok W out"
  shows "\<exists>c bs. go_fold (\<lambda>(v, b). nul_append zero I v b) vs (new_nul_col e) = Ok c \<and>
    bs = map (\<lambda>(v, b). if b then 1 else 0) vs @ wire (nul_values c) \<and>
    (length bs < 2 ^ 40 \<longrightarrow>
      (\<forall>i < length vs. nul_row I c (int i) = Ok (case vs ! i of (v, b) \<Rightarrow> (norm e (if b then zero else v), b))) \<and>
      (\<forall>b. nul_encode I B c b = Ok (b @ bs)) \<and> (\<forall>w. out (nul_write I W B c w) = out w @ bs) \<and>
      (\<exists>c'. yields pd (nul_decode I P (new_nul_col e0) (int (length vs))) bs c' \<and>
        (\<forall>i < length vs. nul_row I c' (int i) = nul_row I c (int i))))"
proof -
  have N: "nullable_client I ok rows wire acc norm like"
    using E by (simp add: nullable_client_def)
  note defs = nullable_client.n_inv_def [OF N] nullable_client.n_rows_def [OF N] nullable_client.n_wire_def [OF N]
  obtain c where c: "go_fold (\<lambda>(v, b). nul_append zero I v b) vs (new_nul_col e) = Ok c"
    "nullable_client.n_inv ok rows c" "like e (nul_values c)"
    "nullable_client.n_rows rows c = map (\<lambda>(v, b). (norm e (if b then zero else v), b)) vs"
    using nullable_client.n_append_all [OF N, of "new_nul_col e" vs zero] e vs
    by (auto simp: new_nul_col_def defs)
  have nulls: "nul_nulls c = map snd vs"
    using arg_cong [OF c(4), of "map snd"] c(2) by (simp add: defs comp_def case_prod_beta)
  let ?bs = "map (\<lambda>(v, b). if b then 1 else 0) vs @ wire (nul_values c)"
  have wire: "nullable_client.n_wire wire c = ?bs"
    by (simp add: defs nul_bitmap_def nulls comp_def case_prod_beta)
  have len: "nul_len c = length vs" by (simp add: nul_len_def nulls)
  have lr: "length (nullable_client.n_rows rows c) = length vs" by (simp add: c(4))
  show ?thesis
  proof (rule exI [of _ c], rule exI [of _ ?bs], intro conjI impI)
    assume sm: "length ?bs < 2 ^ 40"
    then have sm': "length (nullable_client.n_wire wire c) < 2 ^ 40" by (simp only: wire)
    show "\<forall>i < length vs. nul_row I c (int i) = Ok (case vs ! i of (v, b) \<Rightarrow> (norm e (if b then zero else v), b))"
      using nullable_client.n_row [OF N c(2) sm'] by (simp add: c(4))
    show "\<forall>b. nul_encode I B c b = Ok (b @ ?bs)" using nullable_client.n_encode [OF N c(2) B sm', unfolded wire] by blast
    show "\<forall>w. out (nul_write I W B c w) = out w @ ?bs"
      using nullable_client.n_write [OF N c(2) W B sm', unfolded wire] by blast
    have "like e0 (nul_values c)"
      using of_column.like_trans [OF of_column_w.axioms(1) [OF E]] e0(3) c(3) by blast
    then obtain c' where "yields pd (nul_decode I P (new_nul_col e0) (int (nul_len c))) ?bs c'"
      "nullable_client.n_inv ok rows c'" "nullable_client.n_rows rows c' = nullable_client.n_rows rows c"
      "nullable_client.n_wire wire c' = ?bs"
      using nullable_client.n_decode [OF N c(2), of "new_nul_col e0" P pd] e0 P sm'
      by (auto simp: new_nul_col_def wire)
    with sm sm' c(2) show "\<exists>c'. yields pd (nul_decode I P (new_nul_col e0) (int (length vs))) ?bs c' \<and>
        (\<forall>i < length vs. nul_row I c' (int i) = nul_row I c (int i))"
      using nullable_client.n_row [OF N, of c'] nullable_client.n_row [OF N c(2) sm']
      by (intro exI [of _ c'] conjI) (simp_all add: len lr)
  qed (use c in auto)
qed

theorem nul_roundtrip_witness:
  "\<exists>c. go_fold (\<lambda>(v, b). nul_append 0 u8_ops v b) [(7, False), (9, True)] (new_nul_col (new_data_col [])) = Ok c \<and>
     nul_encode u8_ops list_buffer c [] = Ok [0, 1, 7, 0] \<and> nul_row u8_ops c 1 = Ok (0, True)"
proof -
  have "\<forall>(v, b) \<in> set [(7, False), (9, True)]. True" by simp
  note nul_roundtrip [OF uint8_col.col.of_column_w_axioms _ _ _ _ _ this list_reader_ok list_buffer_ok list_writer_ok,
      of "new_data_col []" "new_data_col []" 0]
  then obtain c bs where c: "go_fold (\<lambda>(v, b). nul_append 0 u8_ops v b) [(7, False), (9, True)] (new_nul_col (new_data_col [])) = Ok c"
    and bs: "bs = [0, 1] @ data_image uint8_t (dc_data (nul_values c))"
    and rest: "length bs < 2 ^ 40 \<longrightarrow> (\<forall>i < 2. nul_row u8_ops c (int i) =
        Ok (case [(7, False), (9, True)] ! i of (v, b) \<Rightarrow> (if b then 0 else v, b))) \<and>
      (\<forall>b. nul_encode u8_ops list_buffer c b = Ok (b @ bs))"
    by (auto simp: new_data_col_def simp del: go_fold.simps)
  have "dc_data (nul_values c) = [7, 0]"
    using c by (auto simp: nul_append_def base_ops_def dc_append_def new_nul_col_def new_data_col_def)
  with bs have "bs = [0, 1, 7, 0]" by (simp add: word_layout_sel)
  with c rest show ?thesis by (intro exI [of _ c]) (auto dest: spec [of _ 1])
qed

end
