(* ===== verification/Tuple_Column.thy ===== *)
theory Tuple_Column
  imports Nullable_Column
begin

text \<open>
  \<open>Tuple2\<close> to \<open>Tuple12\<close> of \<^verbatim>\<open>column/tuple_gen.go\<close>, the output of the template in
  \<^verbatim>\<open>column/gen/main.go\<close>: for each \<open>N\<close> a struct with the fields \<open>Field1\<close> to \<open>FieldN\<close> whose methods
  go through the fields in order. The model is the template: a tuple column is the list of its
  fields, a \<open>TupleNValue\<close> the list of its components. The fields are interface values of
  different dynamic types; \<open>sum_ops\<close> is the method call on such a value, which dispatches on its
  dynamic type.
\<close>

section \<open>Dynamic dispatch\<close>

fun sum_append :: "('r, 'w, 'c, 't) of_ops \<Rightarrow> ('r, 'w, 'd, 'u) of_ops \<Rightarrow> 't + 'u \<Rightarrow> 'c + 'd \<Rightarrow> ('c + 'd) go" where
  "sum_append I J (Inl v) (Inl c) = go_bind (of_append I v c) (\<lambda>c. Ok (Inl c))"
| "sum_append I J (Inr v) (Inr c) = go_bind (of_append J v c) (\<lambda>c. Ok (Inr c))"
| "sum_append I J _ _ = Panic ''static type error''"

definition sum_ops :: "('r, 'w, 'c, 't) of_ops \<Rightarrow> ('r, 'w, 'd, 'u) of_ops \<Rightarrow> ('r, 'w, 'c + 'd, 't + 'u) of_ops" where
  "sum_ops I J = \<lparr>
     of_name = case_sum (of_name I) (of_name J),
     of_type = (\<lambda>C. case_sum (of_type I C) (of_type J C)),
     of_len = case_sum (of_len I) (of_len J),
     of_append = sum_append I J,
     of_append_arr = go_fold (sum_append I J),
     of_row = (\<lambda>c i. case c of Inl c \<Rightarrow> go_bind (of_row I c i) (\<lambda>v. Ok (Inl v))
                           | Inr c \<Rightarrow> go_bind (of_row J c i) (\<lambda>v. Ok (Inr v))),
     of_reset = map_sum (of_reset I) (of_reset J),
     of_decode = (\<lambda>P c rows. case c of
         Inl c \<Rightarrow> rbind (of_decode I P c rows) (\<lambda>c. rret (Inl c))
       | Inr c \<Rightarrow> rbind (of_decode J P c rows) (\<lambda>c. rret (Inr c))),
     of_encode = (\<lambda>B. case_sum (of_encode I B) (of_encode J B)),
     of_write = (\<lambda>W B. case_sum (of_write I W B) (of_write J W B)),
     of_slice = None, of_infer = None \<rparr>"

definition sum_inv :: "('c \<Rightarrow> bool) \<Rightarrow> ('d \<Rightarrow> bool) \<Rightarrow> 'c + 'd \<Rightarrow> bool" where
  "sum_inv = case_sum"

fun sum_rows :: "('c \<Rightarrow> 't list) \<Rightarrow> ('d \<Rightarrow> 'u list) \<Rightarrow> 'c + 'd \<Rightarrow> ('t + 'u) list" where
  "sum_rows f g (Inl c) = map Inl (f c)"
| "sum_rows f g (Inr c) = map Inr (g c)"

fun sum_acc :: "('c \<Rightarrow> 't \<Rightarrow> bool) \<Rightarrow> ('d \<Rightarrow> 'u \<Rightarrow> bool) \<Rightarrow> 'c + 'd \<Rightarrow> 't + 'u \<Rightarrow> bool" where
  "sum_acc f g (Inl c) (Inl v) = f c v"
| "sum_acc f g (Inr c) (Inr v) = g c v"
| "sum_acc f g _ _ = False"

definition sum_norm :: "('c \<Rightarrow> 't \<Rightarrow> 't) \<Rightarrow> ('d \<Rightarrow> 'u \<Rightarrow> 'u) \<Rightarrow> 'c + 'd \<Rightarrow> 't + 'u \<Rightarrow> 't + 'u" where
  "sum_norm f g = case_sum (\<lambda>c. map_sum (f c) id) (\<lambda>c. map_sum id (g c))"

fun sum_like :: "('c \<Rightarrow> 'c \<Rightarrow> bool) \<Rightarrow> ('d \<Rightarrow> 'd \<Rightarrow> bool) \<Rightarrow> 'c + 'd \<Rightarrow> 'c + 'd \<Rightarrow> bool" where
  "sum_like f g (Inl c) (Inl d) = f c d"
| "sum_like f g (Inr c) (Inr d) = g c d"
| "sum_like f g _ _ = False"

lemma sum_ops_simps [simp]:
  "of_append (sum_ops I J) = sum_append I J"
  "of_append_arr (sum_ops I J) = go_fold (sum_append I J)"
  "of_len (sum_ops I J) = case_sum (of_len I) (of_len J)"
  "of_slice (sum_ops I J) = None"
  "of_reset (sum_ops I J) = map_sum (of_reset I) (of_reset J)"
  "of_encode (sum_ops I J) B = case_sum (of_encode I B) (of_encode J B)"
  "of_write (sum_ops I J) W B = case_sum (of_write I W B) (of_write J W B)"
  by (simp_all add: sum_ops_def)

text \<open>A column behind an interface keeps the contract if the columns of both dynamic types do.\<close>

locale two_columns =
  a: of_column_w I inv rows wire acc norm like +
  b: of_column_w J inv2 rows2 wire2 acc2 norm2 like2
  for I :: "('r, 'w, 'c, 't) of_ops" and inv rows wire acc norm like
    and J :: "('r, 'w, 'd, 'u) of_ops" and inv2 rows2 wire2 acc2 norm2 like2
begin

abbreviation "s_inv \<equiv> sum_inv inv inv2"
abbreviation "s_rows \<equiv> sum_rows rows rows2"
abbreviation "s_wire \<equiv> case_sum wire wire2 :: _ \<Rightarrow> byte list"
abbreviation "s_acc \<equiv> sum_acc acc acc2"
abbreviation "s_norm \<equiv> sum_norm norm norm2"
abbreviation "s_like \<equiv> sum_like like like2"

lemma s_like_trans: "s_like c1 c2 \<Longrightarrow> s_like c2 c3 \<Longrightarrow> s_like c1 c3"
  by (cases c1; cases c2; cases c3) (auto intro: a.like_trans b.like_trans)

lemma s_like_acc: "s_like c1 c2 \<Longrightarrow> s_acc c1 = s_acc c2"
  by (cases c1; cases c2) (auto simp: fun_eq_iff split_sum_all dest: a.like_acc b.like_acc)

lemma s_like_norm: "s_like c1 c2 \<Longrightarrow> s_norm c1 = s_norm c2"
  by (cases c1; cases c2) (auto simp: sum_norm_def dest: a.like_norm b.like_norm)

lemma s_like_refl: "s_like c c"
  by (cases c) (auto simp: a.like_refl b.like_refl)

lemma s_append:
  assumes "s_inv c" and "s_acc c v"
  shows "\<exists>c'. sum_append I J v c = Ok c' \<and> s_inv c' \<and> s_like c c' \<and> s_rows c' = s_rows c @ [s_norm c v]"
proof (cases c)
  case (Inl d)
  with assms obtain u where "v = Inl u" "acc d u" "inv d" by (cases v) (auto simp: sum_inv_def)
  with Inl a.append [of d u] show ?thesis by (auto simp: sum_inv_def sum_norm_def)
next
  case (Inr d)
  with assms obtain u where "v = Inr u" "acc2 d u" "inv2 d" by (cases v) (auto simp: sum_inv_def)
  with Inr b.append [of d u] show ?thesis by (auto simp: sum_inv_def sum_norm_def)
qed

lemma s_append_arr:
  "s_inv c \<Longrightarrow> (\<And>v. v \<in> set vs \<Longrightarrow> s_acc c v) \<Longrightarrow>
    \<exists>c'. go_fold (sum_append I J) vs c = Ok c' \<and> s_inv c' \<and> s_like c c' \<and> s_rows c' = s_rows c @ map (s_norm c) vs"
proof (induction vs arbitrary: c)
  case (Cons v vs)
  obtain c1 where c1: "sum_append I J v c = Ok c1" "s_inv c1" "s_like c c1" "s_rows c1 = s_rows c @ [s_norm c v]"
    using s_append [of c v] Cons.prems by auto
  have "s_acc c1 u" if "u \<in> set vs" for u
    using that Cons.prems(2) s_like_acc [OF c1(3)] by simp
  from Cons.IH [OF c1(2) this] obtain c2 where "go_fold (sum_append I J) vs c1 = Ok c2" "s_inv c2" "s_like c1 c2"
    "s_rows c2 = s_rows c1 @ map (s_norm c1) vs" by blast
  with c1 s_like_norm [OF c1(3)] s_like_trans [OF c1(3)] show ?case by auto
qed (simp add: s_like_refl)

lemma s_decode:
  assumes "s_inv c" "s_inv c0" "s_rows c0 = []" "s_like c0 c" "reader_ok P pd" "small (s_wire c)"
  shows "\<exists>c'. yields pd (of_decode (sum_ops I J) P c0 (int (length (s_rows c)))) (s_wire c) c' \<and> s_inv c' \<and>
    s_rows c' = s_rows c \<and> s_wire c' = s_wire c \<and> s_like c0 c'"
proof (cases c)
  case (Inl d)
  with assms obtain d0 where "c0 = Inl d0" by (cases c0) auto
  with Inl assms a.decode [of d d0 P pd] show ?thesis
    by (auto simp: sum_ops_def sum_inv_def intro: yields_bind_rret)
next
  case (Inr d)
  with assms obtain d0 where "c0 = Inr d0" by (cases c0) auto
  with Inr assms b.decode [of d d0 P pd] show ?thesis
    by (auto simp: sum_ops_def sum_inv_def intro: yields_bind_rret)
qed

end

sublocale two_columns \<subseteq> dispatch: of_column_w "sum_ops I J" s_inv s_rows s_wire s_acc s_norm s_like
proof (unfold_locales, goal_cases)
  case (1 c)
  then show ?case by (cases c) (auto simp: sum_inv_def a.len b.len)
next
  case (2 c i)
  then show ?case by (cases c) (auto simp: sum_ops_def sum_inv_def a.row b.row)
next
  case (3 c)
  then show ?case using a.reset b.reset by (cases c) (auto simp: sum_inv_def)
next
  case (6 c B b)
  then show ?case by (cases c) (auto simp: sum_inv_def a.encode b.encode)
next
  case (7 c c0 P pd)
  then show ?case using s_decode [of c c0 P pd] by simp
next
  case (9 c)
  then show ?case by (cases c) (auto simp: sum_inv_def a.rows_wire b.rows_wire)
next
  case (11 c1 c2 c3)
  then show ?case by (rule s_like_trans)
next
  case (14 c W out B w)
  then show ?case by (cases c) (auto simp: sum_inv_def a.write_out b.write_out)
qed (auto simp: s_append s_append_arr s_like_refl s_like_acc s_like_norm)

interpretation u8_or_str: two_columns "base_ops uint8_t :: ('r, 'w, byte data_col, byte) of_ops" "\<lambda>_. True" dc_data
    "\<lambda>c. data_image uint8_t (dc_data c)" "\<lambda>_ _. True" "\<lambda>_ x. x" "\<lambda>_ _. True"
    "str_ops :: ('r, 'w, str_col, string) of_ops" "\<lambda>_. True" sc_data
    "\<lambda>c. str_image (sc_data c)" "\<lambda>_ _. True" "\<lambda>_ v. v" "\<lambda>_ _. True"
  by unfold_locales

section \<open>Tuples\<close>

text \<open>The number of fields is fixed by the Go type; it is the length of the list.\<close>

definition new_tuple :: "'c list \<Rightarrow> 'c list" where
  "new_tuple cols = cols"

definition tup_len :: "('r, 'w, 'c, 't) of_ops \<Rightarrow> 'c list \<Rightarrow> nat" where
  "tup_len I t = of_len I (hd t)"

definition tup_type :: "('r, 'w, 'c, 't) of_ops \<Rightarrow> ctypes \<Rightarrow> 'c list \<Rightarrow> string" where
  "tup_type I C t = ct_sub C (ct_name C CT_Tuple) (map (of_type I C) t)"

fun tup_append :: "('r, 'w, 'c, 't) of_ops \<Rightarrow> 't list \<Rightarrow> 'c list \<Rightarrow> 'c list go" where
  "tup_append I (v # vs) (f # fs) =
     go_bind (of_append I v f) (\<lambda>f. go_bind (tup_append I vs fs) (\<lambda>fs. Ok (f # fs)))"
| "tup_append I _ fs = Ok fs"

definition tup_append_arr :: "('r, 'w, 'c, 't) of_ops \<Rightarrow> 't list list \<Rightarrow> 'c list \<Rightarrow> 'c list go" where
  "tup_append_arr I vs t = go_fold (tup_append I) vs t"

definition tup_row :: "('r, 'w, 'c, 't) of_ops \<Rightarrow> 'c list \<Rightarrow> int \<Rightarrow> 't list go" where
  "tup_row I t i = go_map (\<lambda>f. of_row I f i) t"

fun tup_decode :: "('r, 'w, 'c, 't) of_ops \<Rightarrow> 'r preader \<Rightarrow> 'c list \<Rightarrow> int \<Rightarrow> ('r, 'c list) rdm" where
  "tup_decode I P [] rows = rret []"
| "tup_decode I P (f # fs) rows =
     rbind (of_decode I P f rows) (\<lambda>f. rbind (tup_decode I P fs rows) (\<lambda>fs. rret (f # fs)))"

definition tup_encode :: "('r, 'w, 'c, 't) of_ops \<Rightarrow> pbuffer \<Rightarrow> 'c list \<Rightarrow> byte list \<Rightarrow> byte list go" where
  "tup_encode I B t b = go_fold (of_encode I B) t b"

context of_column
begin

text \<open>All fields have the same number of rows.\<close>

definition t_inv :: "nat \<Rightarrow> 'c list \<Rightarrow> bool" where
  "t_inv n t \<longleftrightarrow> (\<forall>f \<in> set t. inv f \<and> length (rows f) = n)"

definition t_row :: "'c list \<Rightarrow> nat \<Rightarrow> 't list" where
  "t_row t i = map (\<lambda>f. rows f ! i) t"

abbreviation "t_wire t \<equiv> concat (map wire t)"

lemma t_inv_simps [simp]: "t_inv n []" "t_inv n (f # fs) \<longleftrightarrow> inv f \<and> length (rows f) = n \<and> t_inv n fs"
  by (auto simp: t_inv_def)

lemma t_append:
  "t_inv n t \<Longrightarrow> list_all2 acc t vs \<Longrightarrow>
    \<exists>t'. tup_append I vs t = Ok t' \<and> t_inv (Suc n) t' \<and> list_all2 like t t' \<and>
      map rows t' = map2 (\<lambda>f v. rows f @ [norm f v]) t vs"
proof (induction t arbitrary: vs)
  case (Cons f fs)
  then obtain v us where vs: "vs = v # us" "acc f v" "list_all2 acc fs us" by (cases vs) auto
  obtain f' where f': "of_append I v f = Ok f'" "inv f'" "like f f'" "rows f' = rows f @ [norm f v]"
    using append [of f v] Cons.prems vs by auto
  obtain fs' where "tup_append I us fs = Ok fs'" "t_inv (Suc n) fs'" "list_all2 like fs fs'"
    "map rows fs' = map2 (\<lambda>f v. rows f @ [norm f v]) fs us"
    using Cons.IH [of us] Cons.prems vs by auto
  with f' vs Cons.prems show ?case by simp
qed simp

lemma t_encode:
  "t_inv n t \<Longrightarrow> buffer_ok B \<Longrightarrow> small (t_wire t) \<Longrightarrow> tup_encode I B t b = Ok (b @ t_wire t)"
  unfolding tup_encode_def by (induction t arbitrary: b) (simp_all add: encode)

lemma t_row_Ok:
  "t_inv n t \<Longrightarrow> small (t_wire t) \<Longrightarrow> i < n \<Longrightarrow> tup_row I t (int i) = Ok (t_row t i)"
  unfolding tup_row_def t_row_def by (induction t) (simp_all add: row)

lemma t_decode:
  assumes P: "reader_ok P pd"
  shows "t_inv n t \<Longrightarrow> t_inv 0 t0 \<Longrightarrow> list_all2 like t0 t \<Longrightarrow> small (t_wire t) \<Longrightarrow>
    \<exists>t'. yields pd (tup_decode I P t0 (int n)) (t_wire t) t' \<and> t_inv n t' \<and> map rows t' = map rows t \<and>
      map wire t' = map wire t"
proof (induction t arbitrary: t0)
  case (Cons f fs)
  then obtain f0 fs0 where t0: "t0 = f0 # fs0" "inv f0" "rows f0 = []" "like f0 f" "t_inv 0 fs0" "list_all2 like fs0 fs"
    by (cases t0) auto
  obtain f' where f': "yields pd (of_decode I P f0 (int n)) (wire f) f'" "inv f'" "rows f' = rows f" "wire f' = wire f"
    using decode [of f f0 P pd] Cons.prems t0 P by auto
  obtain fs' where fs': "yields pd (tup_decode I P fs0 (int n)) (t_wire fs) fs'" "t_inv n fs'" "map rows fs' = map rows fs"
    "map wire fs' = map wire fs"
    using Cons.IH [of fs0] Cons.prems t0 by auto
  have "yields pd (tup_decode I P t0 (int n)) (wire f @ t_wire fs) (f' # fs')"
    by (simp add: t0) (rule yields_bind [OF f'(1)], rule yields_bind_rret [OF fs'(1)])
  with f' fs' Cons.prems show ?case by (auto intro!: exI [of _ "f' # fs'"])
qed (auto intro: yields_rret)

lemma t_append_arr:
  "t_inv n t \<Longrightarrow> (\<And>v. v \<in> set vs \<Longrightarrow> list_all2 acc t v) \<Longrightarrow>
    \<exists>t'. tup_append_arr I vs t = Ok t' \<and> t_inv (n + length vs) t' \<and> list_all2 like t t' \<and>
      (\<forall>j < length t. rows (t' ! j) = rows (t ! j) @ map (\<lambda>v. norm (t ! j) (v ! j)) vs)"
proof (induction vs arbitrary: t n)
  case Nil
  then show ?case
    by (auto simp: tup_append_arr_def list_all2_conv_all_nth like_refl)
next
  case (Cons v vs)
  obtain t1 where t1: "tup_append I v t = Ok t1" "t_inv (Suc n) t1" "list_all2 like t t1"
    "map rows t1 = map2 (\<lambda>f v. rows f @ [norm f v]) t v"
    using t_append [of n t v] Cons.prems by auto
  note l = list_all2_lengthD [OF t1(3)]
  have lv: "length v = length t" using Cons.prems(2) [of v] by (simp add: list_all2_lengthD)
  have lk: "like (t ! j) (t1 ! j)" if "j < length t" for j using t1(3) that by (rule list_all2_nthD)
  have r1: "rows (t1 ! j) = rows (t ! j) @ [norm (t ! j) (v ! j)]" if "j < length t" for j
    using arg_cong [OF t1(4), of "\<lambda>l. l ! j"] that l lv by simp
  have acc1: "list_all2 acc t1 u" if "u \<in> set vs" for u
    using Cons.prems(2) [of u] that l like_acc [OF lk] by (auto simp: list_all2_conv_all_nth)
  from Cons.IH [OF t1(2) acc1] obtain t2 where t2: "tup_append_arr I vs t1 = Ok t2" "t_inv (Suc n + length vs) t2"
    "list_all2 like t1 t2" "\<forall>j < length t1. rows (t2 ! j) = rows (t1 ! j) @ map (\<lambda>v. norm (t1 ! j) (v ! j)) vs" by blast
  have "list_all2 like t t2"
    by (rule list_all2_trans [OF _ t1(3) t2(3)]) (rule like_trans)
  with t1(1) t2 l show ?case
    by (auto simp: tup_append_arr_def r1 like_norm [OF lk, symmetric])
qed

end

section \<open>Properties\<close>

text \<open>
  C17. A tuple over fields that keep the contract of \<open>Of[T]\<close>: after \<open>AppendArr\<close> of the values
  \<open>vs\<close> to fresh fields, \<open>Len\<close> is their number and \<open>Row(i)\<close> has component \<open>j\<close> from field \<open>j\<close>;
  \<open>EncodeColumn\<close> writes the fields one after the other, and decoding that into fresh fields gives
  a tuple with the same rows; truncations are errors.
\<close>

theorem tup_roundtrip:
  assumes E: "of_column I ok rows wire acc norm like"
    and t: "\<forall>f \<in> set t. ok f \<and> rows f = []" "t \<noteq> []"
    and t0: "\<forall>f \<in> set t0. ok f \<and> rows f = []" "list_all2 like t0 t"
    and vs: "\<forall>v \<in> set vs. list_all2 acc t v"
    and P: "reader_ok P pd" and B: "buffer_ok B"
  shows "\<exists>t1 bs. tup_append_arr I vs (new_tuple t) = Ok t1 \<and> tup_len I t1 = length vs \<and>
    bs = concat (map wire t1) \<and>
    (length bs < 2 ^ 40 \<longrightarrow>
      (\<forall>i < length vs. tup_row I t1 (int i) = Ok (map2 norm t (vs ! i))) \<and>
      (\<forall>b. tup_encode I B t1 b = Ok (b @ bs)) \<and>
      (\<exists>t2. yields pd (tup_decode I P t0 (int (length vs))) bs t2 \<and>
        (\<forall>i < length vs. tup_row I t2 (int i) = tup_row I t1 (int i))))"
proof -
  note t_inv = of_column.t_inv_def [OF E]
  have "of_column.t_inv ok rows 0 t" using t by (simp add: t_inv)
  from of_column.t_append_arr [OF E this, of vs] vs obtain t1 where
    t1: "tup_append_arr I vs t = Ok t1" "of_column.t_inv ok rows (length vs) t1" "list_all2 like t t1"
      "\<forall>j < length t. rows (t1 ! j) = rows (t ! j) @ map (\<lambda>v. norm (t ! j) (v ! j)) vs" by auto
  have l: "length t1 = length t" using t1(3) by (simp add: list_all2_lengthD)
  have ne: "t1 \<noteq> []" using l t(2) by auto
  then have len: "tup_len I t1 = length vs"
    using t1(2) of_column.len [OF E, of "hd t1"] by (cases t1) (auto simp: tup_len_def t_inv)
  have r: "of_column.t_row rows t1 i = map2 norm t (vs ! i)" if "i < length vs" for i
  proof -
    have "length (vs ! i) = length t" using vs nth_mem [OF that] by (metis list_all2_lengthD)
    then show ?thesis
      using that l t1(4) t(1) by (auto simp: of_column.t_row_def [OF E] intro!: nth_equalityI)
  qed
  show ?thesis
  proof (rule exI [of _ t1], rule exI [of _ "concat (map wire t1)"], intro conjI impI)
    assume sm: "length (concat (map wire t1)) < 2 ^ 40"
    note row = of_column.t_row_Ok [OF E t1(2) sm]
    show "\<forall>i < length vs. tup_row I t1 (int i) = Ok (map2 norm t (vs ! i))" using row r by simp
    show "\<forall>b. tup_encode I B t1 b = Ok (b @ concat (map wire t1))"
      using of_column.t_encode [OF E t1(2) B sm] by simp
    have "list_all2 like t0 t1"
      by (rule list_all2_trans [OF _ t0(2) t1(3)]) (rule of_column.like_trans [OF E])
    then obtain t2 where t2: "yields pd (tup_decode I P t0 (int (length vs))) (concat (map wire t1)) t2"
      "of_column.t_inv ok rows (length vs) t2" "map rows t2 = map rows t1" "map wire t2 = map wire t1"
      using of_column.t_decode [OF E P t1(2), of t0] t0 sm by (auto simp: t_inv)
    have "of_column.t_row rows t2 i = of_column.t_row rows t1 i" for i
      using arg_cong [OF t2(3), of "map (\<lambda>r. r ! i)"] by (simp add: of_column.t_row_def [OF E] comp_def)
    with t2 row of_column.t_row_Ok [OF E t2(2)] sm
    show "\<exists>t2. yields pd (tup_decode I P t0 (int (length vs))) (concat (map wire t1)) t2 \<and>
        (\<forall>i < length vs. tup_row I t2 (int i) = tup_row I t1 (int i))"
      by (intro exI [of _ t2]) simp
  qed (simp_all add: t1(1) new_tuple_def len)
qed

theorem tup_roundtrip_witness:
  "\<exists>t. tup_append_arr (sum_ops u8_ops str_ops) [[Inl 7, Inr ''ab''], [Inl 9, Inr []]]
        (new_tuple [Inl (new_data_col ''n''), Inr (new_str_col ''s'')]) = Ok t \<and>
     tup_len (sum_ops u8_ops str_ops) t = Suc (Suc 0) \<and>
     tup_encode (sum_ops u8_ops str_ops) list_buffer t [] = Ok [7, 9, 2, 97, 98, 0]"
proof -
  let ?t = "[Inl (new_data_col ''n''), Inr (new_str_col ''s'')]"
  have f: "\<forall>f \<in> set ?t. u8_or_str.s_inv f \<and> u8_or_str.s_rows f = []"
    by (simp add: new_data_col_def new_str_col_def sum_inv_def)
  have l: "list_all2 u8_or_str.s_like ?t ?t" by simp
  have v: "\<forall>v \<in> set [[Inl 7, Inr ''ab''], [Inl 9, Inr []]]. list_all2 u8_or_str.s_acc ?t v" by simp
  note r = tup_roundtrip [OF u8_or_str.dispatch.of_column_axioms f _ f l v list_reader_ok list_buffer_ok]
  obtain t bs where t: "tup_append_arr (sum_ops u8_ops str_ops) [[Inl 7, Inr ''ab''], [Inl 9, Inr []]] (new_tuple ?t) = Ok t"
    and len: "tup_len (sum_ops u8_ops str_ops) t = Suc (Suc 0)"
    and bs: "bs = concat (map u8_or_str.s_wire t)"
    and e: "length bs < 2 ^ 40 \<longrightarrow> (\<forall>b. tup_encode (sum_ops u8_ops str_ops) list_buffer t b = Ok (b @ bs))"
    using r by auto
  have "t = [Inl (new_data_col ''n''\<lparr>dc_data := [7, 9]\<rparr>), Inr (new_str_col ''s''\<lparr>sc_data := [''ab'', []]\<rparr>)]"
    using t by (simp add: tup_append_arr_def new_tuple_def base_ops_def str_ops_def dc_append_def str_append_def
        new_data_col_def new_str_col_def)
  with bs have "bs = [7, 9, 2, 97, 98, 0]" by (simp add: word_layout_sel str_bytes_def)
  with t len e show ?thesis by auto
qed

end
