(* ===== verification/Map_Column.thy ===== *)
theory Map_Column
  imports Tuple_Column
begin

text \<open>
  \<open>MapColumn[K, V]\<close> of \<^verbatim>\<open>column/map.go\<close>: offsets like an Array's over a key and a value column,
  which are nil until \<open>Infer\<close> creates them from the parameters of the ClickHouse type. The type
  parser and the table \<open>newColumnOf\<close> of the Go types are modelled as well.
\<close>

section \<open>Type parameters\<close>

fun split_depth :: "char \<Rightarrow> int \<Rightarrow> string \<Rightarrow> string \<times> string" where
  "split_depth sep depth [] = ([], [])"
| "split_depth sep depth (r # rs) =
     (if r = CHR ''('' then map_prod (Cons r) id (split_depth sep (depth + 1) rs)
      else if r = CHR '')'' then map_prod (Cons r) id (split_depth sep (depth - 1) rs)
      else if r = sep \<and> depth = 0 then ([], rs)
      else map_prod (Cons r) id (split_depth sep depth rs))"

definition splitAtDepth0 :: "string \<Rightarrow> char \<Rightarrow> string \<times> string" where
  "splitAtDepth0 s sep = split_depth sep 0 s"

definition parseMapTypes :: "ctypes \<Rightarrow> string \<Rightarrow> (string \<times> string) go" where
  "parseMapTypes C t =
     (let inner = ct_elem C t in
      if inner = [] then Err (Errorf ''empty Map type parameters'')
      else let (keyStr, valStr) = splitAtDepth0 inner (CHR '','');
               key = trim_space keyStr; val = trim_space valStr
           in if key = [] \<or> val = [] then Err (Errorf ''invalid Map type'') else Ok (key, val))"

text \<open>The parenthesis depth after \<open>s\<close>, and that a separator occurs in it only inside parentheses.\<close>

fun depth_after :: "int \<Rightarrow> string \<Rightarrow> int" where
  "depth_after d [] = d"
| "depth_after d (c # cs) =
     depth_after (if c = CHR ''('' then d + 1 else if c = CHR '')'' then d - 1 else d) cs"

fun enclosed :: "char \<Rightarrow> int \<Rightarrow> string \<Rightarrow> bool" where
  "enclosed sep d [] = True"
| "enclosed sep d (c # cs) =
     (if c = CHR ''('' then enclosed sep (d + 1) cs
      else if c = CHR '')'' then enclosed sep (d - 1) cs
      else (c = sep \<longrightarrow> d \<noteq> 0) \<and> enclosed sep d cs)"

lemma split_depth_append:
  "enclosed sep d a \<Longrightarrow> depth_after d a = 0 \<Longrightarrow> sep \<noteq> CHR ''('' \<Longrightarrow> sep \<noteq> CHR '')'' \<Longrightarrow>
    split_depth sep d (a @ sep # b) = (a, b)"
  by (induction a arbitrary: d) auto

lemma split_depth_none:
  "enclosed sep d s \<Longrightarrow> sep \<noteq> CHR ''('' \<Longrightarrow> sep \<noteq> CHR '')'' \<Longrightarrow> split_depth sep d s = (s, [])"
  by (induction s arbitrary: d) auto

section \<open>Columns for Go types\<close>

text \<open>The cases of the type switch on \<open>T\<close>, and the columns it can create.\<close>

datatype gokind = G_base basety | G_string | G_decimal | G_int128 | G_uint128 | G_int256 | G_uint256
  | G_uuid | G_time | G_ip | G_other

datatype newcol = NC_Base basety | NC_Str | NC_Enum8 | NC_Enum16
  | NC_Decimal32 | NC_Decimal64 | NC_Decimal128 | NC_Decimal256
  | NC_Int128 | NC_UInt128 | NC_Int256 | NC_UInt256 | NC_UUID
  | NC_Date | NC_Date32 | NC_DateTime | NC_DateTime64

fun base_const :: "basety \<Rightarrow> ctconst option" where
  "base_const TUint8 = Some CT_UInt8" | "base_const TUint16 = Some CT_UInt16"
| "base_const TUint32 = Some CT_UInt32" | "base_const TUint64 = Some CT_UInt64"
| "base_const TInt8 = Some CT_Int8" | "base_const TInt16 = Some CT_Int16"
| "base_const TInt32 = Some CT_Int32" | "base_const TInt64 = Some CT_Int64"
| "base_const TFloat32 = Some CT_Float32" | "base_const TFloat64 = Some CT_Float64"
| "base_const _ = None"

definition expect_base :: "ctypes \<Rightarrow> string \<Rightarrow> ctconst \<Rightarrow> 'a \<Rightarrow> 'a go" where
  "expect_base C t k x = (if ct_base C t \<noteq> ct_name C k then Err (Errorf ''type mismatch'') else Ok x)"

text \<open>
  A column whose element type is not \<open>T\<close> makes the assertion \<open>.(Of[T])\<close> panic: the FixedString
  column, over \<open>[]byte\<close>, for \<open>string\<close> (if its constructor has not panicked on the size before), and
  the IP columns, over the arrays \<open>IPv4\<close> and \<open>IPv6\<close>, for \<open>net.IP\<close>.
\<close>

definition newColumnOf :: "ctypes \<Rightarrow> gokind \<Rightarrow> string \<Rightarrow> newcol go" where
  "newColumnOf C g t =
     (let b = ct_base C t; name = ct_name C; unsupported = Err (Errorf ''map: unsupported type'') in
      case g of
        G_base k \<Rightarrow> (case base_const k of Some c \<Rightarrow> expect_base C t c (NC_Base k) | None \<Rightarrow> unsupported)
      | G_string \<Rightarrow>
          if b = name CT_String then Ok NC_Str
          else if b = name CT_FixedString then Panic ''interface conversion''
          else if b = name CT_Enum8 then Ok NC_Enum8
          else if b = name CT_Enum16 then Ok NC_Enum16
          else unsupported
      | G_decimal \<Rightarrow>
          if b = name CT_Decimal then Ok NC_Decimal128
          else if b = name CT_Decimal32 then Ok NC_Decimal32
          else if b = name CT_Decimal64 then Ok NC_Decimal64
          else if b = name CT_Decimal128 then Ok NC_Decimal128
          else if b = name CT_Decimal256 then Ok NC_Decimal256
          else unsupported
      | G_int128 \<Rightarrow> expect_base C t CT_Int128 NC_Int128
      | G_uint128 \<Rightarrow> expect_base C t CT_UInt128 NC_UInt128
      | G_int256 \<Rightarrow> expect_base C t CT_Int256 NC_Int256
      | G_uint256 \<Rightarrow> expect_base C t CT_UInt256 NC_UInt256
      | G_uuid \<Rightarrow> expect_base C t CT_UUID NC_UUID
      | G_time \<Rightarrow>
          if b = name CT_Date then Ok NC_Date
          else if b = name CT_Date32 then Ok NC_Date32
          else if b = name CT_DateTime then Ok NC_DateTime
          else if b = name CT_DateTime64 then Ok NC_DateTime64
          else unsupported
      | G_ip \<Rightarrow>
          if b = name CT_IPv4 \<or> b = name CT_IPv6 then Panic ''interface conversion'' else unsupported
      | G_other \<Rightarrow> unsupported)"

text \<open>The columns that have an \<open>Infer\<close> method (the assertion \<open>.(mapElem[T])\<close>).\<close>

definition nc_has_infer :: "newcol \<Rightarrow> bool" where
  "nc_has_infer n \<longleftrightarrow> n \<notin> {NC_Date, NC_Date32, NC_DateTime}"

definition checkBase :: "ctypes \<Rightarrow> string \<Rightarrow> string \<Rightarrow> unit go" where
  "checkBase C t expected = (if ct_base C t \<noteq> expected then Panic ''type mismatch'' else Ok ())"

section \<open>The column\<close>

record ('k, 'v) map_col =
  mc_name :: string
  mc_offsets :: "u64 list"
  mc_keys :: "'k option"
  mc_values :: "'v option"

definition new_map_col :: "string \<Rightarrow> ('k, 'v) map_col" where
  "new_map_col name = \<lparr> mc_name = name, mc_offsets = [], mc_keys = None, mc_values = None \<rparr>"

text \<open>A method call on a nil interface panics.\<close>

definition non_nil :: "'a option \<Rightarrow> 'a go" where
  "non_nil x = (case x of Some c \<Rightarrow> Ok c | None \<Rightarrow> Panic ''nil pointer dereference'')"

definition map_len :: "('k, 'v) map_col \<Rightarrow> nat" where
  "map_len c = length (mc_offsets c)"

definition map_type :: "('r, 'w, 'k, 't) of_ops \<Rightarrow> ('r, 'w, 'v, 'u) of_ops \<Rightarrow> ctypes \<Rightarrow> ('k, 'v) map_col \<Rightarrow> string go" where
  "map_type I J C c =
     go_bind (non_nil (mc_keys c)) (\<lambda>k. go_bind (non_nil (mc_values c)) (\<lambda>v.
     Ok (ct_with C (ct_name C CT_Map) [of_type I C k, of_type J C v])))"

definition map_reset :: "('r, 'w, 'k, 't) of_ops \<Rightarrow> ('r, 'w, 'v, 'u) of_ops \<Rightarrow> ('k, 'v) map_col \<Rightarrow> ('k, 'v) map_col go" where
  "map_reset I J c =
     go_bind (non_nil (mc_keys c)) (\<lambda>k. go_bind (non_nil (mc_values c)) (\<lambda>v.
     Ok (c\<lparr>mc_offsets := [], mc_keys := Some (of_reset I k), mc_values := Some (of_reset J v)\<rparr>)))"

text \<open>
  \<open>Infer\<close> for \<open>K\<close> of kind \<open>gk\<close> and \<open>V\<close> of kind \<open>gv\<close>: \<open>mk\<close> makes the column \<open>newColumnOf\<close> has
  chosen, \<open>infr\<close> is its \<open>Infer\<close> method; \<open>side\<close> is \<open>keys\<close> or \<open>values\<close>.
\<close>

definition map_infer_one :: "ctypes \<Rightarrow> string \<Rightarrow> (newcol \<Rightarrow> 'c) \<Rightarrow> (ctypes \<Rightarrow> string \<Rightarrow> 'c \<Rightarrow> 'c go) \<Rightarrow> gokind \<Rightarrow> string \<Rightarrow> 'c go" where
  "map_infer_one C side mk infr g t =
     go_bind (go_wrap (''map: '' @ side) (newColumnOf C g t)) (\<lambda>n.
     if \<not> nc_has_infer n then Err (Errorf (''map: '' @ side @ '' column does not support Infer''))
     else go_wrap (''map: infer '' @ side) (infr C t (mk n)))"

definition map_infer :: "ctypes \<Rightarrow> (newcol \<Rightarrow> 'k) \<Rightarrow> (ctypes \<Rightarrow> string \<Rightarrow> 'k \<Rightarrow> 'k go) \<Rightarrow> gokind \<Rightarrow>
    (newcol \<Rightarrow> 'v) \<Rightarrow> (ctypes \<Rightarrow> string \<Rightarrow> 'v \<Rightarrow> 'v go) \<Rightarrow> gokind \<Rightarrow> string \<Rightarrow> ('k, 'v) map_col \<Rightarrow> ('k, 'v) map_col go" where
  "map_infer C mkK infK gk mkV infV gv t c =
     (if ct_base C t \<noteq> ct_name C CT_Map then Err (Errorf ''map: expected Map'')
      else go_bind (go_wrap ''map: parse types'' (parseMapTypes C t)) (\<lambda>(keyType, valType).
           go_bind (map_infer_one C ''keys'' mkK infK gk keyType) (\<lambda>k.
           go_bind (map_infer_one C ''values'' mkV infV gv valType) (\<lambda>v.
           Ok (c\<lparr>mc_keys := Some k, mc_values := Some v\<rparr>)))))"

fun map_append_entries :: "('r, 'w, 'k, 't) of_ops \<Rightarrow> ('r, 'w, 'v, 'u) of_ops \<Rightarrow> ('t \<times> 'u) list \<Rightarrow> 'k option \<Rightarrow> 'v option \<Rightarrow> ('k option \<times> 'v option) go" where
  "map_append_entries I J [] k v = Ok (k, v)"
| "map_append_entries I J ((a, b) # es) k v =
     go_bind (non_nil k) (\<lambda>k. go_bind (of_append I a k) (\<lambda>k.
     go_bind (non_nil v) (\<lambda>v. go_bind (of_append J b v) (\<lambda>v.
     map_append_entries I J es (Some k) (Some v)))))"

definition map_append :: "('r, 'w, 'k, 't) of_ops \<Rightarrow> ('r, 'w, 'v, 'u) of_ops \<Rightarrow> ('t \<times> 'u) list \<Rightarrow> ('k, 'v) map_col \<Rightarrow> ('k, 'v) map_col go" where
  "map_append I J es c =
     go_bind (map_append_entries I J es (mc_keys c) (mc_values c)) (\<lambda>(k, v).
     go_bind (non_nil k) (\<lambda>k'.
     Ok (c\<lparr>mc_keys := k, mc_values := v, mc_offsets := mc_offsets c @ [word_of_nat (of_len I k')]\<rparr>)))"

definition map_append_arr :: "('r, 'w, 'k, 't) of_ops \<Rightarrow> ('r, 'w, 'v, 'u) of_ops \<Rightarrow> ('t \<times> 'u) list list \<Rightarrow> ('k, 'v) map_col \<Rightarrow> ('k, 'v) map_col go" where
  "map_append_arr I J vs c = go_fold (map_append I J) vs c"

definition map_entry :: "('r, 'w, 'k, 't) of_ops \<Rightarrow> ('r, 'w, 'v, 'u) of_ops \<Rightarrow> ('k, 'v) map_col \<Rightarrow> int \<Rightarrow> ('t \<times> 'u) go" where
  "map_entry I J c j =
     go_bind (non_nil (mc_keys c)) (\<lambda>k. go_bind (of_row I k j) (\<lambda>a.
     go_bind (non_nil (mc_values c)) (\<lambda>v. go_bind (of_row J v j) (\<lambda>b. Ok (a, b)))))"

text \<open>\<open>sz\<close> is the size of a \<open>MapEntry[K, V]\<close> in memory.\<close>

definition map_row :: "nat \<Rightarrow> ('r, 'w, 'k, 't) of_ops \<Rightarrow> ('r, 'w, 'v, 'u) of_ops \<Rightarrow> ('k, 'v) map_col \<Rightarrow> int \<Rightarrow> ('t \<times> 'u) list go" where
  "map_row sz I J c i =
     go_bind (offs_lo (mc_offsets c) i) (\<lambda>lo.
     go_bind (idx (mc_offsets c) i) (\<lambda>hi.
     let n = sint (hi - lo) in
     go_bind (go_make sz n n) (\<lambda>_.
     go_map (\<lambda>j. map_entry I J c (wrap64 (sint lo + int j))) [0..<nat n])))"

text \<open>The callback of \<open>ForEachEntry\<close> runs in a state \<open>'s\<close> of the caller's.\<close>

fun map_each :: "('r, 'w, 'k, 't) of_ops \<Rightarrow> ('r, 'w, 'v, 'u) of_ops \<Rightarrow> ('k, 'v) map_col \<Rightarrow> ('t \<times> 'u \<Rightarrow> 's \<Rightarrow> 's go) \<Rightarrow>
    u64 \<Rightarrow> nat \<Rightarrow> 's \<Rightarrow> 's go" where
  "map_each I J c fn j 0 s = Ok s"
| "map_each I J c fn j (Suc n) s =
     go_bind (map_entry I J c (sint j)) (\<lambda>e. go_bind (fn e s) (map_each I J c fn (j + 1) n))"

definition map_ForEachEntry :: "('r, 'w, 'k, 't) of_ops \<Rightarrow> ('r, 'w, 'v, 'u) of_ops \<Rightarrow> ('k, 'v) map_col \<Rightarrow> int \<Rightarrow>
    ('t \<times> 'u \<Rightarrow> 's \<Rightarrow> 's go) \<Rightarrow> 's \<Rightarrow> 's go" where
  "map_ForEachEntry I J c i fn s =
     go_bind (offs_lo (mc_offsets c) i) (\<lambda>lo.
     go_bind (idx (mc_offsets c) i) (\<lambda>hi.
     map_each I J c fn lo (if lo < hi then unat (hi - lo) else 0) s))"

definition map_decode :: "('r, 'w, 'k, 't) of_ops \<Rightarrow> ('r, 'w, 'v, 'u) of_ops \<Rightarrow> 'r preader \<Rightarrow> ('k, 'v) map_col \<Rightarrow> int \<Rightarrow> ('r, ('k, 'v) map_col) rdm" where
  "map_decode I J P c rows =
     rbind (read_offsets ''map: read offset'' P (nat rows) []) (\<lambda>offs.
     rbind (rlift (non_nil (mc_keys c))) (\<lambda>k.
     rbind (rwrap (Wrapf ''map: decode keys'') (of_decode I P k (offs_total offs))) (\<lambda>k.
     rbind (rlift (non_nil (mc_values c))) (\<lambda>v.
     rbind (rwrap (Wrapf ''map: decode values'') (of_decode J P v (offs_total offs))) (\<lambda>v.
     rret (c\<lparr>mc_offsets := offs, mc_keys := Some k, mc_values := Some v\<rparr>))))))"

definition map_encode :: "('r, 'w, 'k, 't) of_ops \<Rightarrow> ('r, 'w, 'v, 'u) of_ops \<Rightarrow> pbuffer \<Rightarrow> ('k, 'v) map_col \<Rightarrow> byte list \<Rightarrow> byte list go" where
  "map_encode I J B c b =
     go_bind (non_nil (mc_keys c)) (\<lambda>k.
     go_bind (of_encode I B k (encodeUVarInts (mc_offsets c) b)) (\<lambda>b.
     go_bind (non_nil (mc_values c)) (\<lambda>v. of_encode J B v b)))"

definition map_write :: "('r, 'w, 'k, 't) of_ops \<Rightarrow> ('r, 'w, 'v, 'u) of_ops \<Rightarrow> 'w pwriter \<Rightarrow> pbuffer \<Rightarrow> ('k, 'v) map_col \<Rightarrow> 'w \<Rightarrow> 'w go" where
  "map_write I J W B c w =
     go_bind (non_nil (mc_keys c)) (\<lambda>k. go_bind (non_nil (mc_values c)) (\<lambda>v.
     Ok (of_write J W B v (of_write I W B k (writeUVarInts W (mc_offsets c) w)))))"

text \<open>\<open>EntriesToMap\<close>: \<open>m[e.Key] = e.Value\<close> in order.\<close>

definition EntriesToMap :: "('t \<times> 'u) list \<Rightarrow> 't \<rightharpoonup> 'u" where
  "EntriesToMap es = foldl (\<lambda>m (k, v). m(k \<mapsto> v)) Map.empty es"

lemma EntriesToMap_eq: "EntriesToMap es = map_of (rev es)"
proof -
  have "foldl (\<lambda>m (k, v). m(k \<mapsto> v)) m es = m ++ map_of (rev es)" for m
    by (induction es arbitrary: m) auto
  then show ?thesis by (simp add: EntriesToMap_def)
qed

section \<open>Contract\<close>

lemma zip_map_prod: "zip (map (f \<circ> fst) es) (map (g \<circ> snd) es) = map (map_prod f g) es"
  by (induction es) auto

locale map_client =
  k: of_column I inv rows wire acc norm like +
  v: of_column J inv2 rows2 wire2 acc2 norm2 like2
  for sz :: nat
    and I :: "('r, 'w, 'c, 't) of_ops" and inv rows wire acc norm like
    and J :: "('r, 'w, 'd, 'u) of_ops" and inv2 rows2 wire2 acc2 norm2 like2 +
  assumes sz: "sz \<le> 256"
begin

text \<open>\<open>m_is c a b\<close>: the map column \<open>c\<close> has the key column \<open>a\<close> and the value column \<open>b\<close>.\<close>

definition m_is :: "('c, 'd) map_col \<Rightarrow> 'c \<Rightarrow> 'd \<Rightarrow> bool" where
  "m_is c a b \<longleftrightarrow> mc_keys c = Some a \<and> mc_values c = Some b"

definition m_inv :: "('c, 'd) map_col \<Rightarrow> 'c \<Rightarrow> 'd \<Rightarrow> bool" where
  "m_inv c a b \<longleftrightarrow> m_is c a b \<and> inv a \<and> inv2 b \<and> length (rows2 b) = length (rows a) \<and>
     offs_fit (mc_offsets c) (length (rows a))"

definition m_rows :: "('c, 'd) map_col \<Rightarrow> 'c \<Rightarrow> 'd \<Rightarrow> ('t \<times> 'u) list list" where
  "m_rows c a b = offs_rows (mc_offsets c) (zip (rows a) (rows2 b))"

definition m_wire :: "('c, 'd) map_col \<Rightarrow> 'c \<Rightarrow> 'd \<Rightarrow> byte list" where
  "m_wire c a b = offs_image (mc_offsets c) @ wire a @ wire2 b"

definition m_norm :: "'c \<Rightarrow> 'd \<Rightarrow> 't \<times> 'u \<Rightarrow> 't \<times> 'u" where
  "m_norm a b = map_prod (norm a) (norm2 b)"

lemma m_entries:
  "inv a \<Longrightarrow> inv2 b \<Longrightarrow> (\<And>x y. (x, y) \<in> set es \<Longrightarrow> acc a x \<and> acc2 b y) \<Longrightarrow>
    \<exists>a' b'. map_append_entries I J es (Some a) (Some b) = Ok (Some a', Some b') \<and> inv a' \<and> inv2 b' \<and>
      like a a' \<and> like2 b b' \<and> rows a' = rows a @ map (norm a \<circ> fst) es \<and> rows2 b' = rows2 b @ map (norm2 b \<circ> snd) es"
proof (induction es arbitrary: a b)
  case (Cons e es)
  obtain x y where e: "e = (x, y)" by force
  obtain a1 where a1: "of_append I x a = Ok a1" "inv a1" "like a a1" "rows a1 = rows a @ [norm a x]"
    using k.append [of a x] Cons.prems e by auto
  obtain b1 where b1: "of_append J y b = Ok b1" "inv2 b1" "like2 b b1" "rows2 b1 = rows2 b @ [norm2 b y]"
    using v.append [of b y] Cons.prems e by auto
  have "acc a1 x \<and> acc2 b1 y" if "(x, y) \<in> set es" for x y
    using Cons.prems(3) [of x y] that k.like_acc [OF a1(3)] v.like_acc [OF b1(3)] by simp
  from Cons.IH [OF a1(2) b1(2) this] obtain a2 b2 where
    "map_append_entries I J es (Some a1) (Some b1) = Ok (Some a2, Some b2)" "inv a2" "inv2 b2" "like a1 a2" "like2 b1 b2"
    "rows a2 = rows a1 @ map (norm a1 \<circ> fst) es" "rows2 b2 = rows2 b1 @ map (norm2 b1 \<circ> snd) es" by blast
  with a1 b1 k.like_norm [OF a1(3)] v.like_norm [OF b1(3)] k.like_trans [OF a1(3)] v.like_trans [OF b1(3)] show ?case
    by (auto simp: e non_nil_def)
qed (auto simp: k.like_refl v.like_refl)

lemma m_append:
  assumes inv: "m_inv c a b" and es: "\<And>x y. (x, y) \<in> set es \<Longrightarrow> acc a x \<and> acc2 b y" and l: "length es < 2 ^ 63"
  shows "\<exists>c' a' b'. map_append I J es c = Ok c' \<and> m_inv c' a' b' \<and> like a a' \<and> like2 b b' \<and>
    m_rows c' a' b' = m_rows c a b @ [map (m_norm a b) es]"
proof -
  obtain a' b' where ab: "map_append_entries I J es (Some a) (Some b) = Ok (Some a', Some b')" "inv a'" "inv2 b'"
      "like a a'" "like2 b b'" "rows a' = rows a @ map (norm a \<circ> fst) es" "rows2 b' = rows2 b @ map (norm2 b \<circ> snd) es"
    using m_entries [of a b es] inv es by (auto simp: m_inv_def)
  show ?thesis
    using inv ab l offs_append [of "mc_offsets c" "zip (rows a) (rows2 b)" "map (m_norm a b) es"]
    by (auto simp: map_append_def m_inv_def m_is_def m_rows_def non_nil_def k.len zip_map_prod simp flip: m_norm_def)
qed

lemma m_append_arr:
  "m_inv c a b \<Longrightarrow> (\<And>es x y. es \<in> set vs \<Longrightarrow> (x, y) \<in> set es \<Longrightarrow> acc a x \<and> acc2 b y) \<Longrightarrow>
    (\<And>es. es \<in> set vs \<Longrightarrow> length es < 2 ^ 63) \<Longrightarrow>
    \<exists>c' a' b'. map_append_arr I J vs c = Ok c' \<and> m_inv c' a' b' \<and> like a a' \<and> like2 b b' \<and>
      m_rows c' a' b' = m_rows c a b @ map (map (m_norm a b)) vs"
proof (induction vs arbitrary: c a b)
  case (Cons es vs)
  obtain c1 a1 b1 where 1: "map_append I J es c = Ok c1" "m_inv c1 a1 b1" "like a a1" "like2 b b1"
    "m_rows c1 a1 b1 = m_rows c a b @ [map (m_norm a b) es]"
  proof -
    have "\<exists>c' a' b'. map_append I J es c = Ok c' \<and> m_inv c' a' b' \<and> like a a' \<and> like2 b b' \<and>
        m_rows c' a' b' = m_rows c a b @ [map (m_norm a b) es]"
      by (rule m_append [OF Cons.prems(1)]) (use Cons.prems(2,3) in auto)
    then show ?thesis using that by blast
  qed
  have "acc a1 x \<and> acc2 b1 y" if "es \<in> set vs" "(x, y) \<in> set es" for es x y
    using Cons.prems(2) [of es x y] that k.like_acc [OF 1(3)] v.like_acc [OF 1(4)] by simp
  moreover have "length es < 2 ^ 63" if "es \<in> set vs" for es using that Cons.prems(3) by simp
  ultimately obtain c2 a2 b2 where 2: "map_append_arr I J vs c1 = Ok c2" "m_inv c2 a2 b2"
    "like a1 a2" "like2 b1 b2" "m_rows c2 a2 b2 = m_rows c1 a1 b1 @ map (map (m_norm a1 b1)) vs"
    using Cons.IH [OF 1(2)] by blast
  have "m_norm a1 b1 = m_norm a b" using k.like_norm [OF 1(3)] v.like_norm [OF 1(4)] by (simp add: m_norm_def)
  moreover have "like a a2" "like2 b b2" using 1 2 k.like_trans v.like_trans by blast+
  ultimately show ?case using 1 2 by (auto simp: map_append_arr_def)
next
  case Nil
  then show ?case using k.like_refl [of a] v.like_refl [of b] by (auto simp: map_append_arr_def)
qed

lemma m_rows_inverse:
  assumes inv: "m_inv c a b" and r: "m_rows c a b = map (map (map_prod f g)) vs"
  shows "mc_offsets c = end_offsets 0 vs" and "rows a = map (f \<circ> fst) (concat vs)" and "rows2 b = map (g \<circ> snd) (concat vs)"
proof -
  have l: "length (rows2 b) = length (rows a)" "offs_fit (mc_offsets c) (length (zip (rows a) (rows2 b)))"
    using inv by (simp_all add: m_inv_def)
  note o = offs_rows_inverse [OF l(2) r [unfolded m_rows_def]]
  show "mc_offsets c = end_offsets 0 vs" using o(1) by simp
  have z: "zip (rows a) (rows2 b) = map (map_prod f g) (concat vs)" using o(2) by (simp add: map_concat)
  have "rows a = map fst (zip (rows a) (rows2 b))" "rows2 b = map snd (zip (rows a) (rows2 b))"
    using l(1) by simp_all
  then show "rows a = map (f \<circ> fst) (concat vs)" "rows2 b = map (g \<circ> snd) (concat vs)"
    unfolding z by (simp_all add: comp_def case_prod_beta)
qed

lemma m_small: "m_inv c a b \<Longrightarrow> small (m_wire c a b) \<Longrightarrow> small (wire a) \<and> small (wire2 b) \<and> length (rows a) < 2 ^ 40"
  using k.rows_wire [of a] by (auto simp: m_wire_def m_inv_def)

lemma m_entry:
  assumes "m_inv c a b" and "small (m_wire c a b)" and "j < length (rows a)"
  shows "map_entry I J c (int j) = Ok (zip (rows a) (rows2 b) ! j)"
  using assms m_small [OF assms(1,2)] k.row [of a j] v.row [of b j]
  by (simp add: map_entry_def m_inv_def m_is_def non_nil_def)

lemma m_row:
  assumes inv: "m_inv c a b" and sm: "small (m_wire c a b)" and i: "i < length (mc_offsets c)"
  shows "map_row sz I J c (int i) = Ok (m_rows c a b ! i)"
proof -
  let ?xs = "zip (rows a) (rows2 b)"
  have l: "length ?xs = length (rows a)" "offs_fit (mc_offsets c) (length ?xs)" using inv by (simp_all add: m_inv_def)
  have len: "length ?xs < 2 ^ 40" using m_small [OF inv sm] l(1) by simp
  obtain lo hi where b: "lo \<le> hi" "hi \<le> length ?xs" "offs_lo (mc_offsets c) (int i) = Ok (word_of_nat lo)"
    "idx (mc_offsets c) (int i) = Ok (word_of_nat hi)" "m_rows c a b ! i = take (hi - lo) (drop lo ?xs)"
    using offs_bounds [OF l(2) i len] by (auto simp: m_rows_def)
  have lh: "lo < 2 ^ 40" "hi - lo < 2 ^ 40" using b(1,2) len by linarith+
  have "(word_of_nat hi - word_of_nat lo :: u64) = word_of_nat (hi - lo)" using b(1) by (simp add: of_nat_diff)
  then have d: "sint (word_of_nat hi - word_of_nat lo :: u64) = int (hi - lo)" by (simp only: sint_small [OF lh(2)])
  have "sz * (hi - lo) \<le> 256 * 2 ^ 40" using sz lh(2) by (intro mult_le_mono) simp_all
  then have "int (sz * (hi - lo)) \<le> int (256 * 2 ^ 40)" by (simp only: of_nat_le_iff)
  then have mk: "go_make sz (int (hi - lo)) (int (hi - lo)) = Ok ()"
    by (simp add: go_make_def maxAlloc_def del: of_nat_diff)
  have e: "map_entry I J c (wrap64 (int lo + int j)) = Ok (?xs ! (lo + j))" if "j < hi - lo" for j
  proof -
    have j: "lo + j < length (rows a)" using that b(2) l(1) by linarith
    then have "int (lo + j) < int (2 ^ 40)" using len l(1) by (simp only: of_nat_less_iff)
    then have "wrap64 (int lo + int j) = int (lo + j)" by (simp add: wrap64_id)
    with m_entry [OF inv sm j] show ?thesis by simp
  qed
  have "go_map (\<lambda>j. map_entry I J c (wrap64 (int lo + int j))) [0..<hi - lo] = Ok (map (\<lambda>j. ?xs ! (lo + j)) [0..<hi - lo])"
    by (intro go_map_upt e) simp_all
  moreover have "map (\<lambda>j. ?xs ! (lo + j)) [0..<hi - lo] = take (hi - lo) (drop lo ?xs)"
    using b(1,2) by (intro nth_equalityI) (auto simp: add.commute)
  ultimately show ?thesis
    by (simp add: map_row_def b(3-5) d mk sint_small [OF lh(1)] Let_def del: of_nat_diff)
qed

lemma m_encode:
  "m_inv c a b \<Longrightarrow> buffer_ok B \<Longrightarrow> small (m_wire c a b) \<Longrightarrow> map_encode I J B c bs = Ok (bs @ m_wire c a b)"
  by (simp add: map_encode_def m_inv_def m_is_def m_wire_def non_nil_def encodeUVarInts_eq k.encode v.encode)

lemma m_decode:
  assumes inv: "m_inv c a b" and c0: "m_is c0 a0 b0" "inv a0" "rows a0 = []" "like a0 a" "inv2 b0" "rows2 b0 = []" "like2 b0 b"
    and P: "reader_ok P pd" and sm: "small (m_wire c a b)"
  shows "\<exists>c' a' b'. yields pd (map_decode I J P c0 (int (length (mc_offsets c)))) (m_wire c a b) c' \<and> m_inv c' a' b' \<and>
    m_rows c' a' b' = m_rows c a b \<and> m_wire c' a' b' = m_wire c a b \<and> mc_offsets c' = mc_offsets c"
proof -
  let ?n = "length (rows a)"
  note small = m_small [OF inv sm]
  obtain a' where a': "yields pd (of_decode I P a0 (int ?n)) (wire a) a'" "inv a'" "rows a' = rows a" "wire a' = wire a"
    using k.decode [of a a0 P pd] inv c0 P small by (auto simp: m_inv_def)
  obtain b' where b': "yields pd (of_decode J P b0 (int ?n)) (wire2 b) b'" "inv2 b'" "rows2 b' = rows2 b" "wire2 b' = wire2 b"
    using v.decode [of b b0 P pd] inv c0 P small by (auto simp: m_inv_def)
  have t: "offs_total (mc_offsets c) = int ?n"
    using inv small by (intro offs_total_eq) (simp_all add: m_inv_def)
  have kv: "mc_keys c0 = Some a0" "mc_values c0 = Some b0" using c0(1) by (simp_all add: m_is_def)
  let ?c = "c0\<lparr>mc_offsets := mc_offsets c, mc_keys := Some a', mc_values := Some b'\<rparr>"
  have o: "yields pd (read_offsets ''map: read offset'' P (length (mc_offsets c)) []) (offs_image (mc_offsets c)) (mc_offsets c)"
    using read_offsets_yields [OF P, of _ "mc_offsets c" "[]"] by simp
  have "yields pd (map_decode I J P c0 (int (length (mc_offsets c)))) (m_wire c a b) ?c"
    by (simp add: map_decode_def m_wire_def kv non_nil_def)
      (rule yields_bind [OF o], unfold t, rule yields_bind [OF yields_rwrap [OF a'(1)]],
        rule yields_bind_rret [OF yields_rwrap [OF b'(1)]])
  with a' b' inv show ?thesis
    by (intro exI [of _ ?c] exI [of _ a'] exI [of _ b']) (simp add: m_inv_def m_is_def m_rows_def m_wire_def)
qed

end

interpretation str_u64_map: map_client 24
    "str_ops :: ('r, 'w, str_col, string) of_ops" "\<lambda>_. True" sc_data "\<lambda>c. str_image (sc_data c)" "\<lambda>_ _. True" "\<lambda>_ v. v" "\<lambda>_ _. True"
    "base_ops uint64_t :: ('r, 'w, u64 data_col, u64) of_ops" "\<lambda>_. True" dc_data
    "\<lambda>c. data_image uint64_t (dc_data c)" "\<lambda>_ _. True" "\<lambda>_ x. x" "\<lambda>_ _. True"
  by unfold_locales simp

section \<open>Properties\<close>

text \<open>
  C15. A Map column over key and value columns that keep the contract of \<open>Of[T]\<close>: after
  \<open>AppendArr\<close> of the rows \<open>vs\<close>, the offsets are the running sums of the numbers of entries, and the
  key and value columns have the keys and the values in order. The wire form is the offsets as
  varints, the wire form of the keys and that of the values; as long as it is shorter than 2^40
  bytes, \<open>Row(i)\<close> gives the entries of row \<open>i\<close> in order, \<open>EncodeColumn\<close> appends exactly the wire
  form, and a column with fresh keys and values decodes it into the same rows; truncations are
  errors.
\<close>

theorem map_roundtrip:
  assumes E: "of_column I ok rows wire acc norm like" and F: "of_column J ok2 rows2 wire2 acc2 norm2 like2"
    and sz: "sz \<le> 256"
    and c: "mc_keys c = Some a" "mc_values c = Some b" "mc_offsets c = []" "ok a" "rows a = []" "ok2 b" "rows2 b = []"
    and d: "mc_keys d = Some a0" "mc_values d = Some b0" "ok a0" "rows a0 = []" "like a0 a" "ok2 b0" "rows2 b0 = []" "like2 b0 b"
    and vs: "\<forall>es \<in> set vs. length es < 2 ^ 63 \<and> (\<forall>(x, y) \<in> set es. acc a x \<and> acc2 b y)"
    and P: "reader_ok P pd" and B: "buffer_ok B"
  shows "\<exists>c1 a1 b1. map_append_arr I J vs c = Ok c1 \<and> map_len c1 = length vs \<and>
    mc_offsets c1 = end_offsets 0 vs \<and> mc_keys c1 = Some a1 \<and> mc_values c1 = Some b1 \<and>
    rows a1 = map (norm a \<circ> fst) (concat vs) \<and> rows2 b1 = map (norm2 b \<circ> snd) (concat vs) \<and>
    (let bs = offs_image (mc_offsets c1) @ wire a1 @ wire2 b1 in length bs < 2 ^ 40 \<longrightarrow>
      (\<forall>i < length vs. map_row sz I J c1 (int i) = Ok (map (map_prod (norm a) (norm2 b)) (vs ! i))) \<and>
      (\<forall>b. map_encode I J B c1 b = Ok (b @ bs)) \<and>
      (\<exists>c2. yields pd (map_decode I J P d (int (length vs))) bs c2 \<and> map_len c2 = length vs \<and>
        (\<forall>i < length vs. map_row sz I J c2 (int i) = map_row sz I J c1 (int i))))"
proof -
  have M: "map_client sz I ok rows wire acc norm like J ok2 rows2 wire2 acc2 norm2 like2"
    using E F sz by (simp add: map_client_def map_client_axioms_def)
  let ?inv = "map_client.m_inv ok rows ok2 rows2" and ?rows = "map_client.m_rows rows rows2"
    and ?wire = "map_client.m_wire wire wire2"
  note defs = map_client.m_inv_def [OF M] map_client.m_is_def [OF M] map_client.m_rows_def [OF M] map_client.m_norm_def [OF M]
  have "?inv c a b" using c by (simp add: defs offs_fit_def)
  moreover have "?rows c a b = []" using c by (simp add: defs offs_rows_def)
  ultimately obtain c1 a1 b1 where c1: "map_append_arr I J vs c = Ok c1" "?inv c1 a1 b1" "like a a1" "like2 b b1"
    "?rows c1 a1 b1 = map (map (map_prod (norm a) (norm2 b))) vs"
    using map_client.m_append_arr [OF M, of c a b vs] vs by (fastforce simp: defs)
  have len: "length (mc_offsets c1) = length vs"
    using arg_cong [OF c1(5), of length] by (simp add: defs)
  have kv: "mc_keys c1 = Some a1" "mc_values c1 = Some b1" using c1(2) by (simp_all add: defs)
  have r: "mc_offsets c1 = end_offsets 0 vs" "rows a1 = map (norm a \<circ> fst) (concat vs)" "rows2 b1 = map (norm2 b \<circ> snd) (concat vs)"
    using map_client.m_rows_inverse [OF M c1(2,5)] by simp_all
  have w: "?wire c1 a1 b1 = offs_image (mc_offsets c1) @ wire a1 @ wire2 b1" by (simp add: map_client.m_wire_def [OF M])
  show ?thesis
    unfolding Let_def
  proof (rule exI [of _ c1], rule exI [of _ a1], rule exI [of _ b1], unfold w [symmetric], intro conjI impI)
    assume sm: "length (?wire c1 a1 b1) < 2 ^ 40"
    note row = map_client.m_row [OF M c1(2) sm]
    show "\<forall>i < length vs. map_row sz I J c1 (int i) = Ok (map (map_prod (norm a) (norm2 b)) (vs ! i))"
      using row by (simp add: len c1(5))
    show "\<forall>b. map_encode I J B c1 b = Ok (b @ ?wire c1 a1 b1)"
      using map_client.m_encode [OF M c1(2) B sm] by blast
    have "like a0 a1" "like2 b0 b1"
      using of_column.like_trans [OF E d(5) c1(3)] of_column.like_trans [OF F d(8) c1(4)] by simp_all
    then obtain c2 a2 b2 where c2: "yields pd (map_decode I J P d (int (length (mc_offsets c1)))) (?wire c1 a1 b1) c2"
      "?inv c2 a2 b2" "?rows c2 a2 b2 = ?rows c1 a1 b1" "?wire c2 a2 b2 = ?wire c1 a1 b1" "mc_offsets c2 = mc_offsets c1"
      using map_client.m_decode [OF M c1(2), of d a0 b0 P pd] d P sm by (auto simp: defs)
    then have sm2: "length (?wire c2 a2 b2) < 2 ^ 40" using sm by simp
    from c2 show "\<exists>c2. yields pd (map_decode I J P d (int (length vs))) (?wire c1 a1 b1) c2 \<and> map_len c2 = length vs \<and>
        (\<forall>i < length vs. map_row sz I J c2 (int i) = map_row sz I J c1 (int i))"
      using map_client.m_row [OF M c2(2) sm2] row by (intro exI [of _ c2]) (simp add: map_len_def len)
  qed (simp_all add: c1(1) map_len_def len kv r)
qed

theorem map_roundtrip_witness:
  "\<exists>c c'. map_append_arr (str_ops :: (byte list, byte list, str_col, string) of_ops) u8_ops [[(''a'', 1), (''b'', 2)], []]
      \<lparr>mc_name = ''m'', mc_offsets = [], mc_keys = Some (new_str_col []), mc_values = Some (new_data_col [])\<rparr> = Ok c \<and>
    map_row 24 (str_ops :: (byte list, byte list, str_col, string) of_ops) u8_ops c 0 = Ok [(''a'', 1), (''b'', 2)] \<and>
    map_encode (str_ops :: (byte list, byte list, str_col, string) of_ops) u8_ops list_buffer c [] = Ok [2, 2, 1, 97, 1, 98, 1, 2] \<and>
    map_decode (str_ops :: (byte list, byte list, str_col, string) of_ops) u8_ops list_reader
      \<lparr>mc_name = ''m'', mc_offsets = [], mc_keys = Some (new_str_col []), mc_values = Some (new_data_col [])\<rparr> 2
      [2, 2, 1, 97, 1, 98, 1, 2] = (Ok c', []) \<and>
    map_row 24 (str_ops :: (byte list, byte list, str_col, string) of_ops) u8_ops c' 0 = Ok [(''a'', 1), (''b'', 2)]"
proof -
  let ?c = "\<lparr>mc_name = ''m'', mc_offsets = [], mc_keys = Some (new_str_col []), mc_values = Some (new_data_col [])\<rparr>"
  let ?vs = "[[(''a'', 1 :: byte), (''b'', 2)], []]" and ?I = "str_ops :: (byte list, byte list, str_col, string) of_ops"
  have v: "\<forall>es \<in> set ?vs. length es < 2 ^ 63 \<and> (\<forall>(x, y) \<in> set es. True \<and> True)" by simp
  have sz: "(24 :: nat) \<le> 256" by simp
  have c: "mc_keys ?c = Some (new_str_col [])" "mc_values ?c = Some (new_data_col [])" "mc_offsets ?c = []" by simp_all
  have s: "sc_data (new_str_col []) = []" "dc_data (new_data_col [] :: byte data_col) = []"
    by (simp_all add: new_str_col_def new_data_col_def)
  note R = map_roundtrip [where a = "new_str_col []" and b = "new_data_col []" and ?a0.0 = "new_str_col []" and ?b0.0 = "new_data_col []"
      and c = ?c and d = ?c and sz = 24, OF str_col.of_column_axioms uint8_col.col.of_column_axioms sz c TrueI s(1) TrueI s(2)
        c(1,2) TrueI s(1) TrueI TrueI s(2) TrueI v list_reader_ok list_buffer_ok]
  from R obtain c1 and a1 :: str_col and b1 :: "byte data_col" where c1: "map_append_arr ?I u8_ops ?vs ?c = Ok c1" "mc_offsets c1 = end_offsets 0 ?vs"
      "sc_data a1 = map ((\<lambda>v. v) \<circ> fst) (concat ?vs)" "dc_data b1 = map ((\<lambda>v. v) \<circ> snd) (concat ?vs)"
    and r: "let bs = offs_image (mc_offsets c1) @ str_image (sc_data a1) @ data_image uint8_t (dc_data b1) in length bs < 2 ^ 40 \<longrightarrow>
      (\<forall>i < length ?vs. map_row 24 ?I u8_ops c1 (int i) = Ok (map (map_prod (\<lambda>v. v) (\<lambda>v. v)) (?vs ! i))) \<and>
      (\<forall>b. map_encode ?I u8_ops list_buffer c1 b = Ok (b @ bs)) \<and>
      (\<exists>c2. yields id (map_decode ?I u8_ops list_reader ?c (int (length ?vs))) bs c2 \<and> map_len c2 = length ?vs \<and>
        (\<forall>i < length ?vs. map_row 24 ?I u8_ops c2 (int i) = map_row 24 ?I u8_ops c1 (int i)))"
    by (elim exE conjE) (rule that)
  have w: "offs_image (mc_offsets c1) @ str_image (sc_data a1) @ data_image uint8_t (dc_data b1) = [2, 2, 1, 97, 1, 98, 1, 2]"
    by (simp add: c1(2-4) str_bytes_def word_layout_sel)
  from r obtain c2 where
    c2: "yields id (map_decode ?I u8_ops list_reader ?c (int (length ?vs))) [2, 2, 1, 97, 1, 98, 1, 2] c2"
      "\<forall>i < length ?vs. map_row 24 ?I u8_ops c2 (int i) = map_row 24 ?I u8_ops c1 (int i)"
    and c0: "\<forall>i < length ?vs. map_row 24 ?I u8_ops c1 (int i) = Ok (map (map_prod (\<lambda>v. v) (\<lambda>v. v)) (?vs ! i))"
      "\<forall>b. map_encode ?I u8_ops list_buffer c1 b = Ok (b @ [2, 2, 1, 97, 1, 98, 1, 2])"
    unfolding Let_def w by auto
  have "id [2, 2, 1, 97, 1, 98, 1, 2] = [2, 2, 1, 97, 1, 98, 1, 2 :: byte] @ []" by simp
  from yieldsD [OF c2(1) this]
  have "map_decode ?I u8_ops list_reader ?c 2 [2, 2, 1, 97, 1, 98, 1, 2] = (Ok c2, [])" by simp
  moreover have "map_row 24 ?I u8_ops c1 0 = Ok [(''a'', 1), (''b'', 2)]" "map_row 24 ?I u8_ops c2 0 = Ok [(''a'', 1), (''b'', 2)]"
    using c0(1) [rule_format, of 0] c2(2) [rule_format, of 0] by simp_all
  ultimately show ?thesis using c1(1) c0(2) by (intro exI [of _ c1] exI [of _ c2]) simp
qed

text \<open>
  C32. The parameters of a Map type are split at the first comma outside parentheses:
  \<open>Map(k, v)\<close> gives \<open>k\<close> and \<open>v\<close> for every \<open>k\<close> whose commas are all enclosed in balanced
  parentheses, whatever commas \<open>v\<close> contains; a type with a single parameter is an error.
\<close>

theorem parse_map_types:
  assumes C: "ctypes_ok C" and k: "k \<noteq> []" "plain (hd k)" "plain (last k)" "enclosed (CHR '','') 0 k" "depth_after 0 k = 0"
    and v: "v \<noteq> []" "plain (hd v)" "plain (last v)"
  shows "parseMapTypes C (ct_with C (ct_name C CT_Map) [k, v]) = Ok (k, v) \<and>
    parseMapTypes C (ct_with C (ct_name C CT_Map) [k]) = Err (Errorf ''invalid Map type'')"
proof
  have "splitAtDepth0 (k @ CHR '','' # CHR '' '' # v) (CHR '','') = (k, CHR '' '' # v)"
    unfolding splitAtDepth0_def by (rule split_depth_append) (use k in simp_all)
  moreover have "trim_space k = k" "trim_space (CHR '' '' # v) = v"
    using k v trim_space_id [of k] trim_space_id [of v] by (simp_all add: trim_space_blank)
  ultimately show "parseMapTypes C (ct_with C (ct_name C CT_Map) [k, v]) = Ok (k, v)"
    using k v by (simp add: parseMapTypes_def ct_elem_with [OF C])
  have "splitAtDepth0 k (CHR '','') = (k, [])"
    unfolding splitAtDepth0_def by (rule split_depth_none) (use k in simp_all)
  then show "parseMapTypes C (ct_with C (ct_name C CT_Map) [k]) = Err (Errorf ''invalid Map type'')"
    using k by (simp add: parseMapTypes_def ct_elem_with [OF C] trim_space_id)
qed

theorem parse_map_types_witness:
  "parseMapTypes list_ctypes ''Map(Decimal(10, 2), Map(String, UInt8))'' = Ok (''Decimal(10, 2)'', ''Map(String, UInt8)'')"
proof -
  have "plain (hd ''Decimal(10, 2)'') \<and> plain (last ''Decimal(10, 2)'') \<and> enclosed (CHR '','') 0 ''Decimal(10, 2)'' \<and>
      depth_after 0 ''Decimal(10, 2)'' = 0 \<and> plain (hd ''Map(String, UInt8)'') \<and> plain (last ''Map(String, UInt8)'')"
    by code_simp
  moreover have "ct_with list_ctypes (ct_name list_ctypes CT_Map) [''Decimal(10, 2)'', ''Map(String, UInt8)''] =
      ''Map(Decimal(10, 2), Map(String, UInt8))''"
    by (simp add: lc_with_def)
  ultimately show ?thesis
    using parse_map_types [OF list_ctypes_ok, of "''Decimal(10, 2)''" "''Map(String, UInt8)''"] by auto
qed

text \<open>The ClickHouse types whose data each new column stands for.\<close>

fun nc_stands_for :: "newcol \<Rightarrow> ctconst list" where
  "nc_stands_for (NC_Base k) = (case base_const k of Some c \<Rightarrow> [c] | None \<Rightarrow> [])"
| "nc_stands_for NC_Str = [CT_String]"
| "nc_stands_for NC_Enum8 = [CT_Enum8]"
| "nc_stands_for NC_Enum16 = [CT_Enum16]"
| "nc_stands_for NC_Decimal32 = [CT_Decimal32]"
| "nc_stands_for NC_Decimal64 = [CT_Decimal64]"
| "nc_stands_for NC_Decimal128 = [CT_Decimal, CT_Decimal128]"
| "nc_stands_for NC_Decimal256 = [CT_Decimal256]"
| "nc_stands_for NC_Int128 = [CT_Int128]"
| "nc_stands_for NC_UInt128 = [CT_UInt128]"
| "nc_stands_for NC_Int256 = [CT_Int256]"
| "nc_stands_for NC_UInt256 = [CT_UInt256]"
| "nc_stands_for NC_UUID = [CT_UUID]"
| "nc_stands_for NC_Date = [CT_Date]"
| "nc_stands_for NC_Date32 = [CT_Date32]"
| "nc_stands_for NC_DateTime = [CT_DateTime]"
| "nc_stands_for NC_DateTime64 = [CT_DateTime64]"

text \<open>
  The table of \<open>newColumnOf\<close>: a column it returns stands for the ClickHouse type asked for;
  it panics exactly for a Go \<open>string\<close> with FixedString and a \<open>net.IP\<close> with IPv4 or IPv6, and
  every other combination is an error. A Map whose keys or values have type Date, Date32 or
  DateTime can therefore never be inferred.
\<close>

theorem newColumnOf_table:
  "(\<forall>n. newColumnOf C g t = Ok n \<longrightarrow> (\<exists>k \<in> set (nc_stands_for n). ct_base C t = ct_name C k)) \<and>
   (is_panic (newColumnOf C g t) \<longleftrightarrow>
      g = G_string \<and> ct_base C t = ct_name C CT_FixedString \<and> ct_name C CT_FixedString \<noteq> ct_name C CT_String \<or>
      g = G_ip \<and> ct_base C t \<in> {ct_name C CT_IPv4, ct_name C CT_IPv6}) \<and>
   (g = G_time \<longrightarrow> ctypes_ok C \<longrightarrow> ct_base C t \<noteq> ct_name C CT_DateTime64 \<longrightarrow>
      (\<exists>e. map_infer_one C side mk infr g t = Err e))"
proof (intro conjI allI impI)
  fix n assume "newColumnOf C g t = Ok n"
  then show "\<exists>k \<in> set (nc_stands_for n). ct_base C t = ct_name C k"
    by (cases g) (auto simp: newColumnOf_def Let_def expect_base_def split: if_splits option.splits)
next
  show "is_panic (newColumnOf C g t) \<longleftrightarrow>
      g = G_string \<and> ct_base C t = ct_name C CT_FixedString \<and> ct_name C CT_FixedString \<noteq> ct_name C CT_String \<or>
      g = G_ip \<and> ct_base C t \<in> {ct_name C CT_IPv4, ct_name C CT_IPv6}"
    by (cases g) (auto simp: newColumnOf_def Let_def expect_base_def split: option.splits)
next
  assume "g = G_time" "ct_base C t \<noteq> ct_name C CT_DateTime64"
  then show "\<exists>e. map_infer_one C side mk infr g t = Err e"
    by (auto simp: map_infer_one_def newColumnOf_def Let_def nc_has_infer_def)
qed

theorem newColumnOf_table_witness:
  "is_panic (newColumnOf list_ctypes G_string ''FixedString(8)'') \<and>
   (\<exists>e. map_infer_one list_ctypes ''keys'' (\<lambda>n. n) (\<lambda>_ _. Ok) G_time ''DateTime'' = Err e)"
proof -
  have "ct_base list_ctypes ''FixedString(8)'' = ''FixedString''" "ct_base list_ctypes ''DateTime'' = ''DateTime''"
    by (simp_all add: list_ctypes_def)
  then show ?thesis
    using newColumnOf_table [of list_ctypes G_string "''FixedString(8)''" "''keys''" "\<lambda>n. n" "\<lambda>_ _. Ok"]
      newColumnOf_table [of list_ctypes G_time "''DateTime''" "''keys''" "\<lambda>n. n" "\<lambda>_ _. Ok"] list_ctypes_ok by auto
qed

end
