(* ===== verification/Wide_Ints.thy ===== *)
theory Wide_Ints
  imports Map_Column
begin

text \<open>
  The 128- and 256-bit integers of \<^verbatim>\<open>column/int128.go\<close>, \<^verbatim>\<open>int256.go\<close>, \<^verbatim>\<open>uint128.go\<close> and
  \<^verbatim>\<open>uint256.go\<close>: pairs of halves with their conversions from and to \<open>big.Int\<close>, comparison,
  negation and hexadecimal text, and their columns over the shared fixed-width helpers. A
  \<open>*big.Int\<close> is an \<open>int option\<close> (nil is \<open>None\<close>).
\<close>

record w128 =
  lo64 :: u64
  hi64 :: u64

record w256 =
  lo128 :: w128
  hi128 :: w128

definition mk128 :: "u64 \<Rightarrow> u64 \<Rightarrow> w128" where
  "mk128 lo hi = \<lparr> lo64 = lo, hi64 = hi \<rparr>"

definition mk256 :: "w128 \<Rightarrow> w128 \<Rightarrow> w256" where
  "mk256 lo hi = \<lparr> lo128 = lo, hi128 = hi \<rparr>"

text \<open>\<open>x & 0x8000000000000000 != 0\<close>\<close>

definition sign64 :: "u64 \<Rightarrow> bool" where
  "sign64 x \<longleftrightarrow> x AND 0x8000000000000000 \<noteq> 0"

section \<open>Negation\<close>

definition neg128 :: "w128 \<Rightarrow> w128" where
  "neg128 v = (let lo = NOT (lo64 v) + 1; hi = NOT (hi64 v)
               in mk128 lo (if lo = 0 then hi + 1 else hi))"

definition neg256 :: "w256 \<Rightarrow> w256" where
  "neg256 v =
     (let lolo = NOT (lo64 (lo128 v)) + 1;
          lohi = NOT (hi64 (lo128 v)) + (if lolo = 0 then 1 else 0);
          hilo = NOT (lo64 (hi128 v)) + (if lolo = 0 \<and> lohi = 0 then 1 else 0);
          hihi = NOT (hi64 (hi128 v)) + (if lolo = 0 \<and> lohi = 0 \<and> hilo = 0 then 1 else 0)
      in mk256 (mk128 lolo lohi) (mk128 hilo hihi))"

section \<open>Hexadecimal text\<close>

definition hex_digit :: "nat \<Rightarrow> char" where
  "hex_digit d = (if d < 10 then char_of (48 + d) else char_of (87 + d))"

fun hex_pad :: "nat \<Rightarrow> nat \<Rightarrow> string" where
  "hex_pad 0 n = []"
| "hex_pad (Suc k) n = hex_pad k (n div 16) @ [hex_digit (n mod 16)]"

text \<open>\<open>fmt.Sprintf("%016x", x)\<close>\<close>

definition hex64 :: "u64 \<Rightarrow> string" where
  "hex64 x = hex_pad 16 (unat x)"

definition hex128 :: "u64 \<Rightarrow> u64 \<Rightarrow> string" where
  "hex128 hi lo = hex64 hi @ hex64 lo"

definition hex256 :: "w128 \<Rightarrow> w128 \<Rightarrow> string" where
  "hex256 hi lo = hex64 (hi64 hi) @ hex64 (lo64 hi) @ hex64 (hi64 lo) @ hex64 (lo64 lo)"

definition int128_string :: "w128 \<Rightarrow> string" where
  "int128_string v = (if sign64 (hi64 v) then ''-0x'' @ hex128 (hi64 (neg128 v)) (lo64 (neg128 v))
                      else ''0x'' @ hex128 (hi64 v) (lo64 v))"

definition int256_string :: "w256 \<Rightarrow> string" where
  "int256_string v = (if sign64 (hi64 (hi128 v)) then ''-0x'' @ hex256 (hi128 (neg256 v)) (lo128 (neg256 v))
                      else ''0x'' @ hex256 (hi128 v) (lo128 v))"

definition uint128_string :: "w128 \<Rightarrow> string" where
  "uint128_string v = ''0x'' @ hex64 (hi64 v) @ hex64 (lo64 v)"

definition uint256_string :: "w256 \<Rightarrow> string" where
  "uint256_string v = ''0x'' @ hex64 (hi64 (hi128 v)) @ hex64 (lo64 (hi128 v)) @ hex64 (hi64 (lo128 v)) @ hex64 (lo64 (lo128 v))"

section \<open>Comparison\<close>

definition uint128_cmp :: "w128 \<Rightarrow> w128 \<Rightarrow> int" where
  "uint128_cmp v x =
     (if hi64 v \<noteq> hi64 x then if hi64 v < hi64 x then -1 else 1
      else if lo64 v \<noteq> lo64 x then if lo64 v < lo64 x then -1 else 1
      else 0)"

definition int128_cmp :: "w128 \<Rightarrow> w128 \<Rightarrow> int" where
  "int128_cmp v x =
     (if sign64 (hi64 v) \<noteq> sign64 (hi64 x) then if sign64 (hi64 v) then -1 else 1
      else if hi64 v \<noteq> hi64 x then if hi64 v < hi64 x then -1 else 1
      else if lo64 v \<noteq> lo64 x then if lo64 v < lo64 x then -1 else 1
      else 0)"

definition uint256_cmp :: "w256 \<Rightarrow> w256 \<Rightarrow> int" where
  "uint256_cmp v x = (if uint128_cmp (hi128 v) (hi128 x) \<noteq> 0 then uint128_cmp (hi128 v) (hi128 x)
                      else uint128_cmp (lo128 v) (lo128 x))"

definition int256_cmp :: "w256 \<Rightarrow> w256 \<Rightarrow> int" where
  "int256_cmp v x =
     (if sign64 (hi64 (hi128 v)) \<noteq> sign64 (hi64 (hi128 x)) then if sign64 (hi64 (hi128 v)) then -1 else 1
      else if int128_cmp (hi128 v) (hi128 x) \<noteq> 0 then int128_cmp (hi128 v) (hi128 x)
      else int128_cmp (lo128 v) (lo128 x))"

section \<open>Conversion from and to big.Int\<close>

text \<open>\<open>Bytes\<close>: the big-endian magnitude without leading zeros; \<open>SetBytes\<close> reads such bytes.\<close>

fun le_min :: "nat \<Rightarrow> byte list" where
  "le_min n = (if n = 0 then [] else word_of_nat n # le_min (n div 256))"

declare le_min.simps [simp del]

definition big_bytes :: "int \<Rightarrow> byte list" where
  "big_bytes n = rev (le_min (nat \<bar>n\<bar>))"

definition set_bytes :: "byte list \<Rightarrow> int" where
  "set_bytes bs = int (le_dec (rev bs))"

text \<open>\<open>byte(x)\<close>, \<open>byte(x >> 8)\<close>, \<dots>, \<open>byte(x >> 56)\<close>\<close>

definition putLE64 :: "u64 \<Rightarrow> byte list" where
  "putLE64 x = map (\<lambda>k. ucast (drop_bit (8 * k) x)) [0..<8]"

definition putLE128 :: "w128 \<Rightarrow> byte list" where
  "putLE128 v = putLE64 (lo64 v) @ putLE64 (hi64 v)"

text \<open>\<open>uint64(buf[0]) | uint64(buf[1])<<8 | \<dots> | uint64(buf[7])<<56\<close>\<close>

fun or_bytes :: "nat \<Rightarrow> u64 \<Rightarrow> byte list \<Rightarrow> u64" where
  "or_bytes s x [] = x"
| "or_bytes s x (b # bs) = or_bytes (s + 8) (x OR push_bit s (ucast b)) bs"

definition readLE64 :: "byte list \<Rightarrow> u64" where
  "readLE64 buf = or_bytes 0 0 (take 8 buf)"

definition int128_ToBigInt :: "w128 \<Rightarrow> int" where
  "int128_ToBigInt v = (let bi = set_bytes (rev (putLE128 v))
                        in if sign64 (hi64 v) then bi - 2 ^ 128 else bi)"

definition uint128_ToBigInt :: "w128 \<Rightarrow> int" where
  "uint128_ToBigInt v = set_bytes (rev (putLE128 v))"

definition int256_ToBigInt :: "w256 \<Rightarrow> int" where
  "int256_ToBigInt v = (let bi = set_bytes (rev (putLE128 (lo128 v) @ putLE128 (hi128 v)))
                        in if sign64 (hi64 (hi128 v)) then bi - 2 ^ 256 else bi)"

definition uint256_ToBigInt :: "w256 \<Rightarrow> int" where
  "uint256_ToBigInt v = set_bytes (rev (putLE128 (lo128 v) @ putLE128 (hi128 v)))"

text \<open>The magnitude in \<open>n\<close> bytes, least significant first, when it fits.\<close>

definition mag_bytes :: "nat \<Rightarrow> int \<Rightarrow> byte list option" where
  "mag_bytes n bi = (let b = big_bytes bi in
     if n < length b then None else Some (rev (replicate (n - length b) 0 @ b)))"

definition Int128FromBigInt :: "int option \<Rightarrow> w128 go" where
  "Int128FromBigInt bi = (case bi of None \<Rightarrow> Err (Errorf ''nil *big.Int'')
     | Some n \<Rightarrow> (case mag_bytes 16 n of None \<Rightarrow> Err (Errorf ''Int128 value out of range'')
       | Some be \<Rightarrow> let v = mk128 (readLE64 be) (readLE64 (drop 8 be)) in
           if n < 0
           then if \<not> sign64 (hi64 (neg128 v)) then Err (Errorf ''Int128 value out of range'') else Ok (neg128 v)
           else if sign64 (hi64 v) then Err (Errorf ''Int128 value out of range'') else Ok v))"

definition UInt128FromBigInt :: "int option \<Rightarrow> w128 go" where
  "UInt128FromBigInt bi = (case bi of None \<Rightarrow> Err (Errorf ''nil *big.Int'')
     | Some n \<Rightarrow> if n < 0 then Err (Errorf ''UInt128 cannot be negative'')
       else (case mag_bytes 16 n of None \<Rightarrow> Err (Errorf ''UInt128 value out of range'')
         | Some be \<Rightarrow> Ok (mk128 (readLE64 be) (readLE64 (drop 8 be)))))"

definition read256 :: "byte list \<Rightarrow> w256" where
  "read256 be = mk256 (mk128 (readLE64 be) (readLE64 (drop 8 be))) (mk128 (readLE64 (drop 16 be)) (readLE64 (drop 24 be)))"

definition Int256FromBigInt :: "int option \<Rightarrow> w256 go" where
  "Int256FromBigInt bi = (case bi of None \<Rightarrow> Err (Errorf ''nil *big.Int'')
     | Some n \<Rightarrow> (case mag_bytes 32 n of None \<Rightarrow> Err (Errorf ''Int256 value out of range'')
       | Some be \<Rightarrow> let v = read256 be in
           if n < 0
           then if \<not> sign64 (hi64 (hi128 (neg256 v))) then Err (Errorf ''Int256 value out of range'') else Ok (neg256 v)
           else if sign64 (hi64 (hi128 v)) then Err (Errorf ''Int256 value out of range'') else Ok v))"

definition UInt256FromBigInt :: "int option \<Rightarrow> w256 go" where
  "UInt256FromBigInt bi = (case bi of None \<Rightarrow> Err (Errorf ''nil *big.Int'')
     | Some n \<Rightarrow> if n < 0 then Err (Errorf ''UInt256 cannot be negative'')
       else (case mag_bytes 32 n of None \<Rightarrow> Err (Errorf ''UInt256 value out of range'')
         | Some be \<Rightarrow> Ok (read256 be)))"

section \<open>Values\<close>

text \<open>The number a pair of halves stands for, unsigned and in two's complement.\<close>

definition val128 :: "w128 \<Rightarrow> nat" where
  "val128 v = unat (lo64 v) + 2 ^ 64 * unat (hi64 v)"

definition val256 :: "w256 \<Rightarrow> nat" where
  "val256 v = val128 (lo128 v) + 2 ^ 128 * val128 (hi128 v)"

definition sval128 :: "w128 \<Rightarrow> int" where
  "sval128 v = (if val128 v < 2 ^ 127 then int (val128 v) else int (val128 v) - 2 ^ 128)"

definition sval256 :: "w256 \<Rightarrow> int" where
  "sval256 v = (if val256 v < 2 ^ 255 then int (val256 v) else int (val256 v) - 2 ^ 256)"

lemma unat64: "unat (x :: u64) < 2 ^ 64"
  using unsigned_less [of x, where ?'a = nat] by simp

lemma val128_less: "val128 v < 2 ^ 128"
  using unat64 [of "lo64 v"] unat64 [of "hi64 v"] by (simp add: val128_def)

lemma val256_less: "val256 v < 2 ^ 256"
  using val128_less [of "lo128 v"] val128_less [of "hi128 v"] by (simp add: val256_def)

lemma sign64_iff: "sign64 x \<longleftrightarrow> 2 ^ 63 \<le> unat x"
proof -
  have "(0x8000000000000000 :: u64) = 2 ^ 63" by simp
  then have "sign64 x \<longleftrightarrow> bit x 63"
    by (simp only: sign64_def and_exp_eq_0_iff_not_bit not_not)
  also have "\<dots> \<longleftrightarrow> bit (unat x) 63" by (simp add: bit_unsigned_iff)
  also have "\<dots> \<longleftrightarrow> odd (unat x div 2 ^ 63)" by (simp only: bit_iff_odd)
  also have "unat x div 2 ^ 63 = (if 2 ^ 63 \<le> unat x then 1 else 0)"
    using unat64 [of x] by (auto simp: div_eq_0_iff not_le div_nat_eqI)
  finally show ?thesis by simp
qed

lemma NOT_unat: "unat (NOT (x :: u64)) = 2 ^ 64 - 1 - unat x"
proof -
  have "NOT x = - 1 - x" by (simp add: not_eq_complement)
  then have "unat (NOT x) = unat (- 1 :: u64) - unat x" by (simp only: unat_sub word_order.extremum)
  moreover have "unat (- 1 :: u64) = 2 ^ 64 - 1" by (simp add: unsigned_minus_1_eq_mask mask_eq_exp_minus_1)
  ultimately show ?thesis by simp
qed

lemma unat_add1: "unat (x + 1 :: u64) = (if unat x = 2 ^ 64 - 1 then 0 else unat x + 1)"
proof -
  have "unat (x + 1) = (unat x + 1) mod 2 ^ 64" by (simp add: unat_word_ariths)
  then show ?thesis using unat64 [of x] by auto
qed

lemma val128_neg: "val128 (neg128 v) = (if val128 v = 0 then 0 else 2 ^ 128 - val128 v)"
  using unat64 [of "lo64 v"] unat64 [of "hi64 v"]
  by (auto simp: val128_def neg128_def mk128_def Let_def NOT_unat unat_add1 word_unat_eq_iff [of _ 0] split: if_splits)

lemma val128_eq_0: "val128 v = 0 \<longleftrightarrow> lo64 v = 0 \<and> hi64 v = 0"
  by (auto simp: val128_def unsigned_eq_0_iff)

lemma neg256_halves:
  "lo128 (neg256 v) = neg128 (lo128 v)"
  "hi128 (neg256 v) = (if val128 (lo128 v) = 0 then neg128 (hi128 v)
     else mk128 (NOT (lo64 (hi128 v))) (NOT (hi64 (hi128 v))))"
  by (simp_all add: neg256_def neg128_def mk256_def mk128_def Let_def val128_eq_0 not_eq_complement)

lemma val256_neg: "val256 (neg256 v) = (if val256 v = 0 then 0 else 2 ^ 256 - val256 v)"
proof -
  have n: "val128 (mk128 (NOT (lo64 w)) (NOT (hi64 w))) = 2 ^ 128 - 1 - val128 w" for w
    using unat64 [of "lo64 w"] unat64 [of "hi64 w"] by (simp add: val128_def mk128_def NOT_unat)
  show ?thesis
    using val128_less [of "lo128 v"] val128_less [of "hi128 v"]
    by (auto simp: val256_def neg256_halves val128_neg n)
qed

lemma sign_val128: "sign64 (hi64 v) \<longleftrightarrow> 2 ^ 127 \<le> val128 v"
  using unat64 [of "lo64 v"] by (auto simp: sign64_iff val128_def)

lemma sign_val256: "sign64 (hi64 (hi128 v)) \<longleftrightarrow> 2 ^ 255 \<le> val256 v"
  using val128_less [of "lo128 v"] by (auto simp: sign_val128 val256_def)

section \<open>Bytes\<close>

lemma le_dec_append: "le_dec (xs @ ys) = le_dec xs + 256 ^ length xs * le_dec ys"
  by (induction xs) (simp_all add: algebra_simps)

lemma le_dec_zeros [simp]: "le_dec (xs @ replicate k 0) = le_dec xs"
proof -
  have "le_dec (replicate k 0) = 0" by (induction k) simp_all
  then show ?thesis by (simp add: le_dec_append)
qed

lemma le_dec_le_min [simp]: "le_dec (le_min n) = n"
proof (induction n rule: le_min.induct)
  case (1 n)
  then show ?case by (subst le_min.simps) (simp add: unat_byte_of_nat)
qed

lemma length_le_min: "length (le_min n) \<le> k \<longleftrightarrow> n < 256 ^ k"
proof (induction n arbitrary: k rule: le_min.induct)
  case (1 n)
  show ?case
  proof (cases "n = 0")
    case False
    then show ?thesis
    proof (cases k)
      case (Suc j)
      then show ?thesis using False 1 [of j]
        by (subst le_min.simps) (simp add: div_less_iff_less_mult mult.commute)
    qed (simp add: le_min.simps [of n])
  qed (simp add: le_min.simps [of 0])
qed

lemma mag_bytes_eq:
  "mag_bytes n bi = (if nat \<bar>bi\<bar> < 256 ^ n
     then Some (le_min (nat \<bar>bi\<bar>) @ replicate (n - length (le_min (nat \<bar>bi\<bar>))) 0) else None)"
  using length_le_min [of "nat \<bar>bi\<bar>" n] by (auto simp: mag_bytes_def big_bytes_def Let_def)

lemma or_bytes_unat:
  "unat x < 2 ^ s \<Longrightarrow> s + 8 * length bs \<le> 64 \<Longrightarrow> unat (or_bytes s x bs) = unat x + le_dec bs * 2 ^ s"
proof (induction bs arbitrary: s x)
  case (Cons b bs)
  have b: "unat b < 256" by (rule unat_byte_less)
  have x: "x OR push_bit s (ucast b) = word_of_nat (unat x + unat b * 2 ^ s)"
    using str_step_word [of "unat x" s b] Cons.prems by simp
  have "unat x + unat b * 2 ^ s < 2 ^ s + 255 * 2 ^ s"
    using Cons.prems(1) b by (intro add_less_le_mono mult_right_mono) simp_all
  then have l: "unat x + unat b * 2 ^ s < 2 ^ (s + 8)" by (simp add: power_add)
  have "(2::nat) ^ (s + 8) \<le> 2 ^ 64" using Cons.prems(2) by (intro power_increasing) simp_all
  with l have "unat (word_of_nat (unat x + unat b * 2 ^ s) :: u64) = unat x + unat b * 2 ^ s"
    by (simp only: unat_of_nat) simp
  with Cons.IH [of "x OR push_bit s (ucast b)" "s + 8"] Cons.prems(2) l show ?case
    by (simp add: x power_add algebra_simps del: of_nat_add of_nat_mult)
qed simp

lemma readLE64_unat: "unat (readLE64 bs) = le_dec (take 8 bs)"
  using or_bytes_unat [of 0 0 "take 8 bs"] by (simp add: readLE64_def)

lemma le_dec_split: "le_dec bs = le_dec (take n bs) + 256 ^ min n (length bs) * le_dec (drop n bs)"
  using le_dec_append [of "take n bs" "drop n bs"] by (simp add: min.commute)

lemma val128_read: "length be = 16 \<Longrightarrow> val128 (mk128 (readLE64 be) (readLE64 (drop 8 be))) = le_dec be"
  using le_dec_split [of be 8] by (simp add: val128_def mk128_def readLE64_unat)

lemma val256_read:
  assumes "length be = 32" shows "val256 (read256 be) = le_dec be"
proof -
  have "val128 (mk128 (readLE64 be) (readLE64 (drop 8 be))) = le_dec (take 16 be)"
    using val128_read [of "take 16 be"] assms by (simp add: readLE64_def drop_take)
  moreover have "val128 (mk128 (readLE64 (drop 16 be)) (readLE64 (drop 24 be))) = le_dec (drop 16 be)"
    using val128_read [of "drop 16 be"] assms by simp
  ultimately show ?thesis
    using le_dec_split [of be 16] assms by (simp add: val256_def read256_def mk256_def)
qed

lemma le_enc_nth: "k < n \<Longrightarrow> le_enc n v ! k = word_of_nat (v div 256 ^ k)"
proof (induction n arbitrary: v k)
  case (Suc n)
  then show ?case by (cases k) (simp_all add: div_mult2_eq)
qed simp

lemma putLE64_eq: "putLE64 x = le_enc 8 (unat x)"
proof (rule nth_equalityI)
  fix k assume "k < length (putLE64 x)"
  then have k: "k < 8" by (simp add: putLE64_def)
  have "(256::nat) ^ k = 2 ^ (8 * k)" by (simp add: power_mult)
  moreover have t: "take_bit 64 (unat x) = unat x" using unat64 by (rule take_bit_nat_eq_self)
  have "unat (drop_bit (8 * k) x) = drop_bit (8 * k) (unat x)"
    by (simp add: unsigned_drop_bit_eq t)
  ultimately have "unat (drop_bit (8 * k) x) = unat x div 256 ^ k"
    by (simp only: drop_bit_eq_div)
  then have "unat (ucast (drop_bit (8 * k) x) :: byte) = unat (word_of_nat (unat x div 256 ^ k) :: byte)"
    by (simp add: unsigned_ucast_eq unat_byte_of_nat take_bit_eq_mod)
  with k show "putLE64 x ! k = le_enc 8 (unat x) ! k"
    by (simp add: putLE64_def le_enc_nth word_unat_eq_iff)
qed (simp add: putLE64_def)

lemma le_dec_put128: "le_dec (putLE128 v) = val128 v" and length_put128 [simp]: "length (putLE128 v) = 16"
  using unat64 [of "lo64 v"] unat64 [of "hi64 v"]
  by (simp_all add: putLE128_def putLE64_eq le_dec_append le_dec_enc val128_def)

lemma le_dec_put256: "le_dec (putLE128 (lo128 v) @ putLE128 (hi128 v)) = val256 v"
  by (simp add: le_dec_append le_dec_put128 val256_def)

section \<open>Properties\<close>

text \<open>\<open>big_int\<close>'s range of a signed type of \<open>n\<close> bits.\<close>

definition fits_signed :: "nat \<Rightarrow> int \<Rightarrow> bool" where
  "fits_signed n i \<longleftrightarrow> - (2 ^ (n - 1)) \<le> i \<and> i < 2 ^ (n - 1)"

lemma int128_big: "int128_ToBigInt v = sval128 v" "uint128_ToBigInt v = int (val128 v)"
  by (simp_all add: int128_ToBigInt_def uint128_ToBigInt_def set_bytes_def le_dec_put128 sval128_def sign_val128 Let_def)

lemma int256_big: "int256_ToBigInt v = sval256 v" "uint256_ToBigInt v = int (val256 v)"
  by (simp_all add: int256_ToBigInt_def uint256_ToBigInt_def set_bytes_def le_dec_put256 sval256_def sign_val256 Let_def)

lemma mag_bytes_cases:
  assumes "mag_bytes k n = m"
  shows "(m = None \<and> 256 ^ k \<le> nat \<bar>n\<bar>) \<or> (\<exists>be. m = Some be \<and> length be = k \<and> le_dec be = nat \<bar>n\<bar> \<and> nat \<bar>n\<bar> < 256 ^ k)"
  using assms length_le_min [of "nat \<bar>n\<bar>" k] by (auto simp: mag_bytes_eq)

lemma sval128_cases:
  "sign64 (hi64 v) \<longleftrightarrow> sval128 v < 0" "fits_signed 128 (sval128 v)"
  "val128 v = nat (if sval128 v < 0 then sval128 v + 2 ^ 128 else sval128 v)"
  using val128_less [of v] by (auto simp: sign_val128 sval128_def fits_signed_def nat_add_distrib)

lemma Int128_core:
  "case Int128FromBigInt (Some n) of Ok v \<Rightarrow> fits_signed 128 n \<and> sval128 v = n
   | Err e \<Rightarrow> \<not> fits_signed 128 n \<and> e = Errorf ''Int128 value out of range'' | Panic m \<Rightarrow> False"
proof -
  consider "mag_bytes 16 n = None" "256 ^ 16 \<le> nat \<bar>n\<bar>"
    | be where "mag_bytes 16 n = Some be" "length be = 16" "le_dec be = nat \<bar>n\<bar>" "nat \<bar>n\<bar> < 256 ^ 16"
    using mag_bytes_cases [OF refl, of 16 n] by auto
  then show ?thesis
  proof cases
    case 1
    then show ?thesis by (auto simp: Int128FromBigInt_def fits_signed_def)
  next
    case 2
    define v where "v = mk128 (readLE64 be) (readLE64 (drop 8 be))"
    have v: "val128 v = nat \<bar>n\<bar>" using val128_read [OF 2(2)] 2(3) by (simp add: v_def)
    show ?thesis
      using 2(4) val128_neg [of v]
      by (auto simp: Int128FromBigInt_def 2(1) Let_def sign_val128 sval128_def fits_signed_def v simp flip: v_def)
  qed
qed

lemma UInt128_core:
  "case UInt128FromBigInt (Some n) of Ok v \<Rightarrow> 0 \<le> n \<and> n < 2 ^ 128 \<and> int (val128 v) = n
   | Err e \<Rightarrow> n < 0 \<or> 2 ^ 128 \<le> n | Panic m \<Rightarrow> False"
  using mag_bytes_cases [OF refl, of 16 n] val128_read
  by (auto simp: UInt128FromBigInt_def nat_le_iff le_nat_iff split: option.splits)

lemma Int256_core:
  "case Int256FromBigInt (Some n) of Ok v \<Rightarrow> fits_signed 256 n \<and> sval256 v = n
   | Err e \<Rightarrow> \<not> fits_signed 256 n \<and> e = Errorf ''Int256 value out of range'' | Panic m \<Rightarrow> False"
proof -
  consider "mag_bytes 32 n = None" "256 ^ 32 \<le> nat \<bar>n\<bar>"
    | be where "mag_bytes 32 n = Some be" "length be = 32" "le_dec be = nat \<bar>n\<bar>" "nat \<bar>n\<bar> < 256 ^ 32"
    using mag_bytes_cases [OF refl, of 32 n] by auto
  then show ?thesis
  proof cases
    case 1
    then show ?thesis by (auto simp: Int256FromBigInt_def fits_signed_def)
  next
    case 2
    define v where "v = read256 be"
    have v: "val256 v = nat \<bar>n\<bar>" using val256_read [OF 2(2)] 2(3) by (simp add: v_def)
    show ?thesis
      using 2(4) val256_neg [of v]
      by (auto simp: Int256FromBigInt_def 2(1) Let_def sign_val256 sval256_def fits_signed_def v simp flip: v_def)
  qed
qed

lemma UInt256_core:
  "case UInt256FromBigInt (Some n) of Ok v \<Rightarrow> 0 \<le> n \<and> n < 2 ^ 256 \<and> int (val256 v) = n
   | Err e \<Rightarrow> n < 0 \<or> 2 ^ 256 \<le> n | Panic m \<Rightarrow> False"
  using mag_bytes_cases [OF refl, of 32 n] val256_read
  by (auto simp: UInt256FromBigInt_def nat_le_iff le_nat_iff split: option.splits)

lemma val128_inj: "val128 v = val128 x \<longleftrightarrow> v = x"
proof
  assume e: "val128 v = val128 x"
  have "val128 v mod 2 ^ 64 = unat (lo64 v)" "val128 v div 2 ^ 64 = unat (hi64 v)" for v
    using unat64 [of "lo64 v"] by (simp_all add: val128_def)
  with e have "unat (lo64 v) = unat (lo64 x)" "unat (hi64 v) = unat (hi64 x)" by metis+
  then show "v = x" by (simp add: word_unat_eq_iff)
qed simp

lemma val256_inj: "val256 v = val256 x \<longleftrightarrow> v = x"
proof
  assume e: "val256 v = val256 x"
  have "val256 v mod 2 ^ 128 = val128 (lo128 v)" "val256 v div 2 ^ 128 = val128 (hi128 v)" for v
    using val128_less [of "lo128 v"] by (simp_all add: val256_def)
  with e have "val128 (lo128 v) = val128 (lo128 x)" "val128 (hi128 v) = val128 (hi128 x)" by metis+
  then show "v = x" by (simp add: val128_inj)
qed simp

lemma sval128_inj: "sval128 v = sval128 x \<longleftrightarrow> v = x"
  using val128_less [of v] val128_less [of x] val128_inj [of v x] by (auto simp: sval128_def split: if_splits)

lemma sval256_inj: "sval256 v = sval256 x \<longleftrightarrow> v = x"
  using val256_less [of v] val256_less [of x] val256_inj [of v x] by (auto simp: sval256_def split: if_splits)

text \<open>
  C18. \<open>Int128FromBigInt\<close>, \<open>Int256FromBigInt\<close> and their unsigned counterparts accept exactly the
  integers of the type's range and give the value whose \<open>ToBigInt\<close> is the argument; every other
  integer, and nil, is an error; none of them panics.
\<close>

theorem wide_int_from_big:
  "(case Int128FromBigInt (Some n) of Ok v \<Rightarrow> fits_signed 128 n \<and> int128_ToBigInt v = n
      | Err e \<Rightarrow> \<not> fits_signed 128 n | Panic m \<Rightarrow> False) \<and>
   (case Int256FromBigInt (Some n) of Ok v \<Rightarrow> fits_signed 256 n \<and> int256_ToBigInt v = n
      | Err e \<Rightarrow> \<not> fits_signed 256 n | Panic m \<Rightarrow> False) \<and>
   (case UInt128FromBigInt (Some n) of Ok v \<Rightarrow> 0 \<le> n \<and> n < 2 ^ 128 \<and> uint128_ToBigInt v = n
      | Err e \<Rightarrow> n < 0 \<or> 2 ^ 128 \<le> n | Panic m \<Rightarrow> False) \<and>
   (case UInt256FromBigInt (Some n) of Ok v \<Rightarrow> 0 \<le> n \<and> n < 2 ^ 256 \<and> uint256_ToBigInt v = n
      | Err e \<Rightarrow> n < 0 \<or> 2 ^ 256 \<le> n | Panic m \<Rightarrow> False) \<and>
   Int128FromBigInt None = Err (Errorf ''nil *big.Int'') \<and> Int256FromBigInt None = Err (Errorf ''nil *big.Int'') \<and>
   UInt128FromBigInt None = Err (Errorf ''nil *big.Int'') \<and> UInt256FromBigInt None = Err (Errorf ''nil *big.Int'')"
proof (intro conjI)
  show "case Int128FromBigInt (Some n) of Ok v \<Rightarrow> fits_signed 128 n \<and> int128_ToBigInt v = n
      | Err e \<Rightarrow> \<not> fits_signed 128 n | Panic m \<Rightarrow> False"
    using Int128_core [of n] by (simp add: int128_big split: go.splits)
  show "case Int256FromBigInt (Some n) of Ok v \<Rightarrow> fits_signed 256 n \<and> int256_ToBigInt v = n
      | Err e \<Rightarrow> \<not> fits_signed 256 n | Panic m \<Rightarrow> False"
    using Int256_core [of n] by (simp add: int256_big split: go.splits)
  show "case UInt128FromBigInt (Some n) of Ok v \<Rightarrow> 0 \<le> n \<and> n < 2 ^ 128 \<and> uint128_ToBigInt v = n
      | Err e \<Rightarrow> n < 0 \<or> 2 ^ 128 \<le> n | Panic m \<Rightarrow> False"
    using UInt128_core [of n] by (simp add: int128_big split: go.splits)
  show "case UInt256FromBigInt (Some n) of Ok v \<Rightarrow> 0 \<le> n \<and> n < 2 ^ 256 \<and> uint256_ToBigInt v = n
      | Err e \<Rightarrow> n < 0 \<or> 2 ^ 256 \<le> n | Panic m \<Rightarrow> False"
    using UInt256_core [of n] by (simp add: int256_big split: go.splits)
qed (simp_all add: Int128FromBigInt_def Int256FromBigInt_def UInt128FromBigInt_def UInt256FromBigInt_def)

lemma fits_sval: "fits_signed 128 (sval128 v)" "fits_signed 256 (sval256 w)"
  using val128_less [of v] val256_less [of w] by (simp_all add: fits_signed_def sval128_def sval256_def)

text \<open>
  The \<open>FromBigInt\<close> functions invert \<open>ToBigInt\<close>: every value survives the round trip.\<close>

theorem wide_int_roundtrip:
  "Int128FromBigInt (Some (int128_ToBigInt v)) = Ok v \<and> UInt128FromBigInt (Some (uint128_ToBigInt v)) = Ok v \<and>
   Int256FromBigInt (Some (int256_ToBigInt w)) = Ok w \<and> UInt256FromBigInt (Some (uint256_ToBigInt w)) = Ok w"
proof (intro conjI)
  show "Int128FromBigInt (Some (int128_ToBigInt v)) = Ok v"
    using Int128_core [of "sval128 v"] fits_sval(1) [of v]
    by (auto simp: int128_big sval128_inj split: go.splits)
  show "Int256FromBigInt (Some (int256_ToBigInt w)) = Ok w"
    using Int256_core [of "sval256 w"] fits_sval(2) [of w]
    by (auto simp: int256_big sval256_inj split: go.splits)
  show "UInt128FromBigInt (Some (uint128_ToBigInt v)) = Ok v"
    using UInt128_core [of "int (val128 v)"] val128_less [of v]
    by (auto simp: int128_big val128_inj split: go.splits)
  show "UInt256FromBigInt (Some (uint256_ToBigInt w)) = Ok w"
    using UInt256_core [of "int (val256 w)"] val256_less [of w]
    by (auto simp: int256_big val256_inj split: go.splits)
qed

lemma sgn_diff_nat: "sgn (int a - int b) = (if a < b then -1 else if a = b then 0 else 1)"
  by (auto simp: sgn_if)

lemma uint128_cmp_val: "uint128_cmp v x = sgn (int (val128 v) - int (val128 x))"
  using unat64 [of "lo64 v"] unat64 [of "lo64 x"]
  unfolding sgn_diff_nat
  by (auto simp: uint128_cmp_def val128_def word_less_nat_alt word_unat_eq_iff)

lemma int128_cmp_val: "int128_cmp v x = sgn (sval128 v - sval128 x)"
proof (cases "sign64 (hi64 v) = sign64 (hi64 x)")
  case True
  then have "int128_cmp v x = uint128_cmp v x" by (simp add: int128_cmp_def uint128_cmp_def)
  with True show ?thesis by (auto simp: uint128_cmp_val sign_val128 sval128_def)
next
  case False
  then show ?thesis
    using sval128_cases [of v] sval128_cases [of x] by (auto simp: int128_cmp_def sgn_if)
qed

lemma uint256_cmp_val: "uint256_cmp v x = sgn (int (val256 v) - int (val256 x))"
  using val128_less [of "lo128 v"] val128_less [of "lo128 x"]
  by (auto simp: uint256_cmp_def uint128_cmp_val val256_def sgn_if)

text \<open>
  \<open>Cmp\<close> of the 128-bit types and of \<open>UInt256\<close> is the sign of the difference of the numbers
  the two values stand for.
\<close>

theorem wide_int_cmp:
  "int128_cmp v x = sgn (int128_ToBigInt v - int128_ToBigInt x) \<and>
   uint128_cmp v x = sgn (uint128_ToBigInt v - uint128_ToBigInt x) \<and>
   uint256_cmp a b = sgn (uint256_ToBigInt a - uint256_ToBigInt b)"
  by (simp add: int128_big int256_big int128_cmp_val uint128_cmp_val uint256_cmp_val)

lemma sval256_halves: "sval256 w = int (val128 (lo128 w)) + 2 ^ 128 * sval128 (hi128 w)"
  using val128_less [of "lo128 w"] by (auto simp: sval256_def val256_def sval128_def)

text \<open>
  C37. \<open>Cmp\<close> of \<open>Int256\<close> compares the low halves as signed numbers: it is the sign of the
  difference exactly when the high halves differ, the low halves are equal, or the top bits of the
  low halves are equal. Otherwise it is wrong, for example 2^127 compares below 0.
\<close>

theorem int256_cmp_correct_iff:
  "(int256_cmp v x = sgn (int256_ToBigInt v - int256_ToBigInt x)) =
     (if hi128 v = hi128 x then sign64 (hi64 (lo128 v)) = sign64 (hi64 (lo128 x)) else True)"
proof (cases "hi128 v = hi128 x")
  case True
  have d: "int256_ToBigInt v - int256_ToBigInt x = int (val128 (lo128 v)) - int (val128 (lo128 x))"
    using True by (simp add: int256_big sval256_halves)
  have c: "int256_cmp v x = sgn (sval128 (lo128 v) - sval128 (lo128 x))"
    using True by (simp add: int256_cmp_def int128_cmp_val)
  show ?thesis
    using True val128_less [of "lo128 v"] val128_less [of "lo128 x"]
    unfolding d c sign_val128 by (auto simp: sval128_def sgn_if)
next
  case False
  then have ne: "sval128 (hi128 v) \<noteq> sval128 (hi128 x)" by (simp add: sval128_inj)
  have "int256_cmp v x = sgn (sval128 (hi128 v) - sval128 (hi128 x))"
    using ne sval128_cases(1) [of "hi128 v"] sval128_cases(1) [of "hi128 x"]
    by (auto simp: int256_cmp_def int128_cmp_val sgn_if)
  also have "\<dots> = sgn (sval256 v - sval256 x)"
    using ne val128_less [of "lo128 v"] val128_less [of "lo128 x"] unfolding sval256_halves sgn_if by auto
  finally show ?thesis using False by (simp add: int256_big)
qed

section \<open>Text\<close>

definition hex_digit_val :: "char \<Rightarrow> nat" where
  "hex_digit_val c = (if (of_char c :: nat) < 58 then of_char c - 48 else of_char c - 87)"

definition hex_val :: "string \<Rightarrow> nat" where
  "hex_val s = foldl (\<lambda>a c. a * 16 + hex_digit_val c) 0 s"

lemma hex_digit_val_digit: "d < 16 \<Longrightarrow> hex_digit_val (hex_digit d) = d"
  by (simp add: hex_digit_val_def hex_digit_def)

lemma hex_val_append: "hex_val (s @ t) = hex_val s * 16 ^ length t + hex_val t"
proof -
  have key: "foldl (\<lambda>a c. a * 16 + hex_digit_val c) x t = x * 16 ^ length t + hex_val t" for x
  proof (induction t arbitrary: x)
    case (Cons c t)
    have "hex_val (c # t) = foldl (\<lambda>a c. a * 16 + hex_digit_val c) (hex_digit_val c) t"
      by (simp add: hex_val_def)
    then have "hex_val (c # t) = hex_digit_val c * 16 ^ length t + hex_val t" by (simp only: Cons)
    then show ?case by (simp add: Cons distrib_right)
  qed (simp add: hex_val_def)
  show ?thesis
    by (simp only: hex_val_def [of "s @ t"] foldl_append key) (simp only: hex_val_def [of s])
qed

lemma hex_pad_props: "length (hex_pad k n) = k" "hex_val (hex_pad k n) = n mod 16 ^ k"
proof (induction k arbitrary: n)
  case (Suc k)
  case 1 show ?case by (simp add: Suc.IH)
  case 2
  have "n mod (16 * 16 ^ k) = 16 * (n div 16 mod 16 ^ k) + n mod 16" by (rule mod_mult2_eq)
  then show ?case
    by (simp add: hex_val_append Suc.IH) (simp add: hex_val_def hex_digit_val_digit mult.commute)
qed (simp_all add: hex_val_def)

lemma hex64_props: "length (hex64 x) = 16" "hex_val (hex64 x) = unat x"
  using unat64 [of x] by (simp_all add: hex64_def hex_pad_props)

lemma hex128_props: "length (hex128 (hi64 v) (lo64 v)) = 32" "hex_val (hex128 (hi64 v) (lo64 v)) = val128 v"
  by (simp_all add: hex128_def hex64_props hex_val_append val128_def)

lemma hex256_props: "length (hex256 (hi128 v) (lo128 v)) = 64" "hex_val (hex256 (hi128 v) (lo128 v)) = val256 v"
  by (simp_all add: hex256_def hex64_props hex_val_append val256_def val128_def)

text \<open>
  \<open>String\<close> is the sign, \<open>0x\<close> and the 32 or 64 hexadecimal digits of the number's magnitude,
  the most negative number included.
\<close>

theorem wide_int_string:
  "(\<exists>ds. int128_string v = (if int128_ToBigInt v < 0 then ''-0x'' else ''0x'') @ ds \<and> length ds = 32 \<and>
      int (hex_val ds) = \<bar>int128_ToBigInt v\<bar>) \<and>
   (\<exists>ds. int256_string w = (if int256_ToBigInt w < 0 then ''-0x'' else ''0x'') @ ds \<and> length ds = 64 \<and>
      int (hex_val ds) = \<bar>int256_ToBigInt w\<bar>) \<and>
   (\<exists>ds. uint128_string v = ''0x'' @ ds \<and> length ds = 32 \<and> int (hex_val ds) = uint128_ToBigInt v) \<and>
   (\<exists>ds. uint256_string w = ''0x'' @ ds \<and> length ds = 64 \<and> int (hex_val ds) = uint256_ToBigInt w)"
proof (intro conjI)
  have "int (val128 (neg128 v)) = - sval128 v" if "sign64 (hi64 v)"
    using that val128_less [of v] by (simp add: sign_val128 val128_neg sval128_def)
  then show "\<exists>ds. int128_string v = (if int128_ToBigInt v < 0 then ''-0x'' else ''0x'') @ ds \<and> length ds = 32 \<and>
      int (hex_val ds) = \<bar>int128_ToBigInt v\<bar>"
    using sval128_cases [of v] hex128_props [of v] hex128_props [of "neg128 v"]
    by (auto simp: int128_string_def int128_big)
  have s: "sign64 (hi64 (hi128 w)) \<longleftrightarrow> sval256 w < 0"
    using val256_less [of w] by (auto simp: sign_val256 sval256_def)
  moreover have "int (val256 (neg256 w)) = - sval256 w" if "sign64 (hi64 (hi128 w))"
    using that val256_less [of w] by (simp add: sign_val256 val256_neg sval256_def)
  moreover have "int (val256 w) = sval256 w" if "\<not> sign64 (hi64 (hi128 w))"
    using that by (simp add: sign_val256 sval256_def)
  ultimately show "\<exists>ds. int256_string w = (if int256_ToBigInt w < 0 then ''-0x'' else ''0x'') @ ds \<and> length ds = 64 \<and>
      int (hex_val ds) = \<bar>int256_ToBigInt w\<bar>"
    using hex256_props [of w] hex256_props [of "neg256 w"]
    by (auto simp: int256_string_def int256_big)
  show "\<exists>ds. uint128_string v = ''0x'' @ ds \<and> length ds = 32 \<and> int (hex_val ds) = uint128_ToBigInt v"
    using hex128_props [of v] by (auto simp: uint128_string_def hex128_def int128_big)
  show "\<exists>ds. uint256_string w = ''0x'' @ ds \<and> length ds = 64 \<and> int (hex_val ds) = uint256_ToBigInt w"
    using hex256_props [of w] by (auto simp: uint256_string_def hex256_def int256_big)
qed

end
