(* ===== verification/Fixed_Columns.thy ===== *)
theory Fixed_Columns
  imports Wide_Ints
begin

text \<open>
  The columns of fixed-width elements other than \<open>BaseColumn\<close>. What their files repeat is
  modelled once: the three ways to code a \<open>Data\<close> slice (\<open>fixed_codec\<close>: the helpers of
  \<^verbatim>\<open>int128.go\<close>; \<open>raw_codec\<close>: the loop-free copies of \<^verbatim>\<open>date.go\<close>, \<^verbatim>\<open>ipv4.go\<close>, \<^verbatim>\<open>ipv6.go\<close> and
  \<^verbatim>\<open>uuid.go\<close>; \<open>u32_codec\<close>: the element loop of \<^verbatim>\<open>datetime.go\<close>), columns that store what
  they are given (\<open>plain_ops\<close>) and columns that convert a Go value to its stored form and back
  (\<open>conv_ops\<close>). The locales \<open>codec\<close> and \<open>conv_column\<close> are the contracts between them.
\<close>

section \<open>Coding a slice\<close>

record ('r, 'w, 't) codec =
  cd_decode :: "'r preader \<Rightarrow> int \<Rightarrow> ('r, 't list) rdm"
  cd_encode :: "pbuffer \<Rightarrow> 't list \<Rightarrow> byte list \<Rightarrow> byte list go"
  cd_write :: "'w pwriter \<Rightarrow> pbuffer \<Rightarrow> 't list \<Rightarrow> 'w \<Rightarrow> 'w"

definition fixed_codec :: "'t gotype \<Rightarrow> ('r, 'w, 't) codec" where
  "fixed_codec T = \<lparr>
     cd_decode = (\<lambda>P rows. decodeFixed T P rows (gt_size T)),
     cd_encode = (\<lambda>B data. encodeFixed T data (gt_size T)),
     cd_write = (\<lambda>W B data. writeFixed T data (gt_size T) W) \<rparr>"

definition rawDecode :: "'t gotype \<Rightarrow> 'r preader \<Rightarrow> int \<Rightarrow> ('r, 't list) rdm" where
  "rawDecode T P rows =
     (if rows = 0 then rret []
      else rbind (rlift (go_make (gt_size T) rows rows)) (\<lambda>_.
           rbind (rd_full P (nat (rows * int (gt_size T)))) (\<lambda>dest.
           rret (data_of T (nat rows) dest))))"

definition rawEncode :: "'t gotype \<Rightarrow> 't list \<Rightarrow> byte list \<Rightarrow> byte list" where
  "rawEncode T data b = (if data = [] then b else b @ data_image T data)"

definition raw_codec :: "'t gotype \<Rightarrow> ('r, 'w, 't) codec" where
  "raw_codec T = \<lparr>
     cd_decode = rawDecode T,
     cd_encode = (\<lambda>B data b. Ok (rawEncode T data b)),
     cd_write = (\<lambda>W B data w. chain_buffer W (rawEncode T data) w) \<rparr>"

fun u32_read :: "'r preader \<Rightarrow> nat \<Rightarrow> ('r, u32 list) rdm" where
  "u32_read P 0 = rret []"
| "u32_read P (Suc k) = rbind (rd_uint32 P) (\<lambda>v. rbind (u32_read P k) (\<lambda>vs. rret (v # vs)))"

definition u32_decode :: "'r preader \<Rightarrow> int \<Rightarrow> ('r, u32 list) rdm" where
  "u32_decode P rows =
     (if rows = 0 then rret []
      else rbind (rlift (go_make 4 rows rows)) (\<lambda>_. u32_read P (nat rows)))"

definition u32_puts :: "pbuffer \<Rightarrow> u32 list \<Rightarrow> byte list \<Rightarrow> byte list" where
  "u32_puts B data b = foldl (\<lambda>b v. put_uint32 B v b) b data"

definition u32_codec :: "('r, 'w, u32) codec" where
  "u32_codec = \<lparr>
     cd_decode = u32_decode,
     cd_encode = (\<lambda>B data b. Ok (u32_puts B data b)),
     cd_write = (\<lambda>W B data w. chain_buffer W (u32_puts B data) w) \<rparr>"

locale codec =
  fixes cd :: "('r, 'w, 't) codec" and img :: "'t list \<Rightarrow> byte list"
  assumes dec: "reader_ok P pd \<Longrightarrow> small (img xs) \<Longrightarrow>
      yields pd (cd_decode cd P (int (length xs))) (img xs) xs"
    and enc: "buffer_ok B \<Longrightarrow> small (img xs) \<Longrightarrow> cd_encode cd B xs b = Ok (b @ img xs)"
    and wrt: "writer_ok W out \<Longrightarrow> buffer_ok B \<Longrightarrow> small (img xs) \<Longrightarrow> out (cd_write cd W B xs w) = out w @ img xs"
    and rows_img: "length xs \<le> length (img xs)"

sublocale mem_layout \<subseteq> fixed: codec "fixed_codec T" "data_image T"
  by unfold_locales (simp_all add: fixed_codec_def decodeFixed_yields encodeFixed_eq writeFixed_out rows_le_image)

context mem_layout
begin

lemma rawDecode_yields:
  assumes P: "reader_ok P pd" and sm: "small (data_image T xs)"
  shows "yields pd (rawDecode T P (int (length xs))) (data_image T xs) xs"
proof (cases "xs = []")
  case False
  have "length xs * gt_size T < 2 ^ 40" using sm by (simp add: length_data_image)
  then have "int (length xs * gt_size T) < int (2 ^ 40)" by (simp only: of_nat_less_iff)
  then have mk: "go_make (gt_size T) (int (length xs)) (int (length xs)) = Ok ()"
    by (simp add: go_make_def maxAlloc_def mult.commute)
  have n: "nat (int (length xs) * int (gt_size T)) = length xs * gt_size T"
    by (simp add: nat_mult_distrib)
  have "yields pd (rbind (rd_full P (length xs * gt_size T)) (\<lambda>dst. rret (data_of T (length xs) dst)))
      (data_image T xs) (data_of T (length xs) (data_image T xs))"
    by (rule yields_bind_rret, rule rd_full_yields [OF P]) (rule length_data_image)
  with False show ?thesis by (simp add: rawDecode_def mk n data_of_image)
qed (simp add: rawDecode_def yields_rret)

end

sublocale mem_layout \<subseteq> raw: codec "raw_codec T" "data_image T"
  by unfold_locales (auto simp: raw_codec_def rawDecode_yields rawEncode_def rows_le_image out_chain_buffer)

definition u32_image :: "u32 list \<Rightarrow> byte list" where
  "u32_image vs = concat (map (\<lambda>v. le_enc 4 (unat v)) vs)"

lemma u32_image_simps [simp]: "u32_image [] = []" "u32_image (v # vs) = le_enc 4 (unat v) @ u32_image vs"
  by (simp_all add: u32_image_def)

lemma length_u32_image: "length (u32_image vs) = 4 * length vs"
  by (induction vs) simp_all

lemma u32_puts_eq: "buffer_ok B \<Longrightarrow> u32_puts B vs b = b @ u32_image vs"
  unfolding u32_puts_def by (induction vs arbitrary: b) (simp_all add: put_uint32_eq)

lemma u32_read_yields:
  assumes P: "reader_ok P pd"
  shows "yields pd (u32_read P (length vs)) (u32_image vs) vs"
proof (induction vs)
  case (Cons v vs)
  have "yields pd (rbind (u32_read P (length vs)) (\<lambda>vs. rret (v # vs))) (u32_image vs) (v # vs)"
    by (rule yields_bind_rret [OF Cons.IH])
  then show ?case by (auto intro: yields_bind [OF rd_uint32_yields [OF P]])
qed (simp add: yields_rret)

interpretation u32_codec: codec "u32_codec :: ('r, 'w, u32) codec" u32_image
proof
  fix P :: "'r preader" and pd and xs :: "u32 list" assume P: "reader_ok P pd" and sm: "small (u32_image xs)"
  then have "int (length xs) < int (2 ^ 40)"
    by (simp only: of_nat_less_iff) (simp add: length_u32_image)
  then have "go_make 4 (int (length xs)) (int (length xs)) = Ok ()" by (simp add: go_make_def maxAlloc_def)
  with u32_read_yields [OF P, of xs] show "yields pd (cd_decode u32_codec P (int (length xs))) (u32_image xs) xs"
    by (auto simp: u32_codec_def u32_decode_def yields_rret)
qed (simp_all add: u32_codec_def u32_puts_eq length_u32_image out_chain_buffer)

section \<open>Columns that store what they are given\<close>

definition plain_infer :: "ctconst \<Rightarrow> ctypes \<Rightarrow> string \<Rightarrow> 't data_col \<Rightarrow> 't data_col go" where
  "plain_infer k C t c = (if ct_base C t \<noteq> ct_name C k then Err (Errorf ''unexpected column type'') else Ok c)"

definition plain_ops :: "ctconst \<Rightarrow> bool \<Rightarrow> bool \<Rightarrow> ('r, 'w, 't) codec \<Rightarrow> ('r, 'w, 't data_col, 't) of_ops" where
  "plain_ops k has_slice has_infer cd = \<lparr>
     of_name = dc_name, of_type = (\<lambda>C c. ct_name C k), of_len = dc_len, of_append = dc_append,
     of_append_arr = dc_append_arr, of_row = dc_row, of_reset = dc_reset,
     of_decode = (\<lambda>P c rows. rbind (cd_decode cd P rows) (\<lambda>d. rret (c\<lparr>dc_data := d\<rparr>))),
     of_encode = (\<lambda>B c. cd_encode cd B (dc_data c)), of_write = (\<lambda>W B c. cd_write cd W B (dc_data c)),
     of_slice = (if has_slice then Some dc_slice else None),
     of_infer = (if has_infer then Some (plain_infer k) else None) \<rparr>"

locale plain_column = codec cd img
  for k :: ctconst and has_slice :: bool and has_infer :: bool and cd :: "('r, 'w, 't) codec" and img

sublocale plain_column \<subseteq> col: of_column_w "plain_ops k has_slice has_infer cd" "\<lambda>_. True" dc_data
    "\<lambda>c. img (dc_data c)" "\<lambda>_ _. True" "\<lambda>_ v. v" "\<lambda>_ _. True"
proof (unfold_locales, goal_cases)
  case (7 c c0 P pd)
  then show ?case
    using yields_bind_rret [OF dec, of P pd "dc_data c" "\<lambda>d. c0\<lparr>dc_data := d\<rparr>"] by (auto simp: plain_ops_def)
qed (auto simp: plain_ops_def col_defs slice_expr_in enc wrt rows_img split: if_splits)

section \<open>Columns that convert\<close>

text \<open>
  \<open>cv_cfg\<close> holds the column's other fields (the names of an Enum, the scale of a Decimal).
  \<open>put\<close> converts an appended value, and may panic; \<open>get\<close> is what \<open>Row\<close> makes of a stored one.
\<close>

record ('g, 't) conv_col =
  cv_name :: string
  cv_cfg :: 'g
  cv_data :: "'t list"

definition new_conv_col :: "string \<Rightarrow> 'g \<Rightarrow> ('g, 't) conv_col" where
  "new_conv_col name cfg = \<lparr> cv_name = name, cv_cfg = cfg, cv_data = [] \<rparr>"

definition cv_len :: "('g, 't) conv_col \<Rightarrow> nat" where
  "cv_len c = length (cv_data c)"

definition cv_append :: "('g \<Rightarrow> 'v \<Rightarrow> 't go) \<Rightarrow> 'v \<Rightarrow> ('g, 't) conv_col \<Rightarrow> ('g, 't) conv_col go" where
  "cv_append put v c = go_bind (put (cv_cfg c) v) (\<lambda>x. Ok (c\<lparr>cv_data := cv_data c @ [x]\<rparr>))"

definition cv_append_arr :: "('g \<Rightarrow> 'v \<Rightarrow> 't go) \<Rightarrow> 'v list \<Rightarrow> ('g, 't) conv_col \<Rightarrow> ('g, 't) conv_col go" where
  "cv_append_arr put vs c = go_fold (cv_append put) vs c"

definition cv_row :: "('g \<Rightarrow> 't \<Rightarrow> 'v) \<Rightarrow> ('g, 't) conv_col \<Rightarrow> int \<Rightarrow> 'v go" where
  "cv_row get c i = go_bind (idx (cv_data c) i) (\<lambda>x. Ok (get (cv_cfg c) x))"

definition cv_reset :: "('g, 't) conv_col \<Rightarrow> ('g, 't) conv_col" where
  "cv_reset c = c\<lparr>cv_data := []\<rparr>"

definition cv_decode :: "('r, 'w, 't) codec \<Rightarrow> 'r preader \<Rightarrow> ('g, 't) conv_col \<Rightarrow> int \<Rightarrow> ('r, ('g, 't) conv_col) rdm" where
  "cv_decode cd P c rows = rbind (cd_decode cd P rows) (\<lambda>d. rret (c\<lparr>cv_data := d\<rparr>))"

definition conv_ops :: "(ctypes \<Rightarrow> 'g \<Rightarrow> string) \<Rightarrow> ('g \<Rightarrow> 'v \<Rightarrow> 't go) \<Rightarrow> ('g \<Rightarrow> 't \<Rightarrow> 'v) \<Rightarrow> ('r, 'w, 't) codec \<Rightarrow>
    (ctypes \<Rightarrow> string \<Rightarrow> ('g, 't) conv_col \<Rightarrow> ('g, 't) conv_col go) option \<Rightarrow> ('r, 'w, ('g, 't) conv_col, 'v) of_ops" where
  "conv_ops ty put get cd infr = \<lparr>
     of_name = cv_name, of_type = (\<lambda>C c. ty C (cv_cfg c)), of_len = cv_len, of_append = cv_append put,
     of_append_arr = cv_append_arr put, of_row = cv_row get, of_reset = cv_reset, of_decode = cv_decode cd,
     of_encode = (\<lambda>B c. cd_encode cd B (cv_data c)), of_write = (\<lambda>W B c. cd_write cd W B (cv_data c)),
     of_slice = None, of_infer = infr \<rparr>"

locale conv_column = codec cd img
  for cd :: "('r, 'w, 't) codec" and img +
  fixes put :: "'g \<Rightarrow> 'v \<Rightarrow> 't go" and get :: "'g \<Rightarrow> 't \<Rightarrow> 'v" and acc :: "'g \<Rightarrow> 'v \<Rightarrow> bool"
  assumes put: "acc g v \<Longrightarrow> \<exists>x. put g v = Ok x"
begin

definition c_norm :: "'g \<Rightarrow> 'v \<Rightarrow> 'v" where
  "c_norm g v = (case put g v of Ok x \<Rightarrow> get g x | _ \<Rightarrow> v)"

definition c_rows :: "('g, 't) conv_col \<Rightarrow> 'v list" where
  "c_rows c = map (get (cv_cfg c)) (cv_data c)"

lemma c_append:
  "acc (cv_cfg c) v \<Longrightarrow> \<exists>c'. cv_append put v c = Ok c' \<and> cv_cfg c = cv_cfg c' \<and> c_rows c' = c_rows c @ [c_norm (cv_cfg c) v]"
  using put [of "cv_cfg c" v] by (auto simp: cv_append_def c_rows_def c_norm_def)

lemma c_append_arr:
  "(\<And>v. v \<in> set vs \<Longrightarrow> acc (cv_cfg c) v) \<Longrightarrow>
    \<exists>c'. cv_append_arr put vs c = Ok c' \<and> cv_cfg c = cv_cfg c' \<and> c_rows c' = c_rows c @ map (c_norm (cv_cfg c)) vs"
proof (induction vs arbitrary: c)
  case (Cons v vs)
  obtain c1 where c1: "cv_append put v c = Ok c1" "cv_cfg c = cv_cfg c1" "c_rows c1 = c_rows c @ [c_norm (cv_cfg c) v]"
    using c_append [of c v] Cons.prems by auto
  with Cons.IH [of c1] Cons.prems show ?case by (auto simp: cv_append_arr_def)
qed (simp add: cv_append_arr_def)

end

sublocale conv_column \<subseteq> col: of_column_w "conv_ops ty put get cd infr" "\<lambda>_. True" c_rows
    "\<lambda>c. img (cv_data c)" "\<lambda>c. acc (cv_cfg c)" "\<lambda>c. c_norm (cv_cfg c)" "\<lambda>c0 c. cv_cfg c0 = cv_cfg c"
  for ty infr
proof (unfold_locales, goal_cases)
  case (4 c v)
  then show ?case using c_append by (simp add: conv_ops_def)
next
  case (5 c vs)
  then show ?case using c_append_arr by (simp add: conv_ops_def)
next
  case (7 c c0 P pd)
  then show ?case
    using yields_bind_rret [OF dec, of P pd "cv_data c" "\<lambda>d. c0\<lparr>cv_data := d\<rparr>"]
    by (auto simp: conv_ops_def cv_decode_def c_rows_def)
qed (auto simp: conv_ops_def cv_len_def cv_row_def cv_reset_def c_rows_def enc wrt rows_img)

end
