(* ===== verification/Value_Columns.thy ===== *)
theory Value_Columns
  imports Fixed_Columns "HOL-Library.Numeral_Type"
begin

text \<open>
  The columns of 128- and 256-bit integers, of IP addresses and of UUIDs: the memory layouts of
  their element types and their method tables.
\<close>

section \<open>Layouts\<close>

definition w128_layout :: "w128 gotype" where
  "w128_layout = \<lparr> gt_kind = TOther, gt_size = 16,
     gt_bytes = (\<lambda>v. le_enc 8 (unat (lo64 v)) @ le_enc 8 (unat (hi64 v))),
     gt_of = (\<lambda>bs. mk128 (word_of_nat (le_dec (take 8 bs))) (word_of_nat (le_dec (drop 8 bs)))),
     gt_zero = mk128 0 0, gt_eq = (=) \<rparr>"

definition w256_layout :: "w256 gotype" where
  "w256_layout = \<lparr> gt_kind = TOther, gt_size = 32,
     gt_bytes = (\<lambda>v. gt_bytes w128_layout (lo128 v) @ gt_bytes w128_layout (hi128 v)),
     gt_of = (\<lambda>bs. mk256 (gt_of w128_layout (take 16 bs)) (gt_of w128_layout (drop 16 bs))),
     gt_zero = mk256 (mk128 0 0) (mk128 0 0), gt_eq = (=) \<rparr>"

lemma plain_decode:
  "of_decode (plain_ops k s i cd) P c rows = rbind (cd_decode cd P rows) (\<lambda>d. rret (c\<lparr>dc_data := d\<rparr>))"
  by (simp add: plain_ops_def)

lemma w64_le_dec [simp]: "(word_of_nat (le_dec (le_enc 8 (unat (x :: u64)))) :: u64) = x"
  using unat64 [of x] by (simp add: le_dec_enc)

lemma unat_le_dec8: "length bs = 8 \<Longrightarrow> unat (word_of_nat (le_dec bs) :: u64) = le_dec bs"
  using le_dec_bound [of bs] by (simp add: unat_of_nat)

interpretation w128_mem: mem_layout w128_layout
proof
  fix v :: w128 and bs :: "byte list"
  show "gt_of w128_layout (gt_bytes w128_layout v) = v" by (simp add: w128_layout_def mk128_def)
  assume "length bs = gt_size w128_layout"
  then have l: "length (take 8 bs) = 8" "length (drop 8 bs) = 8" by (simp_all add: w128_layout_def)
  show "gt_bytes w128_layout (gt_of w128_layout bs) = bs"
    by (simp add: w128_layout_def mk128_def unat_le_dec8 [OF l(1)] unat_le_dec8 [OF l(2)] le_enc_dec [OF l(1)] le_enc_dec [OF l(2)])
qed (simp_all add: w128_layout_def)

lemma w128_size [simp]: "gt_size w128_layout = 16"
  by (simp add: w128_layout_def)

interpretation w256_mem: mem_layout w256_layout
proof
  fix v :: w256 and bs :: "byte list"
  have l: "length (gt_bytes w128_layout x) = 16" for x using w128_mem.length_bytes [of x] by simp
  show "length (gt_bytes w256_layout v) = gt_size w256_layout" by (simp add: w256_layout_def l)
  show "gt_of w256_layout (gt_bytes w256_layout v) = v"
    by (simp add: w256_layout_def mk256_def l w128_mem.of_bytes)
  assume "length bs = gt_size w256_layout"
  then have "length (take 16 bs) = gt_size w128_layout" "length (drop 16 bs) = gt_size w128_layout"
    by (simp_all add: w256_layout_def)
  then show "gt_bytes w256_layout (gt_of w256_layout bs) = bs"
    by (simp add: w256_layout_def mk256_def w128_mem.bytes_of)
qed (simp_all add: w256_layout_def)

lemma w256_size [simp]: "gt_size w256_layout = 32"
  by (simp add: w256_layout_def)

lemma w128_bytes: "gt_bytes w128_layout v = le_enc 16 (val128 v)"
proof -
  have "le_enc 16 (le_dec (gt_bytes w128_layout v)) = gt_bytes w128_layout v"
    using w128_mem.length_bytes [of v] by (intro le_enc_dec) simp
  moreover have "le_dec (gt_bytes w128_layout v) = val128 v"
    using unat64 [of "lo64 v"] unat64 [of "hi64 v"]
    by (simp add: w128_layout_def le_dec_append le_dec_enc val128_def)
  ultimately show ?thesis by simp
qed

lemma w256_bytes: "gt_bytes w256_layout v = le_enc 32 (val256 v)"
proof -
  have l: "length (gt_bytes w128_layout x) = 16" for x using w128_mem.length_bytes [of x] by simp
  have "le_enc 32 (le_dec (gt_bytes w256_layout v)) = gt_bytes w256_layout v"
    using w256_mem.length_bytes [of v] by (intro le_enc_dec) (simp add: w256_layout_def)
  moreover have "le_dec (gt_bytes w256_layout v) = val256 v"
    using val128_less [of "lo128 v"] val128_less [of "hi128 v"] l [of "lo128 v"]
    by (simp add: w256_layout_def le_dec_append val256_def w128_bytes le_dec_enc)
  ultimately show ?thesis by simp
qed

text \<open>A Go array \<open>[n]byte\<close>.\<close>

typedef (overloaded) ('n :: len) byte_array = "{bs :: byte list. length bs = LENGTH('n)}"
  morphisms array_bytes Array_of
proof
  show "replicate LENGTH('n) 0 \<in> {bs :: byte list. length bs = LENGTH('n)}" by simp
qed

type_synonym ipv4 = "4 byte_array"
type_synonym ipv6 = "16 byte_array"
type_synonym uuid = "16 byte_array"

definition array_layout :: "('n :: len) byte_array gotype" where
  "array_layout = \<lparr> gt_kind = TOther, gt_size = LENGTH('n), gt_bytes = array_bytes, gt_of = Array_of,
     gt_zero = Array_of (replicate LENGTH('n) 0), gt_eq = (=) \<rparr>"

lemma length_array_bytes [simp]: "length (array_bytes (a :: ('n :: len) byte_array)) = LENGTH('n)"
  using array_bytes [of a] by simp

lemma array_layout_ok: "mem_layout (array_layout :: ('n :: len) byte_array gotype)"
  by unfold_locales (simp_all add: array_layout_def array_bytes_inverse Array_of_inverse)

interpretation ipv4_mem: mem_layout "array_layout :: ipv4 gotype"
  by (rule array_layout_ok)

interpretation bytes16_mem: mem_layout "array_layout :: 16 byte_array gotype"
  by (rule array_layout_ok)

section \<open>Method tables\<close>

definition int128_ops :: "('r, 'w, w128 data_col, w128) of_ops" where
  "int128_ops = plain_ops CT_Int128 True True (fixed_codec w128_layout)"

definition uint128_ops :: "('r, 'w, w128 data_col, w128) of_ops" where
  "uint128_ops = plain_ops CT_UInt128 True True (fixed_codec w128_layout)"

definition int256_ops :: "('r, 'w, w256 data_col, w256) of_ops" where
  "int256_ops = plain_ops CT_Int256 True True (fixed_codec w256_layout)"

definition uint256_ops :: "('r, 'w, w256 data_col, w256) of_ops" where
  "uint256_ops = plain_ops CT_UInt256 True True (fixed_codec w256_layout)"

definition ipv4_ops :: "('r, 'w, ipv4 data_col, ipv4) of_ops" where
  "ipv4_ops = plain_ops CT_IPv4 False False (raw_codec array_layout)"

definition ipv6_ops :: "('r, 'w, ipv6 data_col, ipv6) of_ops" where
  "ipv6_ops = plain_ops CT_IPv6 False False (raw_codec array_layout)"

definition uuid_ops :: "('r, 'w, uuid data_col, uuid) of_ops" where
  "uuid_ops = plain_ops CT_UUID True True (raw_codec array_layout)"

interpretation int128_col: plain_column CT_Int128 True True "fixed_codec w128_layout" "data_image w128_layout"
  by unfold_locales

interpretation uint128_col: plain_column CT_UInt128 True True "fixed_codec w128_layout" "data_image w128_layout"
  by unfold_locales

interpretation int256_col: plain_column CT_Int256 True True "fixed_codec w256_layout" "data_image w256_layout"
  by unfold_locales

interpretation uint256_col: plain_column CT_UInt256 True True "fixed_codec w256_layout" "data_image w256_layout"
  by unfold_locales

interpretation ipv4_col: plain_column CT_IPv4 False False "raw_codec array_layout" "data_image (array_layout :: ipv4 gotype)"
  by unfold_locales

interpretation ipv6_col: plain_column CT_IPv6 False False "raw_codec array_layout" "data_image (array_layout :: ipv6 gotype)"
  by unfold_locales

interpretation uuid_col: plain_column CT_UUID True True "raw_codec array_layout" "data_image (array_layout :: uuid gotype)"
  by unfold_locales

section \<open>Conversion of IP addresses\<close>

text \<open>\<open>net.IP.To4\<close>: a 4-byte slice, or the last four bytes of an IPv4-mapped IPv6 address.\<close>

definition net_To4 :: "byte list \<Rightarrow> byte list option" where
  "net_To4 ip =
     (if length ip = 4 then Some ip
      else if length ip = 16 \<and> take 10 ip = replicate 10 0 \<and> ip ! 10 = 0xFF \<and> ip ! 11 = 0xFF then Some (drop 12 ip)
      else None)"

definition IPv4ToNet :: "ipv4 \<Rightarrow> byte list" where
  "IPv4ToNet v = array_bytes v"

definition NetToIPv4 :: "byte list \<Rightarrow> ipv4 \<times> bool" where
  "NetToIPv4 ip = (case net_To4 ip of None \<Rightarrow> (gt_zero array_layout, False) | Some ip4 \<Rightarrow> (Array_of ip4, True))"

definition IPv6ToNet :: "ipv6 \<Rightarrow> byte list" where
  "IPv6ToNet v = array_bytes v"

definition NetToIPv6 :: "byte list \<Rightarrow> ipv6 \<times> bool" where
  "NetToIPv6 ip = (if length ip \<noteq> 16 then (gt_zero array_layout, False) else (Array_of ip, True))"

section \<open>Properties\<close>

text \<open>
  C28. On the wire a 128- or 256-bit integer is its two's complement in 16 or 32 bytes, least
  significant first: \<open>EncodeColumn\<close> and \<open>WriteColumn\<close> of an Int128 and an Int256 column produce
  the images of the values of \<open>ToBigInt\<close> modulo 2^128 or 2^256, and \<open>DecodeColumn\<close> reads them back.
\<close>

theorem wide_column_wire:
  fixes P :: "'r preader" and W :: "'w pwriter"
  assumes P: "reader_ok P pd" and B: "buffer_ok B" and W: "writer_ok W out"
    and small: "length (dc_data c) < 2 ^ 30" "length (dc_data d) < 2 ^ 30"
  shows "of_encode (int128_ops :: ('r, 'w, _, _) of_ops) B c b =
      Ok (b @ concat (map (\<lambda>v. le_enc 16 (nat (int128_ToBigInt v mod 2 ^ 128))) (dc_data c))) \<and>
    of_encode (int128_ops :: ('r, 'w, _, _) of_ops) B c (out w) = Ok (out (of_write (int128_ops :: ('r, 'w, _, _) of_ops) W B c w)) \<and>
    yields pd (of_decode (int128_ops :: ('r, 'w, _, _) of_ops) P c0 (int (length (dc_data c))))
      (concat (map (\<lambda>v. le_enc 16 (nat (int128_ToBigInt v mod 2 ^ 128))) (dc_data c))) (c0\<lparr>dc_data := dc_data c\<rparr>) \<and>
    of_encode (int256_ops :: ('r, 'w, _, _) of_ops) B d b =
      Ok (b @ concat (map (\<lambda>v. le_enc 32 (nat (int256_ToBigInt v mod 2 ^ 256))) (dc_data d))) \<and>
    of_encode (int256_ops :: ('r, 'w, _, _) of_ops) B d (out w) = Ok (out (of_write (int256_ops :: ('r, 'w, _, _) of_ops) W B d w)) \<and>
    yields pd (of_decode (int256_ops :: ('r, 'w, _, _) of_ops) P d0 (int (length (dc_data d))))
      (concat (map (\<lambda>v. le_enc 32 (nat (int256_ToBigInt v mod 2 ^ 256))) (dc_data d))) (d0\<lparr>dc_data := dc_data d\<rparr>)"
proof -
  have "sval128 v mod 2 ^ 128 = int (val128 v)" for v
    using val128_less [of v] by (auto simp: sval128_def mod_pos_pos_trivial)
  then have 128: "concat (map (\<lambda>v. le_enc 16 (nat (int128_ToBigInt v mod 2 ^ 128))) xs) = data_image w128_layout xs" for xs
    by (simp add: data_image_def int128_big w128_bytes [abs_def])
  have "sval256 v mod 2 ^ 256 = int (val256 v)" for v
    using val256_less [of v] by (auto simp: sval256_def mod_pos_pos_trivial)
  then have 256: "concat (map (\<lambda>v. le_enc 32 (nat (int256_ToBigInt v mod 2 ^ 256))) xs) = data_image w256_layout xs" for xs
    by (simp add: data_image_def int256_big w256_bytes [abs_def])
  have s: "small (data_image w128_layout (dc_data c))" "small (data_image w256_layout (dc_data d))"
    using small by (simp_all add: w128_mem.length_data_image w256_mem.length_data_image w256_size)
  show ?thesis
    unfolding 128 256 int128_ops_def int256_ops_def
    by (simp add: plain_decode int128_col.col.encode [OF _ B s(1)] int128_col.col.write_out [OF _ W B s(1)]
        int256_col.col.encode [OF _ B s(2)] int256_col.col.write_out [OF _ W B s(2)])
      (intro conjI yields_bind_rret w128_mem.fixed.dec [OF P s(1)] w256_mem.fixed.dec [OF P s(2)])
qed

theorem wide_column_wire_witness:
  "of_encode (int128_ops :: (byte list, byte list, w128 data_col, w128) of_ops) list_buffer
     \<lparr>dc_name = [], dc_data = [mk128 2 0]\<rparr> [] = Ok [2, 0, 0, 0, 0, 0, 0, 0, 0, 0, 0, 0, 0, 0, 0, 0]"
proof -
  have "val128 (mk128 2 0) = 2" by (simp add: val128_def mk128_def)
  then have b: "int128_ToBigInt (mk128 2 0) = 2" by (simp add: int128_big sval128_def)
  have "le_enc 16 2 = [2, 0, 0, 0, 0, 0, 0, 0, 0, 0, 0, 0, 0, 0, 0, 0]" by (simp add: le_enc_numeral)
  then show ?thesis
    using wide_column_wire [OF list_reader_ok list_buffer_ok list_writer_ok, of "\<lparr>dc_name = [], dc_data = [mk128 2 0]\<rparr>"
        "\<lparr>dc_name = [], dc_data = []\<rparr>" "[]" "[]"]
    by (auto simp: b)
qed

text \<open>
  C38. \<open>NetToIPv4\<close> and \<open>NetToIPv6\<close> invert \<open>IPv4ToNet\<close> and \<open>IPv6ToNet\<close>; \<open>NetToIPv4\<close> also accepts the
  IPv4-mapped form of the same address, and an address of any other length than 4 or 16 (for
  IPv6: than 16) is refused.
\<close>

theorem ip_conversions:
  "NetToIPv4 (IPv4ToNet v) = (v, True) \<and>
   NetToIPv4 (replicate 10 0 @ [0xFF, 0xFF] @ IPv4ToNet v) = (v, True) \<and>
   NetToIPv6 (IPv6ToNet w) = (w, True) \<and>
   (snd (NetToIPv6 ip) \<longleftrightarrow> length ip = 16) \<and> (snd (NetToIPv4 ip) = (net_To4 ip \<noteq> None)) \<and>
   (if length ip \<noteq> 4 \<and> length ip \<noteq> 16 then NetToIPv4 ip = (gt_zero array_layout, False) else True)"
proof -
  have "net_To4 (replicate 10 0 @ [0xFF, 0xFF] @ array_bytes v) = Some (array_bytes v)"
    by (simp add: net_To4_def nth_append)
  then show ?thesis
    by (auto simp: NetToIPv4_def IPv4ToNet_def NetToIPv6_def IPv6ToNet_def net_To4_def array_bytes_inverse
        split: option.splits)
qed

end
