(* ===== verification/Time_Columns.thy ===== *)
theory Time_Columns
  imports Value_Columns
begin

text \<open>
  The Date, Date32, DateTime and DateTime64 columns. A \<open>time.Time\<close> is the instant it denotes
  (seconds and nanoseconds since 1970 UTC, nanoseconds between 0 and 10^9); its location only
  affects how it is displayed. What ch-go's \<open>proto.Precision\<close> and the time zone database
  provide are parameters.
\<close>

record gtime =
  tm_sec :: int
  tm_nsec :: int

definition time_Unix :: "int \<Rightarrow> int \<Rightarrow> gtime" where
  "time_Unix sec nsec =
     (if nsec < 0 \<or> 10 ^ 9 \<le> nsec
      then let n = go_div nsec (10 ^ 9); s = sec + n; ns = nsec - n * 10 ^ 9
           in if ns < 0 then \<lparr> tm_sec = s - 1, tm_nsec = ns + 10 ^ 9 \<rparr> else \<lparr> tm_sec = s, tm_nsec = ns \<rparr>
      else \<lparr> tm_sec = sec, tm_nsec = nsec \<rparr>)"

definition UnixNano :: "gtime \<Rightarrow> int" where
  "UnixNano t = wrap64 (tm_sec t * 10 ^ 9 + tm_nsec t)"

section \<open>Date, Date32 and DateTime\<close>

definition date_put :: "gtime \<Rightarrow> u16" where
  "date_put v = word_of_int (go_div (tm_sec v) 86400)"

definition date_get :: "u16 \<Rightarrow> gtime" where
  "date_get x = time_Unix (int (unat x) * 86400) 0"

definition date_ops :: "('r, 'w, (unit, u16) conv_col, gtime) of_ops" where
  "date_ops = conv_ops (\<lambda>C _. ct_name C CT_Date) (\<lambda>_ v. Ok (date_put v)) (\<lambda>_. date_get) (raw_codec uint16_t) None"

definition date32_put :: "gtime \<Rightarrow> u32" where
  "date32_put v = word_of_int (go_div (tm_sec v) 86400)"

definition date32_get :: "u32 \<Rightarrow> gtime" where
  "date32_get x = time_Unix (sint x * 86400) 0"

definition date32_ops :: "('r, 'w, (unit, u32) conv_col, gtime) of_ops" where
  "date32_ops = conv_ops (\<lambda>C _. ct_name C CT_Date32) (\<lambda>_ v. Ok (date32_put v)) (\<lambda>_. date32_get) (fixed_codec int32_t) None"

definition datetime_put :: "gtime \<Rightarrow> u32" where
  "datetime_put v = word_of_int (tm_sec v)"

definition datetime_get :: "u32 \<Rightarrow> gtime" where
  "datetime_get x = time_Unix (int (unat x)) 0"

definition datetime_ops :: "('r, 'w, (unit, u32) conv_col, gtime) of_ops" where
  "datetime_ops = conv_ops (\<lambda>C _. ct_name C CT_DateTime) (\<lambda>_ v. Ok (datetime_put v)) (\<lambda>_. datetime_get) u32_codec None"

interpretation date_col: conv_column "raw_codec uint16_t :: ('r, 'w, u16) codec" "data_image uint16_t"
    "\<lambda>(_ :: unit) v. Ok (date_put v)" "\<lambda>_. date_get" "\<lambda>_ _. True"
  by unfold_locales simp

interpretation date32_col: conv_column "fixed_codec int32_t :: ('r, 'w, u32) codec" "data_image int32_t"
    "\<lambda>(_ :: unit) v. Ok (date32_put v)" "\<lambda>_. date32_get" "\<lambda>_ _. True"
  by unfold_locales simp

interpretation datetime_col: conv_column "u32_codec :: ('r, 'w, u32) codec" u32_image
    "\<lambda>(_ :: unit) v. Ok (datetime_put v)" "\<lambda>_. datetime_get" "\<lambda>_ _. True"
  by unfold_locales simp

section \<open>DateTime64\<close>

text \<open>
  \<open>Scale\<close> (nanoseconds per tick) and \<open>Valid\<close> of \<open>proto.Precision\<close>, \<open>time.LoadLocation\<close> and the
  name of a location.
\<close>

record 'l timelib =
  tl_scale :: "byte \<Rightarrow> int"
  tl_valid :: "byte \<Rightarrow> bool"
  tl_load :: "string \<Rightarrow> 'l option"
  tl_name :: "'l \<Rightarrow> string"

record 'l dt64_cfg =
  dt_precision :: byte
  dt_location :: "'l option"

definition dt64_type :: "'l timelib \<Rightarrow> ctypes \<Rightarrow> 'l dt64_cfg \<Rightarrow> string" where
  "dt64_type L C g =
     ct_with C (ct_name C CT_DateTime64)
       ([itoa (int (unat (dt_precision g)))] @
        (case dt_location g of None \<Rightarrow> [] | Some loc \<Rightarrow> [[CHR 0x27] @ tl_name L loc @ [CHR 0x27]]))"

definition dt64_put :: "'l timelib \<Rightarrow> 'l dt64_cfg \<Rightarrow> gtime \<Rightarrow> u64 go" where
  "dt64_put L g v =
     (let scale = tl_scale L (dt_precision g)
      in if scale = 0 then Panic ''integer divide by zero'' else Ok (word_of_int (go_div (UnixNano v) scale)))"

definition dt64_get :: "'l timelib \<Rightarrow> 'l dt64_cfg \<Rightarrow> u64 \<Rightarrow> gtime" where
  "dt64_get L g x =
     (let nsec = wrap64 (sint x * tl_scale L (dt_precision g))
      in time_Unix (go_div nsec (10 ^ 9)) (go_mod nsec (10 ^ 9)))"

definition dt64_infer :: "'l timelib \<Rightarrow> ctypes \<Rightarrow> string \<Rightarrow> ('l dt64_cfg, u64) conv_col \<Rightarrow> ('l dt64_cfg, u64) conv_col go" where
  "dt64_infer L C t c =
     (let elem = ct_elem C t in
      if elem = [] then Err (Errorf ''datetime64: no elements'')
      else let (pStr, locStr) = (case str_cut_at (CHR '','') elem of None \<Rightarrow> (elem, None) | Some (p, l) \<Rightarrow> (p, Some l));
               pStr = str_trim pStr [CHR 0x27, CHR '' '']
           in go_bind (go_wrap ''datetime64: parse precision'' (parse_uint 8 pStr)) (\<lambda>n.
              let p = word_of_nat n in
              if \<not> tl_valid L p then Err (Errorf ''datetime64: precision out of range'')
              else let c = c\<lparr>cv_cfg := (cv_cfg c)\<lparr>dt_precision := p\<rparr>\<rparr>
                   in case locStr of None \<Rightarrow> Ok c
                    | Some l \<Rightarrow> (case tl_load L (str_trim l [CHR 0x27, CHR '' '']) of
                        None \<Rightarrow> Err (Wrapf ''datetime64: invalid location'' (Ext_error ''unknown time zone''))
                      | Some loc \<Rightarrow> Ok (c\<lparr>cv_cfg := (cv_cfg c)\<lparr>dt_location := Some loc\<rparr>\<rparr>))))"

definition dt64_ops :: "'l timelib \<Rightarrow> ('r, 'w, ('l dt64_cfg, u64) conv_col, gtime) of_ops" where
  "dt64_ops L = conv_ops (dt64_type L) (dt64_put L) (dt64_get L) (fixed_codec int64_t) (Some (dt64_infer L))"

interpretation dt64_col: conv_column "fixed_codec int64_t :: ('r, 'w, u64) codec" "data_image int64_t"
    "dt64_put L" "dt64_get L" "\<lambda>g _. tl_scale L (dt_precision g) \<noteq> 0" for L :: "'l timelib"
  by unfold_locales (simp add: dt64_put_def Let_def)

section \<open>Arithmetic\<close>

lemma go_div_pos: "0 < b \<Longrightarrow> go_div a b = (if 0 \<le> a then a div b else - (- a div b))"
  by (auto simp: go_div_def sgn_if)

lemma go_div_mod: "go_div a b * b + go_mod a b = a"
  by (simp add: go_mod_def)

lemma neg_div_ceil:
  assumes "0 < (b :: int)" and "a < 0"
  shows "- (- a div b) = (if a mod b = 0 then a div b else a div b + 1)"
proof -
  have "- a div b = (if a mod b = 0 then - (a div b) else - (a div b) - 1)"
    by (rule zdiv_zminus1_eq_if) (use assms in simp)
  then show ?thesis by simp
qed

text \<open>Truncation rounds down from 1970 on, and up to a multiple before it.\<close>

lemma go_div_round:
  assumes "0 < b"
  shows "go_div a b = (if 0 \<le> a \<or> a mod b = 0 then a div b else a div b + 1)"
  using assms neg_div_ceil [OF assms, of a] by (auto simp: go_div_pos)

lemma time_Unix_split:
  "time_Unix (go_div n (10 ^ 9)) (go_mod n (10 ^ 9)) = \<lparr> tm_sec = n div 10 ^ 9, tm_nsec = n mod 10 ^ 9 \<rparr>"
proof -
  have r: "go_div n (10 ^ 9) = (if 0 \<le> n \<or> n mod 10 ^ 9 = 0 then n div 10 ^ 9 else n div 10 ^ 9 + 1)"
    by (rule go_div_round) simp
  have m: "n = n div 10 ^ 9 * 10 ^ 9 + n mod 10 ^ 9" "0 \<le> n mod 10 ^ 9" "n mod 10 ^ 9 < 10 ^ 9" by simp_all
  show ?thesis
  proof (cases "0 \<le> n \<or> n mod 10 ^ 9 = 0")
    case True
    then have d: "go_div n (10 ^ 9) = n div 10 ^ 9" using r by simp
    have "go_mod n (10 ^ 9) = n mod 10 ^ 9" unfolding go_mod_def d by (rule minus_mult_div_eq_mod)
    then show ?thesis using True r by (simp add: time_Unix_def)
  next
    case False
    then have d: "go_div n (10 ^ 9) = n div 10 ^ 9 + 1" using r by simp
    have "n - 10 ^ 9 * (n div 10 ^ 9) = n mod 10 ^ 9" by (rule minus_mult_div_eq_mod)
    then have g: "go_mod n (10 ^ 9) = n mod 10 ^ 9 - 10 ^ 9" unfolding go_mod_def d distrib_left by simp
    have "go_div (n mod 10 ^ 9 - 10 ^ 9) (10 ^ 9) = 0"
    proof -
      have "0 < n mod 10 ^ 9" using False m(2) by linarith
      then have "(10 ^ 9 - n mod 10 ^ 9) div 10 ^ 9 = 0" using m(3) by (intro div_pos_pos_trivial) linarith+
      with m(3) show ?thesis by (simp add: go_div_def sgn_if)
    qed
    then show ?thesis using False m(2,3) r g by (simp add: time_Unix_def Let_def)
  qed
qed

lemma sint_of_int32: "- (2 ^ 31) \<le> n \<Longrightarrow> n < 2 ^ 31 \<Longrightarrow> sint (word_of_int n :: u32) = n"
  by (simp add: signed_of_int signed_take_bit_int_eq_self)

lemma sint_of_int64: "- (2 ^ 63) \<le> n \<Longrightarrow> n < 2 ^ 63 \<Longrightarrow> sint (word_of_int n :: u64) = n"
  by (simp add: signed_of_int signed_take_bit_int_eq_self)

lemma uint_of_int: "uint ((word_of_int n :: 'a::len word)) = n mod 2 ^ LENGTH('a)"
  by (simp add: unsigned_of_int take_bit_eq_mod)


lemma row_after_append:
  assumes "put (cv_cfg c) v = Ok x"
  shows "go_bind (cv_append put v c) (\<lambda>d. cv_row get d (int (cv_len c))) = Ok (get (cv_cfg c) x)"
  using assms by (simp add: cv_append_def cv_row_def cv_len_def idx_def)

section \<open>Properties\<close>

text \<open>
  C30. \<open>Append\<close> then \<open>Row\<close>, for the columns that count days and seconds. A Date between 1970 and
  2149 comes back as the midnight (UTC) of its day. A Date32 comes back as a midnight too, but an
  instant before 1970 that is no midnight comes back as the midnight after it, because Go's
  division truncates. A DateTime keeps the whole seconds, modulo 2^32.
\<close>

theorem date_time_rows:
  assumes "0 \<le> tm_sec v" and "tm_sec v < 65536 * 86400"
    and "- (2 ^ 31 * 86400) \<le> tm_sec w" and "tm_sec w < 2 ^ 31 * 86400"
  shows "go_bind (of_append (date_ops :: ('r, 'w, _, _) of_ops) v c) (\<lambda>d. of_row (date_ops :: ('r, 'w, _, _) of_ops) d (int (cv_len c))) =
      Ok \<lparr> tm_sec = tm_sec v - tm_sec v mod 86400, tm_nsec = 0 \<rparr> \<and>
    go_bind (of_append (date32_ops :: ('r, 'w, _, _) of_ops) w e) (\<lambda>d. of_row (date32_ops :: ('r, 'w, _, _) of_ops) d (int (cv_len e))) =
      Ok \<lparr> tm_sec = (if 0 \<le> tm_sec w \<or> tm_sec w mod 86400 = 0 then tm_sec w - tm_sec w mod 86400
                    else tm_sec w - tm_sec w mod 86400 + 86400), tm_nsec = 0 \<rparr> \<and>
    go_bind (of_append (datetime_ops :: ('r, 'w, _, _) of_ops) u e) (\<lambda>d. of_row (datetime_ops :: ('r, 'w, _, _) of_ops) d (int (cv_len e))) =
      Ok \<lparr> tm_sec = tm_sec u mod 2 ^ 32, tm_nsec = 0 \<rparr>"
proof (intro conjI, goal_cases)
  case 1
  have "tm_sec v div 86400 < 65536" using assms(2) by linarith
  then have "tm_sec v div 86400 mod 2 ^ 16 = tm_sec v div 86400" using assms(1) by (simp add: mod_pos_pos_trivial)
  moreover have "tm_sec v div 86400 * 86400 = tm_sec v - tm_sec v mod 86400" by (simp add: minus_mod_eq_div_mult)
  ultimately show ?case using assms(1)
    by (simp add: date_ops_def conv_ops_def row_after_append [where x = "date_put v"])
      (simp add: date_put_def date_get_def uint_of_int go_div_pos time_Unix_def)
next
  case 2
  have r: "go_div (tm_sec w) 86400 = (if 0 \<le> tm_sec w \<or> tm_sec w mod 86400 = 0 then tm_sec w div 86400 else tm_sec w div 86400 + 1)"
    by (rule go_div_round) simp
  have b: "- (2 ^ 31) \<le> tm_sec w div 86400" "tm_sec w div 86400 < 2 ^ 31" using assms(3,4) by simp_all
  have "tm_sec w div 86400 + 1 < 2 ^ 31" if "tm_sec w < 0"
  proof -
    have "tm_sec w div 86400 < 0" using that by simp
    then show ?thesis by simp
  qed
  with b have s: "sint (date32_put w) = go_div (tm_sec w) 86400"
    unfolding date32_put_def by (intro sint_of_int32) (auto simp: r)
  have "tm_sec w div 86400 * 86400 = tm_sec w - tm_sec w mod 86400" by (simp add: minus_mod_eq_div_mult)
  then show ?case
    by (simp add: date32_ops_def conv_ops_def row_after_append [where x = "date32_put w"])
      (simp add: date32_get_def s r time_Unix_def distrib_right)
next
  case 3
  show ?case
    by (simp add: datetime_ops_def conv_ops_def row_after_append [where x = "datetime_put u"])
      (simp add: datetime_put_def datetime_get_def uint_of_int time_Unix_def)
qed

theorem date_time_rows_witness:
  "go_bind (of_append (date32_ops :: (byte list, byte list, _, _) of_ops) \<lparr> tm_sec = -1, tm_nsec = 0 \<rparr> (new_conv_col ''d'' ()))
     (\<lambda>d. of_row (date32_ops :: (byte list, byte list, _, _) of_ops) d 0) = Ok \<lparr> tm_sec = 0, tm_nsec = 0 \<rparr>"
  using date_time_rows [where v = "\<lparr> tm_sec = 0, tm_nsec = 0 \<rparr>" and w = "\<lparr> tm_sec = -1, tm_nsec = 0 \<rparr>"
      and e = "new_conv_col ''d'' ()" and 'r = "byte list" and 'w = "byte list"]
  by (simp add: cv_len_def new_conv_col_def)


text \<open>
  C31. \<open>Append\<close> then \<open>Row\<close> of a DateTime64: the instant truncated toward 1970 to a multiple of the
  precision's tick, provided that its nanoseconds fit 64 bits.
\<close>

theorem datetime64_rows:
  assumes "0 < tl_scale L (dt_precision (cv_cfg c))"
    and "- (2 ^ 63) \<le> tm_sec v * 10 ^ 9 + tm_nsec v" and "tm_sec v * 10 ^ 9 + tm_nsec v < 2 ^ 63"
  shows "go_bind (of_append (dt64_ops L :: ('r, 'w, _, _) of_ops) v c) (\<lambda>d. of_row (dt64_ops L :: ('r, 'w, _, _) of_ops) d (int (cv_len c))) =
    (let s = tl_scale L (dt_precision (cv_cfg c)); n = tm_sec v * 10 ^ 9 + tm_nsec v;
         t = (if 0 \<le> n \<or> n mod s = 0 then n - n mod s else n - n mod s + s)
     in Ok \<lparr> tm_sec = t div 10 ^ 9, tm_nsec = t mod 10 ^ 9 \<rparr>)"
proof -
  define s n where "s = tl_scale L (dt_precision (cv_cfg c))" and "n = tm_sec v * 10 ^ 9 + tm_nsec v"
  define t where "t = (if 0 \<le> n \<or> n mod s = 0 then n - n mod s else n - n mod s + s)"
  have s: "0 < s" and n: "- (2 ^ 63) \<le> n" "n < 2 ^ 63" using assms by (simp_all add: s_def n_def)
  have m: "0 \<le> n mod s" "n mod s < s" "n div s * s = n - n mod s" using s by (simp_all add: minus_mod_eq_div_mult)
  then have t: "go_div n s * s = t" unfolding go_div_round [OF s] t_def by (simp add: distrib_right)
  have tb: "- (2 ^ 63) \<le> t \<and> t < 2 ^ 63"
  proof (cases "0 \<le> n")
    case True
    then have "n mod s \<le> n" using s by (simp add: zmod_le_nonneg_dividend)
    with True m n show ?thesis by (simp add: t_def)
  next
    case False
    then have "t \<le> 0" unfolding t [symmetric] using s by (intro mult_nonpos_nonneg) (auto simp: go_div_def sgn_if pos_imp_zdiv_nonneg_iff)
    moreover have "n \<le> t" using m n False by (simp add: t_def)
    ultimately show ?thesis using n by simp
  qed
  have "- (2 ^ 63) \<le> go_div n s \<and> go_div n s < 2 ^ 63"
  proof (cases "0 \<le> go_div n s")
    case True
    then have "go_div n s * 1 \<le> go_div n s * s" using s by (intro mult_left_mono) simp_all
    then show ?thesis using True tb t by simp
  next
    case False
    then have "go_div n s * s \<le> go_div n s * 1" using s by (intro mult_left_mono_neg) simp_all
    then show ?thesis using False tb t by simp
  qed
  then have q: "sint (word_of_int (go_div n s) :: u64) = go_div n s" by (simp add: sint_of_int64)
  have "dt64_put L (cv_cfg c) v = Ok (word_of_int (go_div n s))"
    using s n by (simp add: dt64_put_def Let_def s_def n_def UnixNano_def wrap64_id)
  moreover have "dt64_get L (cv_cfg c) (word_of_int (go_div n s)) = \<lparr> tm_sec = t div 10 ^ 9, tm_nsec = t mod 10 ^ 9 \<rparr>"
    using tb unfolding dt64_get_def Let_def s_def [symmetric] q t wrap64_id [OF conjunct1 [OF tb] conjunct2 [OF tb]]
    by (simp only: time_Unix_split)
  ultimately show ?thesis
    unfolding s_def [symmetric] n_def [symmetric] Let_def t_def [symmetric]
    by (simp add: dt64_ops_def conv_ops_def row_after_append)
qed

text \<open>A small library of precisions and time zones, for the closed examples.\<close>

definition demo_timelib :: "string timelib" where
  "demo_timelib = \<lparr> tl_scale = (\<lambda>p. 10 ^ (9 - unat p)), tl_valid = (\<lambda>p. unat p \<le> 9), tl_load = Some, tl_name = (\<lambda>l. l) \<rparr>"

theorem datetime64_rows_witness:
  "go_bind (of_append (dt64_ops demo_timelib :: (byte list, byte list, _, _) of_ops) \<lparr> tm_sec = -1, tm_nsec = 999999999 \<rparr>
      (new_conv_col ''d'' \<lparr> dt_precision = 3, dt_location = None \<rparr>))
     (\<lambda>d. of_row (dt64_ops demo_timelib :: (byte list, byte list, _, _) of_ops) d 0) = Ok \<lparr> tm_sec = 0, tm_nsec = 0 \<rparr>"
  using datetime64_rows [where v = "\<lparr> tm_sec = -1, tm_nsec = 999999999 \<rparr>" and L = demo_timelib
      and c = "new_conv_col ''d'' \<lparr> dt_precision = 3, dt_location = None \<rparr>" and 'r = "byte list" and 'w = "byte list"]
  by (simp add: cv_len_def new_conv_col_def demo_timelib_def)

text \<open>
  \<open>Infer\<close> reads back the type that \<open>Type\<close> prints: the precision, and the location when the
  type names one (a column keeps its old location otherwise).
\<close>

theorem datetime64_infer_type:
  assumes C: "ctypes_ok C" and valid: "tl_valid L (dt_precision g)"
    and loc: "case dt_location g of None \<Rightarrow> True | Some l \<Rightarrow>
      tl_load L (tl_name L l) = Some l \<and> tl_name L l \<noteq> [] \<and> hd (tl_name L l) \<notin> {CHR 0x27, CHR '' ''} \<and> last (tl_name L l) \<notin> {CHR 0x27, CHR '' ''}"
  shows "dt64_infer L C (dt64_type L C g) c =
    Ok (c\<lparr>cv_cfg := (cv_cfg c)\<lparr>dt_precision := dt_precision g,
      dt_location := (case dt_location g of None \<Rightarrow> dt_location (cv_cfg c) | Some l \<Rightarrow> Some l)\<rparr>\<rparr>)"
proof -
  let ?p = "unat (dt_precision g)"
  have i: "itoa (uint (dt_precision g)) = nat_str ?p" by (simp add: itoa_def nat_uint_eq)
  have ch: "CHR '','' \<notin> set (nat_str ?p)" "x \<in> set (nat_str ?p) \<Longrightarrow> x \<notin> set [CHR 0x27, CHR '' '']" for x
    using nat_str_chars [of _ ?p] digit_range by fastforce+
  have tr: "str_trim (nat_str ?p) [CHR 0x27, CHR '' ''] = nat_str ?p"
    by (rule str_trim_id) (use ch(2) in \<open>auto simp del: set_simps\<close>)
  have pr: "parse_uint 8 (nat_str ?p) = Ok ?p" using unat_byte_less [of "dt_precision g"] by (simp add: parse_uint_nat_str)
  show ?thesis
  proof (cases "dt_location g")
    case None
    have "str_cut_at (CHR '','') (nat_str ?p) = None" using ch(1) by (simp add: str_cut_at_None)
    then show ?thesis using None valid tr pr by (simp add: dt64_infer_def dt64_type_def ct_elem_with [OF C] i Let_def)
  next
    case (Some l)
    let ?l = "CHR '' '' # CHR 0x27 # tl_name L l @ [CHR 0x27]"
    have "str_trim ([CHR '' '', CHR 0x27] @ tl_name L l @ [CHR 0x27]) [CHR 0x27, CHR '' ''] = tl_name L l"
      by (rule str_trim_wrapped) (use loc Some in auto)
    then have "str_trim ?l [CHR 0x27, CHR '' ''] = tl_name L l" by simp
    then show ?thesis using Some valid tr pr loc str_cut_at_append [OF ch(1), of ?l]
      by (simp add: dt64_infer_def dt64_type_def ct_elem_with [OF C] i Let_def)
  qed
qed

theorem datetime64_infer_type_witness:
  "dt64_infer demo_timelib list_ctypes (dt64_type demo_timelib list_ctypes \<lparr> dt_precision = 3, dt_location = Some ''UTC'' \<rparr>)
     (new_conv_col ''d'' \<lparr> dt_precision = 0, dt_location = None \<rparr>) =
   Ok (new_conv_col ''d'' \<lparr> dt_precision = 3, dt_location = Some ''UTC'' \<rparr>)"
  using datetime64_infer_type [OF list_ctypes_ok, of demo_timelib "\<lparr> dt_precision = 3, dt_location = Some ''UTC'' \<rparr>"
      "new_conv_col ''d'' \<lparr> dt_precision = 0, dt_location = None \<rparr>"]
  by (simp add: demo_timelib_def new_conv_col_def)

end
