(* ===== verification/Decimal_Columns.thy ===== *)
theory Decimal_Columns
  imports Complex_Main Time_Columns
begin

text \<open>
  The Decimal32, Decimal64, Decimal128 and Decimal256 columns. The \<^verbatim>\<open>shopspring/decimal\<close> package
  is a parameter: \<open>declib_ok\<close> states its documented behaviour over the rational number \<open>val d\<close> that
  a decimal denotes. A scale is an \<open>int32\<close>, kept as a 32-bit word.
\<close>

section \<open>The decimal library\<close>

record 'd declib =
  dl_shift :: "'d \<Rightarrow> u32 \<Rightarrow> 'd"
  dl_int_part :: "'d \<Rightarrow> u64"
  dl_big_int :: "'d \<Rightarrow> int"
  dl_new :: "u64 \<Rightarrow> u32 \<Rightarrow> 'd"
  dl_new_big :: "int \<Rightarrow> u32 \<Rightarrow> 'd"

definition ten_pow :: "int \<Rightarrow> rat" where
  "ten_pow e = (if 0 \<le> e then 10 ^ nat e else 1 / 10 ^ nat (- e))"

definition int_trunc :: "rat \<Rightarrow> int" where
  "int_trunc q = (if 0 \<le> q then \<lfloor>q\<rfloor> else \<lceil>q\<rceil>)"

definition declib_ok :: "'d declib \<Rightarrow> ('d \<Rightarrow> rat) \<Rightarrow> bool" where
  "declib_ok L num \<longleftrightarrow>
     (\<forall>d s. num (dl_shift L d s) = num d * ten_pow (sint s)) \<and>
     (\<forall>d. dl_big_int L d = int_trunc (num d)) \<and>
     (\<forall>d. - (2 ^ 63) \<le> int_trunc (num d) \<and> int_trunc (num d) < 2 ^ 63 \<longrightarrow>
        sint (dl_int_part L d) = int_trunc (num d)) \<and>
     (\<forall>n e. num (dl_new L n e) = of_int (sint n) * ten_pow (sint e)) \<and>
     (\<forall>n e. num (dl_new_big L n e) = of_int n * ten_pow (sint e))"

section \<open>Columns\<close>

record dec_cfg =
  dec_scale :: u32
  dec_precision :: int

definition dec_type :: "ctconst \<Rightarrow> ctypes \<Rightarrow> dec_cfg \<Rightarrow> string" where
  "dec_type k C g = ct_with C (ct_name C k) [itoa (dec_precision g), itoa (sint (dec_scale g))]"

definition parseDecimalParams :: "string \<Rightarrow> (int \<times> int) go" where
  "parseDecimalParams elem =
     (if elem = [] then Ok (0, 0)
      else case str_cut_at (CHR '','') elem of
        None \<Rightarrow> Err (Errorf ''decimal: expected precision,scale'')
      | Some (p, s) \<Rightarrow>
          go_bind (go_wrap ''decimal: invalid precision'' (atoi (trim_space p))) (\<lambda>prec.
          go_bind (go_wrap ''decimal: invalid scale'' (atoi (trim_space s))) (\<lambda>s.
          if s < 0 then Err (Errorf ''decimal: scale cannot be negative'')
          else if s > 2 ^ 31 - 1 then Err (Errorf ''decimal: scale too large'')
          else Ok (prec, s))))"

definition dec_infer :: "ctconst \<Rightarrow> int \<Rightarrow> ctypes \<Rightarrow> string \<Rightarrow> (dec_cfg, 't) conv_col \<Rightarrow> (dec_cfg, 't) conv_col go" where
  "dec_infer k maxprec C t c =
     (let base = ct_base C t in
      if base \<noteq> ct_name C k \<and> base \<noteq> ct_name C CT_Decimal then Err (Errorf ''decimal: unexpected type'')
      else go_bind (parseDecimalParams (ct_elem C t)) (\<lambda>(prec, scale).
        if prec > maxprec then Panic ''decimal: precision exceeds max''
        else let prec = (if prec < 1 then maxprec else prec)
             in Ok (c\<lparr>cv_cfg := \<lparr> dec_scale = word_of_int scale, dec_precision = prec \<rparr>\<rparr>)))"

definition dec32_put :: "'d declib \<Rightarrow> dec_cfg \<Rightarrow> 'd \<Rightarrow> u32" where
  "dec32_put L g v = ucast (dl_int_part L (dl_shift L v (dec_scale g)))"

definition dec32_get :: "'d declib \<Rightarrow> dec_cfg \<Rightarrow> u32 \<Rightarrow> 'd" where
  "dec32_get L g x = dl_new L (scast x) (- dec_scale g)"

definition dec32_ops :: "'d declib \<Rightarrow> ('r, 'w, (dec_cfg, u32) conv_col, 'd) of_ops" where
  "dec32_ops L = conv_ops (dec_type CT_Decimal32) (\<lambda>g v. Ok (dec32_put L g v)) (dec32_get L) (fixed_codec int32_t)
     (Some (dec_infer CT_Decimal32 9))"

definition dec64_put :: "'d declib \<Rightarrow> dec_cfg \<Rightarrow> 'd \<Rightarrow> u64" where
  "dec64_put L g v = dl_int_part L (dl_shift L v (dec_scale g))"

definition dec64_get :: "'d declib \<Rightarrow> dec_cfg \<Rightarrow> u64 \<Rightarrow> 'd" where
  "dec64_get L g x = dl_new L x (- dec_scale g)"

definition dec64_ops :: "'d declib \<Rightarrow> ('r, 'w, (dec_cfg, u64) conv_col, 'd) of_ops" where
  "dec64_ops L = conv_ops (dec_type CT_Decimal64) (\<lambda>g v. Ok (dec64_put L g v)) (dec64_get L) (fixed_codec int64_t)
     (Some (dec_infer CT_Decimal64 18))"

definition dec128_put :: "'d declib \<Rightarrow> dec_cfg \<Rightarrow> 'd \<Rightarrow> w128 go" where
  "dec128_put L g v =
     (case Int128FromBigInt (Some (dl_big_int L (dl_shift L v (dec_scale g)))) of
        Err e \<Rightarrow> Panic (''decimal128: '' @ error_text e) | Ok iv \<Rightarrow> Ok iv | Panic m \<Rightarrow> Panic m)"

definition dec128_get :: "'d declib \<Rightarrow> dec_cfg \<Rightarrow> w128 \<Rightarrow> 'd" where
  "dec128_get L g x = dl_new_big L (int128_ToBigInt x) (- dec_scale g)"

definition dec128_ops :: "'d declib \<Rightarrow> ('r, 'w, (dec_cfg, w128) conv_col, 'd) of_ops" where
  "dec128_ops L = conv_ops (dec_type CT_Decimal128) (dec128_put L) (dec128_get L) (fixed_codec w128_layout)
     (Some (dec_infer CT_Decimal128 38))"

definition dec256_put :: "'d declib \<Rightarrow> dec_cfg \<Rightarrow> 'd \<Rightarrow> w256 go" where
  "dec256_put L g v =
     (case Int256FromBigInt (Some (dl_big_int L (dl_shift L v (dec_scale g)))) of
        Err e \<Rightarrow> Panic (''decimal256: '' @ error_text e) | Ok iv \<Rightarrow> Ok iv | Panic m \<Rightarrow> Panic m)"

definition dec256_get :: "'d declib \<Rightarrow> dec_cfg \<Rightarrow> w256 \<Rightarrow> 'd" where
  "dec256_get L g x = dl_new_big L (int256_ToBigInt x) (- dec_scale g)"

definition dec256_ops :: "'d declib \<Rightarrow> ('r, 'w, (dec_cfg, w256) conv_col, 'd) of_ops" where
  "dec256_ops L = conv_ops (dec_type CT_Decimal256) (dec256_put L) (dec256_get L) (fixed_codec w256_layout)
     (Some (dec_infer CT_Decimal256 76))"

interpretation dec32_col: conv_column "fixed_codec int32_t :: ('r, 'w, u32) codec" "data_image int32_t"
    "\<lambda>g v. Ok (dec32_put L g v)" "dec32_get L" "\<lambda>_ _. True" for L :: "'d declib"
  by unfold_locales simp

interpretation dec64_col: conv_column "fixed_codec int64_t :: ('r, 'w, u64) codec" "data_image int64_t"
    "\<lambda>g v. Ok (dec64_put L g v)" "dec64_get L" "\<lambda>_ _. True" for L :: "'d declib"
  by unfold_locales simp

lemma dec128_put_cases:
  "if fits_signed 128 (dl_big_int L (dl_shift L v (dec_scale g)))
   then \<exists>x. dec128_put L g v = Ok x \<and> int128_ToBigInt x = dl_big_int L (dl_shift L v (dec_scale g))
   else is_panic (dec128_put L g v)"
  using Int128_core [of "dl_big_int L (dl_shift L v (dec_scale g))"]
  by (auto simp: dec128_put_def int128_big split: go.splits)

lemma dec256_put_cases:
  "if fits_signed 256 (dl_big_int L (dl_shift L v (dec_scale g)))
   then \<exists>x. dec256_put L g v = Ok x \<and> int256_ToBigInt x = dl_big_int L (dl_shift L v (dec_scale g))
   else is_panic (dec256_put L g v)"
  using Int256_core [of "dl_big_int L (dl_shift L v (dec_scale g))"]
  by (auto simp: dec256_put_def int256_big split: go.splits)

interpretation dec128_col: conv_column "fixed_codec w128_layout :: ('r, 'w, w128) codec" "data_image w128_layout"
    "dec128_put L" "dec128_get L" "\<lambda>g v. fits_signed 128 (dl_big_int L (dl_shift L v (dec_scale g)))" for L :: "'d declib"
  by unfold_locales (metis dec128_put_cases)

interpretation dec256_col: conv_column "fixed_codec w256_layout :: ('r, 'w, w256) codec" "data_image w256_layout"
    "dec256_put L" "dec256_get L" "\<lambda>g v. fits_signed 256 (dl_big_int L (dl_shift L v (dec_scale g)))" for L :: "'d declib"
  by unfold_locales (metis dec256_put_cases)


section \<open>Arithmetic\<close>

lemma sint_uminus32: "0 \<le> sint (s :: u32) \<Longrightarrow> sint (- s) = - sint s"
proof -
  assume s: "0 \<le> sint s"
  have "sint s < 2 ^ 31" using sint_less [of s] by simp
  then have "sint (word_of_int (- sint s) :: u32) = - sint s" using s by (intro sint_of_int32) simp_all
  then show ?thesis by simp
qed

lemma sint32_mod: "sint (word_of_int n :: u32) = (n + 2 ^ 31) mod 2 ^ 32 - 2 ^ 31"
  by (simp add: signed_of_int signed_take_bit_eq_take_bit_shift take_bit_eq_mod)

lemma sint_scast64: "sint (scast (x :: u32) :: u64) = sint x"
  by (rule sint_up_scast) (simp add: is_up)

lemma ucast_of_sint: "(ucast (x :: u64) :: u32) = word_of_int (sint x)"
proof -
  have "(ucast (word_of_int (sint x) :: u64) :: u32) = word_of_int (sint x)"
    by (rule ucast_down_wi) (simp add: is_down)
  then show ?thesis by simp
qed


lemma row_num:
  assumes "put (cv_cfg c) v = Ok x" and "num (get (cv_cfg c) x) = q"
  shows "\<exists>d. go_bind (cv_append put v c) (\<lambda>c'. cv_row get c' (int (cv_len c))) = Ok d \<and> num d = q"
  using assms by (simp add: row_after_append)

lemma append_panics: "is_panic (put (cv_cfg c) v) \<Longrightarrow> is_panic (cv_append put v c)"
  by (cases "put (cv_cfg c) v") (simp_all add: cv_append_def)

section \<open>Properties\<close>

text \<open>
  C29. \<open>Append\<close> then \<open>Row\<close> of a decimal column of scale \<open>s\<close>: the number times 10^s, its fraction
  dropped, is stored exactly when it fits the column's width, and the number read back is that
  integer over 10^s. Beyond the width Decimal128 and Decimal256 panic, while Decimal32 silently
  stores the integer modulo 2^32 (Decimal64: what \<open>IntPart\<close> does out of range, of which nothing
  is known).
\<close>

theorem decimal_rows:
  fixes c32 :: "(dec_cfg, u32) conv_col" and c64 :: "(dec_cfg, u64) conv_col"
    and c128 :: "(dec_cfg, w128) conv_col" and c256 :: "(dec_cfg, w256) conv_col"
  assumes L: "declib_ok L num" and g: "cv_cfg c32 = g" "cv_cfg c64 = g" "cv_cfg c128 = g" "cv_cfg c256 = g"
    and scale: "0 \<le> sint (dec_scale g)"
    and t: "t = int_trunc (num v * ten_pow (sint (dec_scale g)))"
  shows "(if fits_signed 64 t
      then (\<exists>d. go_bind (of_append (dec32_ops L :: ('r, 'w, _, _) of_ops) v c32) (\<lambda>c. of_row (dec32_ops L :: ('r, 'w, _, _) of_ops) c (int (cv_len c32))) = Ok d \<and>
               num d = of_int ((t + 2 ^ 31) mod 2 ^ 32 - 2 ^ 31) * ten_pow (- sint (dec_scale g))) \<and>
           (\<exists>d. go_bind (of_append (dec64_ops L :: ('r, 'w, _, _) of_ops) v c64) (\<lambda>c. of_row (dec64_ops L :: ('r, 'w, _, _) of_ops) c (int (cv_len c64))) = Ok d \<and>
               num d = of_int t * ten_pow (- sint (dec_scale g)))
      else True) \<and>
    (if fits_signed 128 t
      then \<exists>d. go_bind (of_append (dec128_ops L :: ('r, 'w, _, _) of_ops) v c128) (\<lambda>c. of_row (dec128_ops L :: ('r, 'w, _, _) of_ops) c (int (cv_len c128))) = Ok d \<and>
               num d = of_int t * ten_pow (- sint (dec_scale g))
      else is_panic (of_append (dec128_ops L :: ('r, 'w, _, _) of_ops) v c128)) \<and>
    (if fits_signed 256 t
      then \<exists>d. go_bind (of_append (dec256_ops L :: ('r, 'w, _, _) of_ops) v c256) (\<lambda>c. of_row (dec256_ops L :: ('r, 'w, _, _) of_ops) c (int (cv_len c256))) = Ok d \<and>
               num d = of_int t * ten_pow (- sint (dec_scale g))
      else is_panic (of_append (dec256_ops L :: ('r, 'w, _, _) of_ops) v c256))"
proof -
  let ?sh = "dl_shift L v (dec_scale g)"
  have sh: "num ?sh = num v * ten_pow (sint (dec_scale g))" using L by (simp add: declib_ok_def)
  have big: "dl_big_int L ?sh = t" using L by (simp add: declib_ok_def sh t)
  have ip: "sint (dl_int_part L ?sh) = t" if "fits_signed 64 t" using L that by (simp add: declib_ok_def sh t fits_signed_def)
  have new: "num (dl_new L n (- dec_scale g)) = of_int (sint n) * ten_pow (- sint (dec_scale g))"
      "num (dl_new_big L i (- dec_scale g)) = of_int i * ten_pow (- sint (dec_scale g))" for n i
    using L by (simp_all add: declib_ok_def sint_uminus32 [OF scale])
  have 32: "sint (scast (dec32_put L g v) :: u64) = (t + 2 ^ 31) mod 2 ^ 32 - 2 ^ 31" if "fits_signed 64 t"
    unfolding sint_scast64 dec32_put_def ucast_of_sint ip [OF that] sint32_mod by (rule refl)
  show ?thesis
    unfolding dec32_ops_def dec64_ops_def dec128_ops_def dec256_ops_def conv_ops_def of_ops.select_convs
  proof (intro conjI, goal_cases)
    case 1
    have "\<exists>d. go_bind (cv_append (\<lambda>g v. Ok (dec32_put L g v)) v c32) (\<lambda>c. cv_row (dec32_get L) c (int (cv_len c32))) = Ok d \<and>
        num d = of_int ((t + 2 ^ 31) mod 2 ^ 32 - 2 ^ 31) * ten_pow (- sint (dec_scale g))" if "fits_signed 64 t"
      by (rule row_num, rule refl) (simp only: g dec32_get_def new 32 [OF that])
    moreover have "\<exists>d. go_bind (cv_append (\<lambda>g v. Ok (dec64_put L g v)) v c64) (\<lambda>c. cv_row (dec64_get L) c (int (cv_len c64))) = Ok d \<and>
        num d = of_int t * ten_pow (- sint (dec_scale g))" if "fits_signed 64 t"
      by (rule row_num, rule refl) (simp only: g dec64_get_def dec64_put_def new ip [OF that])
    ultimately show ?case by simp
  next
    case 2
    show ?case using dec128_put_cases [of L v g] row_num [of "dec128_put L" c128 v _ num "dec128_get L"]
      by (auto simp: big g dec128_get_def new append_panics split: if_splits)
  next
    case 3
    show ?case using dec256_put_cases [of L v g] row_num [of "dec256_put L" c256 v _ num "dec256_get L"]
      by (auto simp: big g dec256_get_def new append_panics split: if_splits)
  qed
qed

text \<open>A decimal library in which a decimal is the rational number it denotes.\<close>

definition rat_declib :: "rat declib" where
  "rat_declib = \<lparr> dl_shift = (\<lambda>d s. d * ten_pow (sint s)), dl_int_part = (\<lambda>d. word_of_int (int_trunc d)),
     dl_big_int = int_trunc, dl_new = (\<lambda>n e. of_int (sint n) * ten_pow (sint e)), dl_new_big = (\<lambda>n e. of_int n * ten_pow (sint e)) \<rparr>"

lemma rat_declib_ok: "declib_ok rat_declib (\<lambda>q. q)"
  unfolding declib_ok_def rat_declib_def by (simp only: declib.select_convs) (auto intro: sint_of_int64)

theorem decimal_rows_witness:
  "\<exists>d. go_bind (of_append (dec32_ops rat_declib :: (byte list, byte list, _, _) of_ops) (2 ^ 32 + 5)
        (new_conv_col ''d'' \<lparr> dec_scale = 0, dec_precision = 9 \<rparr>))
      (\<lambda>c. of_row (dec32_ops rat_declib :: (byte list, byte list, _, _) of_ops) c 0) = Ok d \<and> d = 5"
proof -
  let ?g = "\<lparr> dec_scale = 0, dec_precision = 9 \<rparr>"
  have t: "2 ^ 32 + 5 = int_trunc ((2 ^ 32 + 5) * ten_pow (sint (dec_scale ?g)))"
    by (simp add: int_trunc_def ten_pow_def)
  have "0 \<le> sint (dec_scale ?g)" by simp
  note r = decimal_rows [where 'r = "byte list" and 'w = "byte list" and ?c32.0 = "new_conv_col ''d'' ?g"
      and ?c64.0 = "new_conv_col ''d'' ?g" and ?c128.0 = "new_conv_col ''d'' ?g" and ?c256.0 = "new_conv_col ''d'' ?g"
      and v = "2 ^ 32 + 5", OF rat_declib_ok _ _ _ _ this t]
  have "cv_cfg (new_conv_col ''d'' ?g) = ?g" for d :: "'t list" by (simp add: new_conv_col_def)
  with r show ?thesis by (simp add: new_conv_col_def cv_len_def fits_signed_def ten_pow_def)
qed

text \<open>
  C39. \<open>Infer\<close> of a decimal column reads back the precision and the scale that \<open>Type\<close> prints, also
  under the name \<open>Decimal\<close>; a bare type name gives scale 0 and the largest precision; a precision
  above the column's largest panics; the type of another column is an error.
\<close>

theorem decimal_infer_type:
  assumes C: "ctypes_ok C" and k: "k = CT_Decimal32 \<and> maxprec = 9 \<or> k = CT_Decimal64 \<and> maxprec = 18 \<or>
      k = CT_Decimal128 \<and> maxprec = 38 \<or> k = CT_Decimal256 \<and> maxprec = 76"
    and k': "k' \<in> {k, CT_Decimal}" and j: "j \<notin> {k, CT_Decimal}"
    and prec: "1 \<le> dec_precision g" "dec_precision g < 2 ^ 63" and scale: "0 \<le> sint (dec_scale g)"
  shows "dec_infer k maxprec C (dec_type k' C g) c =
      (if maxprec < dec_precision g then Panic ''decimal: precision exceeds max'' else Ok (c\<lparr>cv_cfg := g\<rparr>)) \<and>
    dec_infer k maxprec C (ct_name C k') c = Ok (c\<lparr>cv_cfg := \<lparr> dec_scale = 0, dec_precision = maxprec \<rparr>\<rparr>) \<and>
    dec_infer k maxprec C (dec_type j C g) c = Err (Errorf ''decimal: unexpected type'')"
proof -
  have s: "sint (dec_scale g) < 2 ^ 31" using sint_less [of "dec_scale g"] by simp
  have d: "itoa (dec_precision g) = nat_str (nat (dec_precision g))" "itoa (sint (dec_scale g)) = nat_str (nat (sint (dec_scale g)))"
    using prec scale by (simp_all add: itoa_def)
  have c: "CHR '','' \<notin> set (itoa (dec_precision g))"
    using nat_str_chars digit_range unfolding d by fastforce
  have pl: "trim_space (nat_str n) = nat_str n" for n
  proof (rule trim_space_id)
    have "plain x" if "x \<in> set (nat_str n)" for x
      using nat_str_chars [OF that] by (auto simp: plain_def is_digit_def)
    then show "nat_str n = [] \<or> plain (hd (nat_str n)) \<and> plain (last (nat_str n))" by simp
  qed
  have "parseDecimalParams (itoa (dec_precision g) @ CHR '','' # CHR '' '' # itoa (sint (dec_scale g))) = Ok (dec_precision g, sint (dec_scale g))"
    using s prec scale atoi_itoa [of "dec_precision g"] atoi_itoa [of "sint (dec_scale g)"]
    by (simp only: parseDecimalParams_def str_cut_at_append [OF c] option.case prod.case trim_space_blank)
      (simp add: d pl)
  moreover have "ct_base C (dec_type i C g) = ct_name C i" for i by (simp add: dec_type_def ct_base_with [OF C])
  moreover have "ct_elem C (ct_name C k') = []" using C by (simp add: ctypes_ok_def)
  ultimately show ?thesis
    using k k' j prec by (auto simp: dec_infer_def Let_def dec_type_def ct_elem_with [OF C] ct_base_with [OF C] ct_base_name [OF C]
        ct_name_eq [OF C] parseDecimalParams_def [of "[]"])
qed

theorem decimal_infer_type_witness:
  "dec_infer CT_Decimal32 9 list_ctypes (dec_type CT_Decimal list_ctypes \<lparr> dec_scale = 4, dec_precision = 18 \<rparr>) (new_conv_col ''d'' \<lparr> dec_scale = 4, dec_precision = 18 \<rparr> :: (dec_cfg, u32) conv_col) =
     Panic ''decimal: precision exceeds max''"
  using decimal_infer_type [OF list_ctypes_ok, of CT_Decimal32 9 CT_Decimal CT_String "\<lparr> dec_scale = 4, dec_precision = 18 \<rparr>" "new_conv_col ''d'' \<lparr> dec_scale = 4, dec_precision = 18 \<rparr> :: (dec_cfg, u32) conv_col"]
  by simp

end
