(* ===== verification/Enum_Columns.thy ===== *)
theory Enum_Columns
  imports Decimal_Columns
begin

text \<open>
  The Enum8 and Enum16 columns: a stored integer stands for a name, and \<open>Infer\<close> reads the pairs of
  names and values from the column type. \<^verbatim>\<open>enum8.go\<close> and \<^verbatim>\<open>enum16.go\<close> differ in the width of the
  integer, the length \<open>'k\<close> of the word here.
\<close>

record 't enum_cfg =
  en_t :: string
  en_rawToStr :: "'t \<Rightarrow> string option"
  en_strToRaw :: "string \<Rightarrow> 't option"

definition new_enum_cfg :: "'t enum_cfg" where
  "new_enum_cfg = \<lparr> en_t = [], en_rawToStr = (\<lambda>_. None), en_strToRaw = (\<lambda>_. None) \<rparr>"

definition enum_type :: "ctconst \<Rightarrow> ctypes \<Rightarrow> 't enum_cfg \<Rightarrow> string" where
  "enum_type k C g = (if en_t g \<noteq> [] then en_t g else ct_name C k)"

definition enum_get :: "'k::len word enum_cfg \<Rightarrow> 'k word \<Rightarrow> string" where
  "enum_get g v = (case en_rawToStr g v of Some s \<Rightarrow> s | None \<Rightarrow> itoa (sint v))"

definition enum_put :: "'k::len word enum_cfg \<Rightarrow> string \<Rightarrow> 'k word go" where
  "enum_put g v =
     (if v = [] then Ok 0
      else case en_strToRaw g v of None \<Rightarrow> Panic ''column: Enum: unknown name'' | Some n \<Rightarrow> Ok n)"

definition parseEnumPart :: "string \<Rightarrow> (string \<times> int) go" where
  "parseEnumPart part =
     (case str_cut_at (CHR ''='') (trim_space part) of
        None \<Rightarrow> Err (Errorf ''enum: bad element'')
      | Some (left, right) \<Rightarrow>
          go_bind (go_wrap ''enum: bad value'' (atoi (trim_space right))) (\<lambda>n.
          Ok (str_trim (trim_space left) [CHR 0x27], n)))"

definition parseEnumType :: "ctypes \<Rightarrow> string \<Rightarrow> (string \<times> int) list go" where
  "parseEnumType C t =
     (let elem = ct_elem C t
      in if elem = [] then Err (Errorf ''enum: no elements'')
         else go_map parseEnumPart (str_split (CHR '','') elem))"

definition enum_add :: "string \<times> int \<Rightarrow> 'k::len word enum_cfg \<Rightarrow> 'k word enum_cfg go" where
  "enum_add p g =
     (if snd p < - (2 ^ (LENGTH('k) - 1)) \<or> snd p > 2 ^ (LENGTH('k) - 1) - 1 then Err (Errorf ''enum: value out of range'')
      else let v = word_of_int (snd p)
           in Ok (g\<lparr>en_rawToStr := (en_rawToStr g)(v \<mapsto> fst p), en_strToRaw := (en_strToRaw g)(fst p \<mapsto> v)\<rparr>))"

definition enum_infer :: "ctconst \<Rightarrow> ctypes \<Rightarrow> string \<Rightarrow> ('k::len word enum_cfg, 't) conv_col \<Rightarrow> ('k word enum_cfg, 't) conv_col go" where
  "enum_infer k C t c =
     go_bind (parseEnumType C t) (\<lambda>pairs.
     if ct_base C t \<noteq> ct_name C k then Err (Errorf ''enum: unexpected type'')
     else go_bind (go_fold enum_add pairs ((cv_cfg c)\<lparr>en_rawToStr := (\<lambda>_. None), en_strToRaw := (\<lambda>_. None)\<rparr>)) (\<lambda>g.
          Ok (c\<lparr>cv_cfg := g\<lparr>en_t := t\<rparr>\<rparr>)))"

definition enum8_ops :: "('r, 'w, (byte enum_cfg, byte) conv_col, string) of_ops" where
  "enum8_ops = conv_ops (enum_type CT_Enum8) enum_put enum_get (fixed_codec int8_t) (Some (enum_infer CT_Enum8))"

definition enum16_ops :: "('r, 'w, (u16 enum_cfg, u16) conv_col, string) of_ops" where
  "enum16_ops = conv_ops (enum_type CT_Enum16) enum_put enum_get (fixed_codec int16_t) (Some (enum_infer CT_Enum16))"

interpretation enum8_col: conv_column "fixed_codec int8_t :: ('r, 'w, byte) codec" "data_image int8_t"
    enum_put enum_get "\<lambda>g v. v = [] \<or> v \<in> dom (en_strToRaw g)"
  by unfold_locales (auto simp: enum_put_def)

interpretation enum16_col: conv_column "fixed_codec int16_t :: ('r, 'w, u16) codec" "data_image int16_t"
    enum_put enum_get "\<lambda>g v. v = [] \<or> v \<in> dom (en_strToRaw g)"
  by unfold_locales (auto simp: enum_put_def)

section \<open>Reading a type\<close>

definition enum_elem :: "string \<times> int \<Rightarrow> string" where
  "enum_elem p = [CHR 0x27] @ fst p @ [CHR 0x27, CHR ''=''] @ itoa (snd p)"

definition enum_name_ok :: "string \<Rightarrow> bool" where
  "enum_name_ok n \<longleftrightarrow> n \<noteq> [] \<and> set n \<inter> {CHR '','', CHR ''=''} = {} \<and> hd n \<noteq> CHR 0x27 \<and> last n \<noteq> CHR 0x27"

lemma itoa_chars: "c \<in> set (itoa n) \<Longrightarrow> is_digit c \<or> c = CHR ''-''"
  using nat_str_chars by (auto simp: itoa_def split: if_splits)

lemma itoa_plain: "c \<in> set (itoa n) \<Longrightarrow> plain c \<and> c \<notin> {CHR '','', CHR ''='', CHR 0x27}"
  using itoa_chars [of c n] by (auto simp: is_digit_def plain_def)

lemma itoa_ends: "plain (hd (itoa n))" "plain (last (itoa n))"
  using itoa_plain [OF hd_in_set [of "itoa n"]] itoa_plain [OF last_in_set [of "itoa n"]] by simp_all

lemma trim_space_itoa: "trim_space (itoa n) = itoa n"
  by (rule trim_space_id) (simp add: itoa_ends)

lemma parseEnumPart_elem:
  assumes n: "enum_name_ok n" and v: "- (2 ^ 63) \<le> v" "v < 2 ^ 63"
  shows "parseEnumPart (enum_elem (n, v)) = Ok (n, v)" "parseEnumPart (CHR '' '' # enum_elem (n, v)) = Ok (n, v)"
proof -
  let ?l = "[CHR 0x27] @ n @ [CHR 0x27]"
  have e: "enum_elem (n, v) = ?l @ CHR ''='' # itoa v" by (simp add: enum_elem_def)
  have q: "plain (CHR 0x27)" by (simp add: plain_def)
  have "trim_space (enum_elem (n, v)) = enum_elem (n, v)"
    unfolding e by (rule trim_space_id) (simp add: itoa_ends q)
  moreover have "str_cut_at (CHR ''='') (enum_elem (n, v)) = Some (?l, itoa v)"
    unfolding e by (rule str_cut_at_append) (use n in \<open>auto simp: enum_name_ok_def\<close>)
  moreover have "trim_space ?l = ?l" by (rule trim_space_id) (simp add: q)
  moreover have "str_trim ?l [CHR 0x27] = n" by (rule str_trim_wrapped) (use n in \<open>auto simp: enum_name_ok_def\<close>)
  ultimately show "parseEnumPart (enum_elem (n, v)) = Ok (n, v)" "parseEnumPart (CHR '' '' # enum_elem (n, v)) = Ok (n, v)"
    using v by (simp_all add: parseEnumPart_def trim_space_blank trim_space_itoa atoi_itoa)
qed

lemma enum_elem_no_comma: "enum_name_ok (fst p) \<Longrightarrow> CHR '','' \<notin> set (enum_elem p)"
  using itoa_plain [of "CHR '',''" "snd p"] by (auto simp: enum_elem_def enum_name_ok_def)

lemma parse_join:
  assumes "ps \<noteq> []" and "\<forall>p \<in> set ps. enum_name_ok (fst p) \<and> - (2 ^ 63) \<le> snd p \<and> snd p < 2 ^ 63"
  shows "go_map parseEnumPart (str_split (CHR '','') (join '', '' (map enum_elem ps))) = Ok ps \<and>
    go_map parseEnumPart (str_split (CHR '','') (CHR '' '' # join '', '' (map enum_elem ps))) = Ok ps"
  using assms
proof (induction ps rule: induct_list012)
  case (2 p)
  have "CHR '','' \<notin> set (enum_elem p)" "CHR '','' \<notin> set (CHR '' '' # enum_elem p)"
    using enum_elem_no_comma [of p] 2 by simp_all
  then show ?case using parseEnumPart_elem [of "fst p" "snd p"] 2 by (simp add: str_split_no)
next
  case (3 p q ps)
  let ?rest = "CHR '' '' # join '', '' (map enum_elem (q # ps))"
  have j: "join '', '' (map enum_elem (p # q # ps)) = enum_elem p @ CHR '','' # ?rest" by simp
  have c: "CHR '','' \<notin> set (enum_elem p)" "CHR '','' \<notin> set (CHR '' '' # enum_elem p)"
    using enum_elem_no_comma [of p] 3 by simp_all
  have "str_split (CHR '','') (CHR '' '' # enum_elem p @ CHR '','' # ?rest) = (CHR '' '' # enum_elem p) # str_split (CHR '','') ?rest"
    using str_split_append [OF c(2), of ?rest] by (simp only: append_Cons)
  with str_split_append [OF c(1), of ?rest] show ?case
    using 3 parseEnumPart_elem [of "fst p" "snd p"] unfolding j
    by (simp del: join.simps str_split.simps)
qed simp

section \<open>Adding the pairs\<close>

lemma value_inj: "inj_on (\<lambda>n. word_of_int n :: 'k::len word) {- (2 ^ (LENGTH('k) - 1))..<2 ^ (LENGTH('k) - 1)}"
  by (rule inj_on_inverseI [where g = sint]) (simp add: signed_of_int signed_take_bit_int_eq_self)

lemma distinct_values:
  assumes "distinct (map snd ps)"
    and "\<forall>p \<in> set ps. - (2 ^ (LENGTH('k) - 1)) \<le> snd p \<and> snd p < 2 ^ (LENGTH('k) - 1)"
  shows "distinct (map (\<lambda>p. word_of_int (snd p) :: 'k::len word) ps)"
proof -
  have "snd ` set ps \<subseteq> {- (2 ^ (LENGTH('k) - 1))..<2 ^ (LENGTH('k) - 1)}" using assms(2) by auto
  then have "inj_on (\<lambda>n. word_of_int n :: 'k word) (set (map snd ps))" using inj_on_subset [OF value_inj] by simp
  then have "distinct (map (\<lambda>n. word_of_int n :: 'k word) (map snd ps))" using assms(1) by (subst distinct_map) (simp only: set_map)
  then show ?thesis by (simp add: comp_def)
qed

lemma enum_fold:
  fixes g :: "'k::len word enum_cfg"
  assumes "distinct (map fst ps)" and "distinct (map (\<lambda>p. word_of_int (snd p) :: 'k word) ps)"
    and "\<forall>p \<in> set ps. - (2 ^ (LENGTH('k) - 1)) \<le> snd p \<and> snd p < 2 ^ (LENGTH('k) - 1)"
  shows "go_fold enum_add ps g = Ok (g\<lparr>en_rawToStr := (en_rawToStr g) ++ map_of (map (\<lambda>p. (word_of_int (snd p), fst p)) ps),
      en_strToRaw := (en_strToRaw g) ++ map_of (map (\<lambda>p. (fst p, word_of_int (snd p))) ps)\<rparr>)"
  using assms
proof (induction ps arbitrary: g)
  case (Cons p ps)
  have "map_of (map (\<lambda>p. (fst p, word_of_int (snd p) :: 'k word)) ps) (fst p) = None"
    "map_of (map (\<lambda>p. (word_of_int (snd p) :: 'k word, fst p)) ps) (word_of_int (snd p)) = None"
    using Cons.prems(1,2) by (simp_all add: map_of_eq_None_iff image_image)
  moreover have "enum_add p g = Ok (g\<lparr>en_rawToStr := (en_rawToStr g)(word_of_int (snd p) \<mapsto> fst p),
      en_strToRaw := (en_strToRaw g)(fst p \<mapsto> word_of_int (snd p))\<rparr>)"
    using Cons.prems(3) by (simp add: enum_add_def Let_def)
  ultimately show ?case using Cons.prems Cons.IH by (auto intro!: enum_cfg.equality simp: fun_eq_iff map_add_def split: option.splits)
qed simp

section \<open>Properties\<close>

text \<open>
  Reading \<open>Enum8('n'=v, ...)\<close> with distinct names and values gives a column in which every
  name is stored as its value and every value is read back as its name; the empty name is stored
  as 0; any other name panics; a value without a name is read as its decimal numeral; the rows the
  column had stay. Likewise Enum16. (Names are not empty, have no comma or \<open>=\<close> and neither begin
  nor end with a quote.)
\<close>

theorem enum_infer_names:
  fixes c :: "('k::len word enum_cfg, 't) conv_col"
  assumes C: "ctypes_ok C" and ps: "ps \<noteq> []" and d: "distinct (map fst ps)" "distinct (map snd ps)"
    and names: "\<forall>p \<in> set ps. enum_name_ok (fst p) \<and> - (2 ^ (LENGTH('k) - 1)) \<le> snd p \<and> snd p < 2 ^ (LENGTH('k) - 1)"
    and w: "LENGTH('k) \<le> 64" and t: "t = ct_with C (ct_name C k) (map enum_elem ps)"
  shows "\<exists>g. enum_infer k C t c = Ok (c\<lparr>cv_cfg := g\<rparr>) \<and> enum_type k C g = t \<and>
     (\<forall>p \<in> set ps. enum_put g (fst p) = Ok (word_of_int (snd p)) \<and> enum_get g (word_of_int (snd p)) = fst p) \<and>
     enum_put g [] = Ok 0 \<and> (\<forall>n \<in> - fst ` set ps - {[]}. is_panic (enum_put g n)) \<and>
     (\<forall>v \<in> - (\<lambda>p. word_of_int (snd p)) ` set ps. enum_get g v = itoa (sint v))"
proof -
  let ?to = "map_of (map (\<lambda>p. (word_of_int (snd p) :: 'k word, fst p)) ps)"
  let ?from = "map_of (map (\<lambda>p. (fst p, word_of_int (snd p) :: 'k word)) ps)"
  let ?g = "\<lparr> en_t = t, en_rawToStr = ?to, en_strToRaw = ?from \<rparr>"
  have e: "ct_elem C t = join '', '' (map enum_elem ps)" and b: "ct_base C t = ct_name C k"
    using ps by (simp_all add: t ct_elem_with [OF C] ct_base_with [OF C])
  have jn: "join '', '' (map enum_elem ps) \<noteq> []"
    using ps by (cases ps; cases "drop 1 ps") (simp_all add: enum_elem_def)
  have tn: "t \<noteq> []" using ps by (simp add: t ct_with_nonempty [OF C])
  have "(2::int) ^ (LENGTH('k) - 1) \<le> 2 ^ 63" using w by (intro power_increasing) simp_all
  then have "\<forall>p \<in> set ps. enum_name_ok (fst p) \<and> - (2 ^ 63) \<le> snd p \<and> snd p < 2 ^ 63" using names by force
  then have pr: "parseEnumType C t = Ok ps" using parse_join [OF ps] jn by (simp add: parseEnumType_def e)
  have rng: "\<forall>p \<in> set ps. - (2 ^ (LENGTH('k) - 1)) \<le> snd p \<and> snd p < 2 ^ (LENGTH('k) - 1)" using names by simp
  note dv = distinct_values [OF d(2) rng]
  have i: "enum_infer k C t c = Ok (c\<lparr>cv_cfg := ?g\<rparr>)"
    by (simp add: enum_infer_def pr b enum_fold [OF d(1) dv rng])
  have "?to (word_of_int (snd p)) = Some (fst p)" "?from (fst p) = Some (word_of_int (snd p))" if "p \<in> set ps" for p
    using that d(1) dv by (auto intro!: map_of_is_SomeI simp: comp_def)
  moreover have "?from n = None" if "n \<notin> fst ` set ps" for n using that by (simp add: map_of_eq_None_iff image_image)
  moreover have "?to v = None" if "v \<notin> (\<lambda>p. word_of_int (snd p)) ` set ps" for v using that by (simp add: map_of_eq_None_iff image_image)
  ultimately show ?thesis using i tn names
    by (intro exI [of _ ?g]) (auto simp: enum_type_def enum_put_def enum_get_def enum_name_ok_def)
qed

theorem enum_infer_names_witness:
  "\<exists>g. enum_infer CT_Enum8 list_ctypes (ct_with list_ctypes (ct_name list_ctypes CT_Enum8)
      (map enum_elem [(''up'', 1), (''down'', -1)])) (new_conv_col ''e'' new_enum_cfg) =
      Ok ((new_conv_col ''e'' new_enum_cfg)\<lparr>cv_cfg := g\<rparr>) \<and> enum_put g ''down'' = Ok (255 :: byte)"
proof -
  have n: "\<forall>p \<in> set [(''up'', 1 :: int), (''down'', -1)]. enum_name_ok (fst p) \<and>
      - (2 ^ (LENGTH(8) - 1)) \<le> snd p \<and> snd p < 2 ^ (LENGTH(8) - 1)"
    by (simp add: enum_name_ok_def)
  show ?thesis
    using enum_infer_names [OF list_ctypes_ok _ _ _ n _ refl, of CT_Enum8 "new_conv_col ''e'' new_enum_cfg"] by auto
qed

end
