(* ===== verification/LowCardinality_Column.thy ===== *)
theory LowCardinality_Column
  imports Enum_Columns
begin

unbundle bit_operations_syntax

text \<open>
  \<open>LowCardinality[T]\<close> of \<^verbatim>\<open>column/lowcardinality.go\<close>: a column that is decoded into a dictionary and
  the keys of its rows, and expanded into the wrapped column \<open>Values\<close> before it is encoded. Go's
  \<open>map[T]int\<close> that \<open>EncodeColumn\<close> builds is the list of its keys in the order of their indices.
  A negative number of rows, which \<open>ReadRaw\<close> would be given, is not modelled.
\<close>

record ('c, 't) lc_col =
  lc_values :: 'c
  lc_dict :: "'t list"
  lc_keys :: "byte list"
  lc_keyWidth :: nat
  lc_expanded :: bool

definition new_lc_col :: "'c \<Rightarrow> ('c, 't) lc_col" where
  "new_lc_col col = \<lparr> lc_values = col, lc_dict = [], lc_keys = [], lc_keyWidth = 0, lc_expanded = False \<rparr>"

section \<open>Rows\<close>

definition lc_key :: "('c, 't) lc_col \<Rightarrow> int \<Rightarrow> int go" where
  "lc_key c i =
     (let w = lc_keyWidth c; lo = wrap64 (i * int w) in
      if w \<in> {1, 2, 4, 8}
      then if 0 \<le> lo \<and> lo + int w \<le> int (length (lc_keys c))
           then let v = le_dec (take w (drop (nat lo) (lc_keys c)))
                in Ok (if w = 8 then sint (word_of_nat v :: u64) else int v)
           else Panic ''index out of range''
      else Ok 0)"

definition lc_name :: "('r, 'w, 'c, 't) of_ops \<Rightarrow> ('c, 't) lc_col \<Rightarrow> string" where
  "lc_name I c = of_name I (lc_values c)"

definition lc_type :: "('r, 'w, 'c, 't) of_ops \<Rightarrow> ctypes \<Rightarrow> ('c, 't) lc_col \<Rightarrow> string" where
  "lc_type I C c = ct_sub C (ct_name C CT_LowCardinality) [of_type I C (lc_values c)]"

definition lc_key_count :: "('c, 't) lc_col \<Rightarrow> nat go" where
  "lc_key_count c =
     (if lc_keyWidth c = 0 then Panic ''integer divide by zero'' else Ok (length (lc_keys c) div lc_keyWidth c))"

definition lc_len :: "('r, 'w, 'c, 't) of_ops \<Rightarrow> ('c, 't) lc_col \<Rightarrow> nat go" where
  "lc_len I c = (if lc_expanded c \<or> lc_dict c = [] then Ok (of_len I (lc_values c)) else lc_key_count c)"

definition lc_row :: "('r, 'w, 'c, 't) of_ops \<Rightarrow> ('c, 't) lc_col \<Rightarrow> int \<Rightarrow> 't go" where
  "lc_row I c i =
     (if lc_expanded c \<or> lc_dict c = [] then of_row I (lc_values c) i
      else go_bind (lc_key c i) (idx (lc_dict c)))"

definition ensureExpanded :: "('r, 'w, 'c, 't) of_ops \<Rightarrow> ('c, 't) lc_col \<Rightarrow> ('c, 't) lc_col go" where
  "ensureExpanded I c =
     (if lc_expanded c then Ok c
      else if lc_dict c = [] then Ok c
      else go_bind (lc_key_count c) (\<lambda>n.
           go_bind (go_fold (\<lambda>i vals. go_bind (lc_key c (int i)) (\<lambda>k. go_bind (idx (lc_dict c) k) (\<lambda>x. of_append I x vals)))
             [0..<n] (of_reset I (lc_values c))) (\<lambda>vals.
           Ok (c\<lparr>lc_values := vals, lc_expanded := True\<rparr>))))"

section \<open>Encoding\<close>

definition lc_EncodeState :: "pbuffer \<Rightarrow> byte list \<Rightarrow> byte list" where
  "lc_EncodeState B b = put_int64 B 1 b"

text \<open>The width of a numeric kind, as the cases of the type switches have it.\<close>

fun kind_size :: "basety \<Rightarrow> nat" where
  "kind_size TUint8 = 1"
| "kind_size TUint16 = 2"
| "kind_size TUint32 = 4"
| "kind_size TUint64 = 8"
| "kind_size TInt8 = 1"
| "kind_size TInt16 = 2"
| "kind_size TInt32 = 4"
| "kind_size TInt64 = 8"
| "kind_size TFloat32 = 4"
| "kind_size TFloat64 = 8"
| "kind_size _ = 0"

definition encodeDictKeys :: "'t gotype \<Rightarrow> pbuffer \<Rightarrow> byte list \<Rightarrow> 't list \<Rightarrow> byte list" where
  "encodeDictKeys T B b ordered = (case gt_kind T of
       TString \<Rightarrow> foldl (\<lambda>b k. put_string B (bytes_str (gt_bytes T k)) b) b ordered
     | TOther \<Rightarrow> b
     | _ \<Rightarrow> foldl (\<lambda>b k. b @ gt_bytes T k) b ordered)"

text \<open>The index of a key in the map, under Go's equality of keys (a NaN equals no key).\<close>

fun lc_find :: "('t \<Rightarrow> 't \<Rightarrow> bool) \<Rightarrow> 't list \<Rightarrow> 't \<Rightarrow> nat option" where
  "lc_find eq [] v = None"
| "lc_find eq (k # ks) v = (if eq k v then Some 0 else map_option Suc (lc_find eq ks v))"

definition lc_add :: "('t \<Rightarrow> 't \<Rightarrow> bool) \<Rightarrow> 't \<Rightarrow> 't list \<Rightarrow> 't list" where
  "lc_add eq v ks = (case lc_find eq ks v of None \<Rightarrow> ks @ [v] | Some _ \<Rightarrow> ks)"

definition lc_keyType :: "nat \<Rightarrow> nat" where
  "lc_keyType dictSize =
     (if dictSize \<le> 256 then 0 else if dictSize \<le> 65536 then 1 else if dictSize \<le> 2 ^ 32 - 1 then 2 else 3)"

definition lc_encode :: "('r, 'w, 'c, 't) of_ops \<Rightarrow> 't gotype \<Rightarrow> pbuffer \<Rightarrow> ('c, 't) lc_col \<Rightarrow> byte list \<Rightarrow> (('c, 't) lc_col \<times> byte list) go" where
  "lc_encode I T B c b =
     go_bind (ensureExpanded I c) (\<lambda>c.
     let n = of_len I (lc_values c) in
     if n = 0 then Ok (c, b)
     else go_bind (go_fold (\<lambda>i d. go_bind (of_row I (lc_values c) (int i)) (\<lambda>v. Ok (lc_add (gt_eq T) v d))) [0..<n] []) (\<lambda>dict.
       let dictSize = length dict;
           kt = lc_keyType dictSize;
           b = put_int64 B (512 OR 1024 OR word_of_nat kt) b;
           b = put_int64 B (word_of_nat dictSize) b;
           b = encodeDictKeys T B b dict;
           b = put_int64 B (word_of_nat n) b
       in go_bind (go_map (\<lambda>i. go_bind (of_row I (lc_values c) (int i)) (\<lambda>v.
              Ok (le_enc (2 ^ kt) (case lc_find (gt_eq T) dict v of None \<Rightarrow> 0 | Some k \<Rightarrow> k)))) [0..<n]) (\<lambda>index.
          Ok (c, b @ concat index))))"

text \<open>
  The callback of \<open>WriteColumn\<close> drops the error of \<open>EncodeColumn\<close>, which never returns one. (A
  panic of \<open>Row\<close> inside the callback surfaces where the writer runs it.)
\<close>

definition lc_write :: "('r, 'w, 'c, 't) of_ops \<Rightarrow> 't gotype \<Rightarrow> 'w pwriter \<Rightarrow> pbuffer \<Rightarrow> ('c, 't) lc_col \<Rightarrow> 'w \<Rightarrow> (('c, 't) lc_col \<times> 'w) go" where
  "lc_write I T W B c w =
     go_bind (ensureExpanded I c) (\<lambda>c.
     Ok (c, chain_buffer W (\<lambda>b. case lc_encode I T B c b of Ok (_, b') \<Rightarrow> b' | _ \<Rightarrow> b) w))"

section \<open>Decoding\<close>

definition lc_DecodeState :: "'r preader \<Rightarrow> ('r, unit) rdm" where
  "lc_DecodeState P =
     rbind (rwrap (Wrapf ''low cardinality version'') (rd_int64 P)) (\<lambda>v.
     if v \<noteq> 1 then rlift (Err (Errorf ''low cardinality version'')) else rret ())"

fun read_strs :: "'r preader \<Rightarrow> nat \<Rightarrow> ('r, string list) rdm" where
  "read_strs P 0 = rret []"
| "read_strs P (Suc k) = rbind (rd_str P) (\<lambda>v. rbind (read_strs P k) (\<lambda>vs. rret (v # vs)))"

text \<open>The \<open>uint8\<close> case takes the address of the first byte read; the others loop.\<close>

definition decodeDictKeys :: "'t gotype \<Rightarrow> 'r preader \<Rightarrow> nat \<Rightarrow> ('r, 't list) rdm" where
  "decodeDictKeys T P n = (case gt_kind T of
       TString \<Rightarrow> rbind (read_strs P n) (\<lambda>vs. rret (map (\<lambda>s. gt_of T (str_bytes s)) vs))
     | TOther \<Rightarrow> rret (replicate n (gt_zero T))
     | k \<Rightarrow> rbind (rd_raw P (n * kind_size k)) (\<lambda>data.
         if k = TUint8 \<and> data = [] then rlift (Panic ''index out of range'')
         else rret (map (gt_of T) (split_chunks n (kind_size k) data))))"

definition decodeKeyIndices :: "'r preader \<Rightarrow> int \<Rightarrow> nat \<Rightarrow> byte list \<Rightarrow> nat \<Rightarrow> ('r, byte list \<times> nat) rdm" where
  "decodeKeyIndices P rows kt keys keyWidth =
     (if kt \<le> 3 then rbind (rd_raw P (nat (wrap64 (rows * 2 ^ kt)))) (\<lambda>data. rret (data, 2 ^ kt))
      else rret (keys, keyWidth))"

definition lc_validate :: "('c, 't) lc_col \<Rightarrow> unit go" where
  "lc_validate c =
     go_bind (lc_key_count c) (\<lambda>n.
     go_fold (\<lambda>i _. go_bind (lc_key c (int i)) (\<lambda>ix.
       if ix \<ge> int (length (lc_dict c)) \<or> ix < 0 then Err (Errorf ''key index out of range'') else Ok ())) [0..<n] ())"

definition lc_decode :: "'t gotype \<Rightarrow> 'r preader \<Rightarrow> ('c, 't) lc_col \<Rightarrow> int \<Rightarrow> ('r, ('c, 't) lc_col) rdm" where
  "lc_decode T P c rows =
     (if rows = 0 then rret c
      else
        rbind (rwrap (Wrapf ''low cardinality meta'') (rd_int64 P)) (\<lambda>meta.
        if meta AND 0x100 \<noteq> 0 then rlift (Err (Errorf ''low cardinality global dictionary not supported''))
        else if meta AND 0x200 = 0 then rlift (Err (Errorf ''low cardinality missing additional keys bit''))
        else
        rbind (rwrap (Wrapf ''low cardinality index rows'') (rd_int64 P)) (\<lambda>ir.
        let kt = unat (meta AND 0xFF); indexRows = sint ir in
        if indexRows > 100000000 \<or> indexRows < 0 then rlift (Err (Errorf ''low cardinality index rows out of range''))
        else
        rbind (rlift (go_make (gt_size T) indexRows indexRows)) (\<lambda>_.
        rbind (rwrap (Wrapf ''low cardinality dict'') (decodeDictKeys T P (nat indexRows))) (\<lambda>dict.
        rbind (rwrap (Wrapf ''low cardinality key rows'') (rd_int64 P)) (\<lambda>keyRows.
        if sint keyRows \<noteq> rows then rlift (Err (Errorf ''low cardinality key rows mismatch''))
        else
        rbind (rwrap (Wrapf ''low cardinality keys'') (decodeKeyIndices P rows kt (lc_keys c) (lc_keyWidth c))) (\<lambda>(keys, keyWidth).
        let d = c\<lparr>lc_dict := dict, lc_keys := keys, lc_keyWidth := keyWidth\<rparr> in
        rbind (rlift (lc_validate d)) (\<lambda>_. rret (d\<lparr>lc_expanded := False\<rparr>)))))))))"

section \<open>Dictionary types\<close>

definition string_t :: "string gotype" where
  "string_t = \<lparr> gt_kind = TString, gt_size = 16, gt_bytes = str_bytes, gt_of = bytes_str, gt_zero = [], gt_eq = (=) \<rparr>"

definition dict_image :: "'t gotype \<Rightarrow> 't list \<Rightarrow> byte list" where
  "dict_image T ks = concat (map (\<lambda>k. (if gt_kind T = TString then uvarint (length (gt_bytes T k)) else []) @ gt_bytes T k) ks)"

lemma dict_image_simps [simp]:
  "dict_image T [] = []"
  "dict_image T (k # ks) = (if gt_kind T = TString then uvarint (length (gt_bytes T k)) else []) @ gt_bytes T k @ dict_image T ks"
  by (simp_all add: dict_image_def)

lemma str_bytes_str [simp]: "str_bytes (bytes_str bs) = bs"
proof -
  have "(of_char (char_of (unat b) :: char) :: byte) = b" for b :: byte
    using unat_byte_less [of b] by (simp add: word_unat_eq_iff unat_of_char)
  then show ?thesis by (simp add: str_bytes_def bytes_str_def comp_def)
qed

lemma map_split_chunks:
  assumes "\<And>x. length (f x) = w" and "\<And>x. g (f x) = x"
  shows "map g (split_chunks (length xs) w (concat (map f xs))) = xs"
  using assms by (induction xs) simp_all

lemma read_strs_yields:
  assumes P: "reader_ok P pd" and "\<forall>s \<in> set ss. length s < 2 ^ 63"
  shows "yields pd (read_strs P (length ss)) (concat (map (\<lambda>s. uvarint (length s) @ str_bytes s) ss)) ss"
  using assms(2)
proof (induction ss)
  case (Cons s ss)
  have "yields pd (rbind (rd_str P) (\<lambda>v. rbind (read_strs P (length ss)) (\<lambda>vs. rret (v # vs))))
      ((uvarint (length s) @ str_bytes s) @ concat (map (\<lambda>s. uvarint (length s) @ str_bytes s) ss)) (s # ss)"
    by (rule yields_bind [OF rd_str_yields [OF P]]) (use Cons in \<open>auto intro: yields_bind_rret\<close>)
  then show ?case by simp
qed (simp add: yields_rret)

locale dict_type =
  fixes T :: "'t gotype"
  assumes kind: "gt_kind T \<noteq> TOther"
    and size: "gt_kind T \<noteq> TString \<Longrightarrow> length (gt_bytes T k) = kind_size (gt_kind T)"
    and of_bytes: "gt_of T (gt_bytes T k) = k"
    and eq: "gt_eq T = (=)"
    and size_small: "gt_size T \<le> 16"
begin

lemma encodeDictKeys_eq: "buffer_ok B \<Longrightarrow> encodeDictKeys T B b ks = b @ dict_image T ks"
proof (induction ks arbitrary: b)
  case (Cons k ks)
  then show ?case
    using kind by (cases "gt_kind T") (simp_all add: encodeDictKeys_def put_string_eq flip: length_str_bytes)
qed (cases "gt_kind T"; simp add: encodeDictKeys_def)

lemma decodeDictKeys_yields:
  assumes P: "reader_ok P pd" and ks: "ks \<noteq> []" and sm: "small (dict_image T ks)"
  shows "yields pd (decodeDictKeys T P (length ks)) (dict_image T ks) ks"
proof (cases "gt_kind T = TString")
  case True
  let ?ss = "map (\<lambda>k. bytes_str (gt_bytes T k)) ks"
  have l: "length (bytes_str (gt_bytes T k)) = length (gt_bytes T k)" for k by (simp add: bytes_str_def)
  have "length (gt_bytes T k) \<le> length (dict_image T ks)" if "k \<in> set ks" for k
    using that by (induction ks) auto
  with sm have "\<forall>s \<in> set ?ss. length s < 2 ^ 63" by (force simp: l)
  from read_strs_yields [OF P this]
  have "yields pd (read_strs P (length ks)) (dict_image T ks) ?ss"
    using True by (simp add: dict_image_def l comp_def)
  from yields_bind_rret [OF this, of "map (\<lambda>s. gt_of T (str_bytes s))"] show ?thesis
    using True by (simp add: decodeDictKeys_def comp_def of_bytes)
next
  case False
  let ?w = "kind_size (gt_kind T)"
  have im: "dict_image T ks = concat (map (gt_bytes T) ks)" using False by (simp add: dict_image_def)
  have "length (concat (map (gt_bytes T) ks)) = length ks * ?w" for ks
    using size [OF False] by (induction ks) simp_all
  with im have len: "length (dict_image T ks) = length ks * ?w" by simp
  have w: "0 < ?w" using kind False by (cases "gt_kind T") simp_all
  have ne: "dict_image T ks \<noteq> []" using len w ks by fastforce
  have m: "map (gt_of T) (split_chunks (length ks) ?w (dict_image T ks)) = ks"
    unfolding im by (rule map_split_chunks) (simp_all add: size [OF False] of_bytes)
  have "yields pd (rbind (rd_raw P (length ks * ?w)) (\<lambda>data.
         if gt_kind T = TUint8 \<and> data = [] then rlift (Panic ''index out of range'')
         else rret (map (gt_of T) (split_chunks (length ks) ?w data)))) (dict_image T ks) ks"
    by (rule yields_bind_pure [OF rd_raw_yields [OF P len]]) (simp add: ne m)
  moreover have "decodeDictKeys T P (length ks) = rbind (rd_raw P (length ks * ?w)) (\<lambda>data.
         if gt_kind T = TUint8 \<and> data = [] then rlift (Panic ''index out of range'')
         else rret (map (gt_of T) (split_chunks (length ks) ?w data)))"
    using kind False unfolding decodeDictKeys_def by (cases "gt_kind T") (simp_all only: basety.case basety.distinct simp_thms)
  ultimately show ?thesis by simp
qed

end

section \<open>The dictionary\<close>

lemma lc_find_None: "lc_find (=) ks v = None \<longleftrightarrow> v \<notin> set ks"
  by (induction ks) auto

lemma lc_find_Some: "lc_find (=) ks v = Some i \<Longrightarrow> i < length ks \<and> ks ! i = v"
  by (induction ks arbitrary: i) (auto split: if_splits)

lemma lc_find_ex: "v \<in> set ks \<Longrightarrow> \<exists>i. lc_find (=) ks v = Some i"
  using lc_find_None [of ks v] by auto

text \<open>The keys in the order of their first occurrence.\<close>

definition lc_dict_of :: "'t list \<Rightarrow> 't list" where
  "lc_dict_of xs = fold (lc_add (=)) xs []"

lemma lc_fold_add:
  "set (fold (lc_add (=)) xs ks) = set ks \<union> set xs \<and> (distinct ks \<longrightarrow> distinct (fold (lc_add (=)) xs ks)) \<and>
    length (fold (lc_add (=)) xs ks) \<le> length ks + length xs"
proof (induction xs arbitrary: ks)
  case (Cons x xs)
  have "set (lc_add (=) x ks) = insert x (set ks)" "distinct ks \<longrightarrow> distinct (lc_add (=) x ks)"
    "length (lc_add (=) x ks) \<le> Suc (length ks)"
    using lc_find_None [of ks x] lc_find_Some [of ks x] by (auto simp: lc_add_def split: option.splits)
  with Cons.IH [of "lc_add (=) x ks"] show ?case by auto
qed simp

lemma lc_dict_of: "set (lc_dict_of xs) = set xs" "distinct (lc_dict_of xs)" "length (lc_dict_of xs) \<le> length xs"
  using lc_fold_add [of xs "[]"] by (simp_all add: lc_dict_of_def)

definition lc_index :: "'t list \<Rightarrow> 't \<Rightarrow> nat" where
  "lc_index ks v = (case lc_find (=) ks v of None \<Rightarrow> 0 | Some k \<Rightarrow> k)"

lemma lc_index: "v \<in> set ks \<Longrightarrow> lc_index ks v < length ks \<and> ks ! lc_index ks v = v"
  using lc_find_ex [of v ks] lc_find_Some [of ks v] by (auto simp: lc_index_def)

lemma lc_keyType_le3: "lc_keyType n \<le> 3"
  by (simp add: lc_keyType_def)

lemma lc_keyType_room: "n < 2 ^ 40 \<Longrightarrow> n \<le> 256 ^ (2 ^ lc_keyType n)"
  by (auto simp: lc_keyType_def)

definition lc_image :: "'t gotype \<Rightarrow> 't list \<Rightarrow> byte list" where
  "lc_image T xs =
     (if xs = [] then []
      else let ks = lc_dict_of xs; kt = lc_keyType (length ks)
           in le_enc 8 (0x600 + kt) @ le_enc 8 (length ks) @ dict_image T ks @ le_enc 8 (length xs) @
              concat (map (\<lambda>x. le_enc (2 ^ kt) (lc_index ks x)) xs))"

section \<open>Keys\<close>

text \<open>
  A column that holds a decoded dictionary: every key of its rows is an index of the dictionary.
\<close>

definition lc_valid :: "('c, 't) lc_col \<Rightarrow> nat \<Rightarrow> bool" where
  "lc_valid c n \<longleftrightarrow> \<not> lc_expanded c \<and> lc_key_count c = Ok n \<and>
     (\<forall>i < n. \<exists>k. lc_key c (int i) = Ok (int k) \<and> k < length (lc_dict c))"

definition lc_at :: "('c, 't) lc_col \<Rightarrow> nat \<Rightarrow> 't" where
  "lc_at c i = (case lc_key c (int i) of Ok k \<Rightarrow> lc_dict c ! nat k | _ \<Rightarrow> hd (lc_dict c))"

lemma lc_validate_Ok:
  assumes "lc_validate c = Ok ()"
  shows "\<exists>n. lc_key_count c = Ok n \<and> (\<forall>i < n. \<exists>k. lc_key c (int i) = Ok (int k) \<and> k < length (lc_dict c))"
proof -
  let ?f = "\<lambda>i (_ :: unit). go_bind (lc_key c (int i)) (\<lambda>ix.
      if ix \<ge> int (length (lc_dict c)) \<or> ix < 0 then Err (Errorf ''key index out of range'') else Ok ())"
  obtain n where n: "lc_key_count c = Ok n" "go_fold ?f [0..<n] () = Ok ()"
    using assms by (auto simp: lc_validate_def go_bind_eq_Ok)
  have "\<exists>k. lc_key c (int i) = Ok (int k) \<and> k < length (lc_dict c)" if "go_fold ?f xs () = Ok ()" "i \<in> set xs" for xs i
    using that
  proof (induction xs)
    case (Cons x xs)
    then obtain k where k: "lc_key c (int x) = Ok k" "0 \<le> k" "k < int (length (lc_dict c))"
      by (auto simp: go_bind_eq_Ok split: if_splits)
    then have "lc_key c (int x) = Ok (int (nat k)) \<and> nat k < length (lc_dict c)" by simp
    moreover have "go_fold ?f xs () = Ok ()" using Cons.prems(1) k by simp
    ultimately show ?case using Cons by (metis set_ConsD)
  qed simp
  with n show ?thesis by (intro exI [of _ n]) auto
qed

lemma lc_validate_valid:
  assumes "lc_key_count c = Ok n" and "\<And>i. i < n \<Longrightarrow> \<exists>k. lc_key c (int i) = Ok (int k) \<and> k < length (lc_dict c)"
  shows "lc_validate c = Ok ()"
proof -
  let ?f = "\<lambda>i (_ :: unit). go_bind (lc_key c (int i)) (\<lambda>ix.
      if ix \<ge> int (length (lc_dict c)) \<or> ix < 0 then Err (Errorf ''key index out of range'') else Ok ())"
  have "go_fold ?f xs () = Ok ()" if "set xs \<subseteq> {0..<n}" for xs
    using that
  proof (induction xs)
    case (Cons x xs)
    then obtain k where "lc_key c (int x) = Ok (int k)" "k < length (lc_dict c)" using assms(2) [of x] by auto
    with Cons show ?case by simp
  qed simp
  then show ?thesis by (simp add: lc_validate_def assms(1))
qed

lemma lc_valid_row:
  assumes "lc_valid c n" and "i < n"
  shows "lc_row I c (int i) = Ok (lc_at c i) \<and> lc_at c i \<in> set (lc_dict c)"
proof -
  obtain k where "lc_key c (int i) = Ok (int k)" "k < length (lc_dict c)" using assms by (auto simp: lc_valid_def)
  then show ?thesis using assms by (auto simp: lc_row_def lc_at_def lc_valid_def)
qed

lemma lc_valid_len: "lc_valid c n \<Longrightarrow> 0 < n \<Longrightarrow> lc_len I c = Ok n"
  by (auto simp: lc_len_def lc_valid_def)

text \<open>Keys written with a width of \<open>w\<close> bytes are read back.\<close>

lemma take_chunk:
  assumes "\<And>x. length (f x) = w" and "i < length xs"
  shows "take w (drop (i * w) (concat (map f xs))) = f (xs ! i)"
  using assms(2)
proof (induction xs arbitrary: i)
  case (Cons x xs)
  then show ?case by (cases i) (simp_all add: assms(1))
qed simp

lemma length_chunks: "(\<And>x. length (f x) = w) \<Longrightarrow> length (concat (map f xs)) = length xs * w"
  by (induction xs) simp_all

lemma lc_key_encoded:
  assumes w: "lc_keyWidth c = 2 ^ kt" "kt \<le> 3" and ks: "lc_keys c = concat (map (le_enc (2 ^ kt)) ixs)"
    and i: "i < length ixs" and len: "length ixs < 2 ^ 40" and ix: "ixs ! i < 256 ^ 2 ^ kt" "ixs ! i < 2 ^ 40"
  shows "lc_key c (int i) = Ok (int (ixs ! i))"
proof -
  have kt: "kt \<in> {0, 1, 2, 3}" using w(2) by auto
  then have p: "(2 :: nat) ^ kt \<in> {1, 2, 4, 8}" by auto
  have le: "(i + 1) * 2 ^ kt \<le> length (lc_keys c)"
    using i by (simp add: ks length_chunks del: mult_Suc)
  have "i * 2 ^ kt \<le> 2 ^ 40 * 8" using i len p by (intro mult_mono) auto
  then have "int (i * 2 ^ kt) \<le> int (2 ^ 43)" by (simp only: of_nat_le_iff) simp
  moreover have "- (2 ^ 63) \<le> int (i * 2 ^ kt)" by (rule order_trans [of _ 0]) simp_all
  ultimately have "wrap64 (int (i * 2 ^ kt)) = int (i * 2 ^ kt)" by (intro wrap64_id) simp_all
  then have wr: "wrap64 (int i * int (2 ^ kt)) = int (i * 2 ^ kt)" by (simp only: of_nat_mult)
  have v: "le_dec (take (2 ^ kt) (drop (i * 2 ^ kt) (lc_keys c))) = ixs ! i"
    using i ix(1) by (simp add: ks take_chunk le_dec_enc)
  have "sint (word_of_nat (ixs ! i) :: u64) = int (ixs ! i)" using ix(2) by (rule sint_small)
  moreover have "int (i * 2 ^ kt) + int (2 ^ kt) \<le> int (length (lc_keys c))"
    using le by (simp only: of_nat_add [symmetric] of_nat_le_iff) (simp add: algebra_simps)
  ultimately show ?thesis
    using p unfolding lc_key_def Let_def w(1) wr by (simp only: nat_int v) simp
qed

section \<open>The column over an element column\<close>

text \<open>What the column contains: the rows of \<open>Values\<close>, or the keys' entries of the dictionary.\<close>

definition lc_contents :: "('c \<Rightarrow> 't list) \<Rightarrow> ('c, 't) lc_col \<Rightarrow> nat \<Rightarrow> 't list" where
  "lc_contents rows c n =
     (if lc_expanded c \<or> lc_dict c = [] then rows (lc_values c) else map (lc_at c) [0..<n])"

context of_column
begin

lemma append_keys:
  assumes "lc_valid c n" and "set is \<subseteq> {0..<n}" and "inv vals"
    and ok: "\<forall>k \<in> set (lc_dict c). acc vals k \<and> norm vals k = k"
  shows "\<exists>vals'. go_fold (\<lambda>i vals. go_bind (lc_key c (int i)) (\<lambda>k. go_bind (idx (lc_dict c) k) (\<lambda>x. of_append I x vals))) is vals = Ok vals' \<and>
      inv vals' \<and> like vals vals' \<and> rows vals' = rows vals @ map (lc_at c) is"
  using assms(2,3,4)
proof (induction "is" arbitrary: vals)
  case (Cons i "is")
  let ?step = "\<lambda>i vals. go_bind (lc_key c (int i)) (\<lambda>k. go_bind (idx (lc_dict c) k) (\<lambda>x. of_append I x vals))"
  obtain k where k: "lc_key c (int i) = Ok (int k)" "k < length (lc_dict c)"
    using assms(1) Cons.prems(1) by (auto simp: lc_valid_def)
  then have at: "lc_at c i = lc_dict c ! k" by (simp add: lc_at_def)
  have "acc vals (lc_at c i)" "norm vals (lc_at c i) = lc_at c i" using Cons.prems(3) k at by simp_all
  with append [OF Cons.prems(2), of "lc_at c i"] obtain v1 where
    v1: "of_append I (lc_at c i) vals = Ok v1" "inv v1" "like vals v1" "rows v1 = rows vals @ [lc_at c i]" by auto
  have "\<forall>k \<in> set (lc_dict c). acc v1 k \<and> norm v1 k = k"
    using Cons.prems(3) like_acc [OF v1(3)] like_norm [OF v1(3)] by simp
  with Cons.IH [of v1] Cons.prems v1(2) obtain v2 where
    v2: "go_fold ?step is v1 = Ok v2" "inv v2" "like v1 v2" "rows v2 = rows v1 @ map (lc_at c) is" by auto
  have "?step i vals = Ok v1" using k at v1(1) by simp
  with v2 v1 like_trans [OF v1(3) v2(3)] show ?case by auto
qed (simp add: like_refl)

text \<open>Expanding keeps the rows.\<close>

lemma expand:
  assumes "lc_expanded c \<or> lc_dict c = [] \<or> lc_valid c n" and "inv (lc_values c)"
    and ok: "\<forall>k \<in> set (lc_dict c). acc (lc_values c) k \<and> norm (lc_values c) k = k"
  shows "\<exists>vals. ensureExpanded I c = Ok (if lc_expanded c \<or> lc_dict c = [] then c else c\<lparr>lc_values := vals, lc_expanded := True\<rparr>) \<and>
      (\<not> (lc_expanded c \<or> lc_dict c = []) \<longrightarrow> inv vals \<and> rows vals = map (lc_at c) [0..<n])"
proof (cases "lc_expanded c \<or> lc_dict c = []")
  case False
  then have v: "lc_valid c n" using assms(1) by simp
  have r: "inv (of_reset I (lc_values c))" "rows (of_reset I (lc_values c)) = []" "like (of_reset I (lc_values c)) (lc_values c)"
    using reset [OF assms(2)] by auto
  have "\<forall>k \<in> set (lc_dict c). acc (of_reset I (lc_values c)) k \<and> norm (of_reset I (lc_values c)) k = k"
    using ok like_acc [OF r(3)] like_norm [OF r(3)] by simp
  from append_keys [OF v _ r(1) this, of "[0..<n]"] show ?thesis
    using False v r by (auto simp: ensureExpanded_def lc_valid_def)
qed (auto simp: ensureExpanded_def)

end

locale lc_client = of_column I inv rows wire acc norm like + dict_type T
  for I :: "('r, 'w, 'c, 't) of_ops" and inv rows wire acc norm like and T :: "'t gotype"
begin

lemma fold_rows:
  assumes "inv vals" and "small (wire vals)" and "set is \<subseteq> {0..<length (rows vals)}"
  shows "go_fold (\<lambda>i d. go_bind (of_row I vals (int i)) (\<lambda>v. Ok (h v d))) is d = Ok (fold h (map (\<lambda>i. rows vals ! i) is) d)"
  using assms(3) by (induction "is" arbitrary: d) (simp_all add: row [OF assms(1,2)])

lemma encode_plain:
  assumes "lc_expanded c \<or> lc_dict c = []" and v: "inv (lc_values c)" and sm: "small (wire (lc_values c))" and B: "buffer_ok B"
  shows "lc_encode I T B c b = Ok (c, b @ lc_image T (rows (lc_values c)))"
proof -
  let ?xs = "rows (lc_values c)"
  have e: "ensureExpanded I c = Ok c" using assms(1) by (auto simp: ensureExpanded_def)
  have n: "of_len I (lc_values c) = length ?xs" by (rule len [OF v])
  have nth: "map (\<lambda>i. ?xs ! i) [0..<length ?xs] = ?xs" by (rule map_nth)
  have d: "go_fold (\<lambda>i d. go_bind (of_row I (lc_values c) (int i)) (\<lambda>v. Ok (lc_add (gt_eq T) v d))) [0..<length ?xs] [] = Ok (lc_dict_of ?xs)"
    using fold_rows [OF v sm, of "[0..<length ?xs]" "lc_add (=)" "[]"] by (simp add: eq nth lc_dict_of_def)
  let ?ks = "lc_dict_of ?xs" and ?kt = "lc_keyType (length (lc_dict_of ?xs))"
  have "go_map (\<lambda>i. go_bind (of_row I (lc_values c) (int i)) (\<lambda>v.
       Ok (le_enc (2 ^ ?kt) (case lc_find (gt_eq T) ?ks v of None \<Rightarrow> 0 | Some k \<Rightarrow> k)))) [0..<length ?xs] =
      Ok (map (\<lambda>i. le_enc (2 ^ ?kt) (lc_index ?ks (?xs ! i))) [0..<length ?xs])"
    by (rule go_map_upt) (simp_all add: row [OF v sm] eq lc_index_def)
  moreover have "map (\<lambda>i. le_enc (2 ^ ?kt) (lc_index ?ks (?xs ! i))) [0..<length ?xs] = map (\<lambda>x. le_enc (2 ^ ?kt) (lc_index ?ks x)) ?xs"
    by (subst (2) nth [symmetric]) simp
  ultimately have m: "go_map (\<lambda>i. go_bind (of_row I (lc_values c) (int i)) (\<lambda>v.
       Ok (le_enc (2 ^ ?kt) (case lc_find (gt_eq T) ?ks v of None \<Rightarrow> 0 | Some k \<Rightarrow> k)))) [0..<length ?xs] =
      Ok (map (\<lambda>x. le_enc (2 ^ ?kt) (lc_index ?ks x)) ?xs)" by simp
  have l: "length ?xs < 2 ^ 40" using rows_wire [OF v] sm by simp
  then have l': "length ?ks < 2 ^ 40" using lc_dict_of(3) [of ?xs] by simp
  have "?kt \<in> {0, 1, 2, 3}" using lc_keyType_le3 [of "length ?ks"] by auto
  then have meta: "unat (512 OR 1024 OR word_of_nat ?kt :: u64) = 0x600 + ?kt" by auto
  show ?thesis
    using l l' by (simp add: lc_encode_def e n d m Let_def put_int64_eq [OF B] encodeDictKeys_eq [OF B] meta unat_small lc_image_def)
qed

end

lemma key_bytes:
  assumes "n < 2 ^ 40" and "kt \<le> 3"
  shows "nat (wrap64 (int n * 2 ^ kt)) = n * 2 ^ kt"
proof -
  have "kt \<in> {0, 1, 2, 3}" using assms(2) by auto
  then have "n * 2 ^ kt \<le> 2 ^ 40 * 8" using assms(1) by (intro mult_mono) auto
  then have "int (n * 2 ^ kt) \<le> int (2 ^ 43)" by (simp only: of_nat_le_iff) simp
  moreover have "- (2 ^ 63) \<le> int (n * 2 ^ kt)" by (rule order_trans [of _ 0]) simp_all
  ultimately have "wrap64 (int (n * 2 ^ kt)) = int (n * 2 ^ kt)" by (intro wrap64_id) simp_all
  then show ?thesis by (simp add: nat_mult_distrib nat_power_eq)
qed

context dict_type
begin

definition lc_decoded :: "'t list \<Rightarrow> ('d, 't) lc_col \<Rightarrow> ('d, 't) lc_col" where
  "lc_decoded xs c =
     (let ks = lc_dict_of xs; kt = lc_keyType (length ks)
      in c\<lparr>lc_dict := ks, lc_keys := concat (map (\<lambda>x. le_enc (2 ^ kt) (lc_index ks x)) xs), lc_keyWidth := 2 ^ kt, lc_expanded := False\<rparr>)"

lemma lc_decoded_sel [simp]:
  "lc_dict (lc_decoded xs c) = lc_dict_of xs" "\<not> lc_expanded (lc_decoded xs c)" "lc_values (lc_decoded xs c) = lc_values c"
  by (simp_all add: lc_decoded_def Let_def)

lemma lc_decoded_key:
  assumes "i < length xs" and "length xs < 2 ^ 40"
  shows "lc_key (lc_decoded xs c) (int i) = Ok (int (lc_index (lc_dict_of xs) (xs ! i)))"
proof -
  let ?ks = "lc_dict_of xs"
  have len: "length ?ks < 2 ^ 40" using lc_dict_of(3) [of xs] assms(2) by simp
  have ix: "lc_index ?ks (xs ! i) < length ?ks" using lc_index [of "xs ! i" ?ks] lc_dict_of(1) [of xs] assms(1) by simp
  have keys: "concat (map (\<lambda>x. le_enc (2 ^ kt) (lc_index ?ks x)) xs) = concat (map (le_enc (2 ^ kt)) (map (lc_index ?ks) xs))" for kt
    by (simp add: comp_def)
  have "lc_key (lc_decoded xs c) (int i) = Ok (int (map (lc_index ?ks) xs ! i))"
  proof (rule lc_key_encoded [where kt = "lc_keyType (length ?ks)"])
    show "map (lc_index ?ks) xs ! i < 256 ^ 2 ^ lc_keyType (length ?ks)"
      using ix assms(1) lc_keyType_room [OF len] by simp
  qed (use assms ix len lc_keyType_le3 in \<open>simp_all add: lc_decoded_def Let_def keys\<close>)
  with assms(1) show ?thesis by simp
qed

lemma lc_decoded_valid:
  assumes "length xs < 2 ^ 40"
  shows "lc_valid (lc_decoded xs c) (length xs) \<and> map (lc_at (lc_decoded xs c)) [0..<length xs] = xs"
proof
  have c: "lc_key_count (lc_decoded xs c) = Ok (length xs)"
    by (simp add: lc_key_count_def lc_decoded_def Let_def length_chunks)
  have ix: "lc_index (lc_dict_of xs) (xs ! i) < length (lc_dict_of xs) \<and> lc_dict_of xs ! lc_index (lc_dict_of xs) (xs ! i) = xs ! i"
    if "i < length xs" for i
    using lc_index [of "xs ! i" "lc_dict_of xs"] lc_dict_of(1) [of xs] that by simp
  show "lc_valid (lc_decoded xs c) (length xs)"
    using c ix by (auto simp: lc_valid_def lc_decoded_key [OF _ assms])
  have "lc_at (lc_decoded xs c) i = xs ! i" if "i < length xs" for i
    using ix [OF that] lc_decoded_key [OF that assms, of c] by (simp add: lc_at_def)
  then show "map (lc_at (lc_decoded xs c)) [0..<length xs] = xs" by (intro nth_equalityI) simp_all
qed

lemma decode_image:
  assumes P: "reader_ok P pd" and xs: "xs \<noteq> []" and len: "length xs < 2 ^ 40"
    and dict: "length (lc_dict_of xs) \<le> 100000000" and sm: "small (dict_image T (lc_dict_of xs))"
  shows "yields pd (lc_decode T P c (int (length xs))) (lc_image T xs) (lc_decoded xs c)"
proof -
  let ?ks = "lc_dict_of xs"
  define kt where "kt = lc_keyType (length ?ks)"
  define ixs where "ixs = concat (map (\<lambda>x. le_enc (2 ^ kt) (lc_index ?ks x)) xs)"
  let ?d = "c\<lparr>lc_dict := ?ks, lc_keys := ixs, lc_keyWidth := 2 ^ kt\<rparr>"
  have d: "lc_decoded xs c = ?d\<lparr>lc_expanded := False\<rparr>" by (simp add: lc_decoded_def Let_def kt_def ixs_def)
  have kt: "kt \<in> {0, 1, 2, 3}" using lc_keyType_le3 [of "length ?ks"] by (auto simp: kt_def)
  then have kt3: "kt \<le> 3" by auto
  have ks: "?ks \<noteq> []" using lc_dict_of(1) [of xs] xs by (metis set_empty)
  have l: "length ixs = length xs * 2 ^ kt" by (simp add: ixs_def length_chunks)
  have wr: "nat (wrap64 (int (length xs) * 2 ^ kt)) = length ixs" unfolding l by (rule key_bytes [OF len kt3])
  have mk: "go_make (gt_size T) (int (length ?ks)) (int (length ?ks)) = Ok ()"
  proof -
    have "int (gt_size T) * int (length ?ks) \<le> 16 * 100000000" using size_small dict by (intro mult_mono) auto
    then show ?thesis by (simp add: go_make_def maxAlloc_def)
  qed
  have "lc_key ?d i = lc_key (lc_decoded xs c) i" for i by (simp add: lc_key_def d Let_def)
  moreover have "lc_key_count ?d = lc_key_count (lc_decoded xs c)" "lc_dict ?d = lc_dict (lc_decoded xs c)"
    by (simp_all add: lc_key_count_def d)
  ultimately have val: "lc_validate ?d = Ok ()"
    using lc_decoded_valid [OF len, of c] by (intro lc_validate_valid) (auto simp: lc_valid_def)
  define mw :: u64 where "mw = word_of_nat (0x600 + kt)"
  have m: "unat mw = 0x600 + kt" using kt by (auto simp: mw_def)
  have meta: "mw AND 0x100 = 0" "mw AND 0x200 \<noteq> 0" "unat (mw AND 0xFF) = kt" using kt by (auto simp: mw_def)
  have l': "length ?ks < 2 ^ 40" using dict by simp
  have "yields pd (lc_decode T P c (int (length xs)))
      (le_enc 8 (unat mw) @ le_enc 8 (unat (word_of_nat (length ?ks) :: u64)) @ dict_image T ?ks @
       le_enc 8 (unat (word_of_nat (length xs) :: u64)) @ ixs) (lc_decoded xs c)"
    using xs dict P unfolding d
    apply (simp add: lc_decode_def)
    apply (rule yields_bind [OF yields_rwrap [OF rd_int64_yields [OF P]]])
    apply (simp add: meta(1,2))
    apply (rule yields_bind [OF yields_rwrap [OF rd_int64_yields [OF P]]])
    apply (simp add: Let_def sint_small [OF l'] meta(3) mk)
    apply (rule yields_bind [OF yields_rwrap [OF decodeDictKeys_yields [OF P ks sm]]])
    apply (rule yields_bind [OF yields_rwrap [OF rd_int64_yields [OF P]]])
    apply (simp add: sint_small [OF len] decodeKeyIndices_def kt3 meta(3) wr)
    apply (rule yields_bind_pure [OF yields_rwrap [OF yields_bind_rret [OF rd_raw_yields [OF P refl]]]])
    apply (simp add: val)
    done
  then show ?thesis using xs unat_small [OF len] unat_small [OF l'] by (simp add: lc_image_def Let_def m flip: kt_def ixs_def)
qed

end

context lc_client
begin

text \<open>
  Any column in good order, expanded or not, is encoded as the image of its rows, and that image is
  decoded as a column with these rows.
\<close>

lemma encode_decode_rows:
  assumes P: "reader_ok P pd" and B: "buffer_ok B" and W: "writer_ok W out"
    and st: "lc_expanded c \<or> lc_dict c = [] \<or> lc_valid c n" and v: "inv (lc_values c)"
    and ok: "\<forall>k \<in> set (lc_dict c). acc (lc_values c) k \<and> norm (lc_values c) k = k"
    and xs: "xs = lc_contents rows c n" "xs \<noteq> []"
    and sm: "\<And>vals. inv vals \<Longrightarrow> rows vals = xs \<Longrightarrow> small (wire vals)"
    and dict: "length (lc_dict_of xs) \<le> 100000000" "small (dict_image T (lc_dict_of xs))"
  shows "\<exists>c' w'. lc_encode I T B c b = Ok (c', b @ lc_image T xs) \<and> lc_contents rows c' n = xs \<and>
    lc_write I T W B c w = Ok (c', w') \<and> out w' = out w @ lc_image T xs \<and>
    yields pd (lc_decode T P d (int (length xs))) (lc_image T xs) (lc_decoded xs d) \<and>
    lc_len I (lc_decoded xs d) = Ok (length xs) \<and>
    (\<forall>i < length xs. lc_row I (lc_decoded xs d) (int i) = Ok (xs ! i))"
proof -
  obtain c' where c': "ensureExpanded I c = Ok c'" "lc_expanded c' \<or> lc_dict c' = []" "inv (lc_values c')"
      "rows (lc_values c') = xs"
    using expand [OF st v ok] v xs(1) by (auto simp: lc_contents_def split: if_splits)
  have s: "small (wire (lc_values c'))" by (rule sm [OF c'(3,4)])
  have len: "length xs < 2 ^ 40" using rows_wire [OF c'(3)] s c'(4) by simp
  have e: "lc_encode I T B c' b = Ok (c', b @ lc_image T xs)" for b
    using encode_plain [OF c'(2,3) s B] c'(4) by simp
  have "ensureExpanded I c' = Ok c'" using c'(2) by (auto simp: ensureExpanded_def)
  then have "lc_encode I T B c b = lc_encode I T B c' b" for b by (simp add: lc_encode_def c'(1))
  moreover have "out (chain_buffer W (\<lambda>b. case lc_encode I T B c' b of Ok (_, b') \<Rightarrow> b' | _ \<Rightarrow> b) w) = out w @ lc_image T xs"
    by (rule out_chain_buffer [OF W]) (simp add: e)
  moreover have "lc_contents rows c' n = xs" using c' by (auto simp: lc_contents_def)
  moreover have "lc_at (lc_decoded xs d) i = xs ! i" if "i < length xs" for i
    using lc_decoded_valid [OF len, of d] that by (metis add.left_neutral length_upt minus_nat.diff_0 nth_map nth_upt)
  ultimately show ?thesis
    using decode_image [OF P xs(2) len dict] e lc_decoded_valid [OF len, of d] xs(2)
      lc_valid_len [of "lc_decoded xs d" "length xs" I] lc_valid_row [of "lc_decoded xs d" "length xs" _ I]
    by (auto simp: lc_write_def c'(1))
qed

end

section \<open>Instances\<close>

lemma string_dict: "dict_type string_t"
  by unfold_locales (simp_all add: string_t_def)

lemma word_dict:
  assumes "k \<notin> {TOther, TString}" and "n = kind_size k" and "LENGTH('a) = 8 * n"
  shows "dict_type (word_layout k n (=) :: 'a::len word gotype)"
proof
  let ?T = "word_layout k n (=) :: 'a word gotype"
  have n: "0 < n" "n \<le> 16" using assms(1,2) by (cases k; simp)+
  have m: "mem_layout ?T" by (rule word_layout_ok) (use assms n in simp_all)
  show "gt_kind ?T \<noteq> TOther" "gt_eq ?T = (=)" "gt_size ?T \<le> 16"
    using assms(1) n by (simp_all add: word_layout_def)
  show "gt_of ?T (gt_bytes ?T x) = x" for x by (rule mem_layout.of_bytes [OF m])
  show "length (gt_bytes ?T x) = kind_size (gt_kind ?T)" for x
    using assms(2) by (simp add: word_layout_def)
qed

interpretation lc_str: lc_client "str_ops :: ('r, 'w, str_col, string) of_ops" "\<lambda>_. True" sc_data
    "\<lambda>c. str_image (sc_data c)" "\<lambda>_ _. True" "\<lambda>_ v. v" "\<lambda>_ _. True" string_t
  by (intro lc_client.intro string_dict) unfold_locales

interpretation lc_u32: lc_client "base_ops uint32_t :: ('r, 'w, u32 data_col, u32) of_ops" "\<lambda>_. True" dc_data
    "\<lambda>c. data_image uint32_t (dc_data c)" "\<lambda>_ _. True" "\<lambda>_ v. v" "\<lambda>_ _. True" uint32_t
  by (intro lc_client.intro word_dict) (unfold_locales, simp_all)

lemma dict_shorter:
  "length (concat (map f (fold (lc_add (=)) xs ks))) \<le> length (concat (map f ks)) + length (concat (map f xs))"
proof (induction xs arbitrary: ks)
  case (Cons x xs)
  have "length (concat (map f (lc_add (=) x ks))) \<le> length (concat (map f ks)) + length (f x)"
    by (simp add: lc_add_def split: option.split)
  with Cons.IH [of "lc_add (=) x ks"] show ?case by simp
qed simp

lemma string_dict_image: "dict_image string_t ks = str_image ks"
  by (simp add: dict_image_def str_image_def string_t_def)

section \<open>Properties\<close>

text \<open>
  C4. LowCardinality(String): whether the column holds the rows in \<open>Values\<close> or in a decoded
  dictionary, \<open>EncodeColumn\<close> and \<open>WriteColumn\<close> produce the same bytes, the dictionary of the
  distinct rows in the order of their first occurrence and a key for each row; \<open>DecodeColumn\<close>
  reads these bytes back into any column, with the same rows, and fails on every proper prefix of
  them. (At most 10^8 distinct rows: a larger dictionary is written but refused when read.)
\<close>

theorem lc_roundtrip:
  fixes P :: "'r preader" and W :: "'w pwriter" and c d :: "(str_col, string) lc_col"
  assumes P: "reader_ok P pd" and B: "buffer_ok B" and W: "writer_ok W out"
    and st: "lc_expanded c \<or> lc_dict c = [] \<or> lc_valid c n"
    and xs: "xs = lc_contents sc_data c n" "xs \<noteq> []" and sm: "small (str_image xs)" and card: "card (set xs) \<le> 100000000"
  shows "\<exists>c' w' d'. lc_encode (str_ops :: ('r, 'w, _, _) of_ops) string_t B c b = Ok (c', b @ lc_image string_t xs) \<and>
    lc_contents sc_data c' n = xs \<and>
    lc_write (str_ops :: ('r, 'w, _, _) of_ops) string_t W B c w = Ok (c', w') \<and> out w' = out w @ lc_image string_t xs \<and>
    yields pd (lc_decode string_t P d (int (length xs))) (lc_image string_t xs) d' \<and>
    lc_len (str_ops :: ('r, 'w, _, _) of_ops) d' = Ok (length xs) \<and>
    (\<forall>i < length xs. lc_row (str_ops :: ('r, 'w, _, _) of_ops) d' (int i) = Ok (xs ! i))"
proof -
  have "length (lc_dict_of xs) \<le> 100000000"
    using card lc_dict_of(1,2) [of xs] by (metis distinct_card)
  moreover have "small (dict_image string_t (lc_dict_of xs))"
    using sm dict_shorter [of "\<lambda>v. uvarint (length v) @ str_bytes v" xs "[]"]
    by (simp add: string_dict_image str_image_def lc_dict_of_def)
  ultimately show ?thesis
    using lc_str.encode_decode_rows [OF P B W st _ _ xs, of b w d] sm by blast
qed

theorem lc_roundtrip_witness:
  "\<exists>c' d' r'. lc_encode (str_ops :: (byte list, byte list, _, _) of_ops) string_t list_buffer
      (new_lc_col ((new_str_col ''s'')\<lparr>sc_data := [''a'', ''b'', ''a'']\<rparr>)) [] =
        Ok (c', [0, 6, 0, 0, 0, 0, 0, 0, 2, 0, 0, 0, 0, 0, 0, 0, 1, 97, 1, 98, 3, 0, 0, 0, 0, 0, 0, 0, 0, 1, 0]) \<and>
    lc_decode string_t list_reader (new_lc_col (new_str_col ''t'')) 3
      [0, 6, 0, 0, 0, 0, 0, 0, 2, 0, 0, 0, 0, 0, 0, 0, 1, 97, 1, 98, 3, 0, 0, 0, 0, 0, 0, 0, 0, 1, 0, 5] = (Ok d', r') \<and>
    r' = [5] \<and> lc_row (str_ops :: (byte list, byte list, _, _) of_ops) d' 2 = Ok ''a''"
proof -
  let ?xs = "[''a'', ''b'', ''a'']" and ?c = "new_lc_col ((new_str_col ''s'')\<lparr>sc_data := [''a'', ''b'', ''a'']\<rparr>)"
  have img: "lc_image string_t ?xs =
      [0, 6, 0, 0, 0, 0, 0, 0, 2, 0, 0, 0, 0, 0, 0, 0, 1, 97, 1, 98, 3, 0, 0, 0, 0, 0, 0, 0, 0, 1, 0]"
    by (simp add: lc_image_def lc_dict_of_def lc_add_def lc_keyType_def lc_index_def le_enc_numeral string_dict_image str_bytes_def Let_def)
  have st: "lc_expanded ?c \<or> lc_dict ?c = [] \<or> lc_valid ?c 0" by (simp add: new_lc_col_def)
  have xs: "?xs = lc_contents sc_data ?c 0" by (simp add: lc_contents_def new_lc_col_def)
  obtain c' d' where
    e: "lc_encode (str_ops :: (byte list, byte list, _, _) of_ops) string_t list_buffer ?c [] = Ok (c', [] @ lc_image string_t ?xs)" and
    y: "yields id (lc_decode string_t list_reader (new_lc_col (new_str_col ''t'')) (int (length ?xs))) (lc_image string_t ?xs) d'" and
    r: "\<forall>i < length ?xs. lc_row (str_ops :: (byte list, byte list, _, _) of_ops) d' (int i) = Ok (?xs ! i)"
    using lc_roundtrip [OF list_reader_ok list_buffer_ok list_writer_ok st xs, of "[]" "[]" "new_lc_col (new_str_col ''t'')"]
    by (auto simp: str_bytes_def card_insert_if)
  from r have "lc_row (str_ops :: (byte list, byte list, _, _) of_ops) d' 2 = Ok ''a''"
    by (elim allE [of _ 2]) simp
  moreover obtain r' where "lc_decode string_t list_reader (new_lc_col (new_str_col ''t'')) 3 (lc_image string_t ?xs @ [5]) = (Ok d', r')" "r' = [5]"
    using yieldsD [OF y, of "lc_image string_t ?xs @ [5]" "[5]"] by auto
  ultimately show ?thesis using e unfolding img by auto
qed

text \<open>
  C8. Whatever bytes a fresh LowCardinality column is given, if \<open>DecodeColumn\<close> succeeds the column
  has the announced number of rows and every key is an index of the dictionary, so \<open>Row\<close> does not
  panic on any of them.
\<close>

theorem lc_decode_valid:
  fixes c d :: "('c, 't) lc_col"
  assumes P: "reader_ok P pd" and rows: "0 < rows" "rows < 2 ^ 40" and fresh: "lc_keyWidth c = 0"
    and dec: "lc_decode T P c (int rows) r = (Ok d, r')"
  shows "lc_valid d rows \<and> lc_len I d = Ok rows \<and> (\<forall>i < rows. \<exists>v \<in> set (lc_dict d). lc_row I d (int i) = Ok v)"
proof -
  obtain meta dict keys kw r1 r2 where k: "decodeKeyIndices P (int rows) (unat (meta AND (0xFF :: u64))) (lc_keys c) (lc_keyWidth c) r1 = (Ok (keys, kw), r2)"
    and v: "lc_validate (c\<lparr>lc_dict := dict, lc_keys := keys, lc_keyWidth := kw\<rparr>) = Ok ()"
    and d: "d = c\<lparr>lc_dict := dict, lc_keys := keys, lc_keyWidth := kw, lc_expanded := False\<rparr>"
    using dec rows(1)
    by (auto simp: lc_decode_def rbind_eq_Ok rwrap_eq_Ok rlift_eq_Ok Let_def split: if_splits)
  have same: "lc_key d i = lc_key (c\<lparr>lc_dict := dict, lc_keys := keys, lc_keyWidth := kw\<rparr>) i"
      "lc_key_count d = lc_key_count (c\<lparr>lc_dict := dict, lc_keys := keys, lc_keyWidth := kw\<rparr>)"
      "lc_dict d = dict" "\<not> lc_expanded d" for i
    by (simp_all add: d lc_key_def lc_key_count_def Let_def)
  obtain n where valid: "lc_valid d n"
    using lc_validate_Ok [OF v] by (auto simp: lc_valid_def same)
  have "n = rows"
  proof -
    have kc: "lc_key_count d = Ok n" using valid by (simp add: lc_valid_def)
    then have "kw \<noteq> 0" by (auto simp: lc_key_count_def d split: if_splits)
    then have kt: "unat (meta AND (0xFF :: u64)) \<le> 3"
      using k fresh by (auto simp: decodeKeyIndices_def split: if_splits)
    define kt where "kt = unat (meta AND (0xFF :: u64))"
    have "rd_raw P (nat (wrap64 (int rows * 2 ^ kt))) r1 = (Ok keys, r2)" "kw = 2 ^ kt"
      using k kt by (auto simp: decodeKeyIndices_def kt_def rbind_eq_Ok)
    moreover have "nat (wrap64 (int rows * 2 ^ kt)) = rows * 2 ^ kt"
      using rows(2) kt by (intro key_bytes) (simp_all add: kt_def)
    ultimately have "length keys = rows * kw" using rd_raw_length [OF P] by metis
    then show ?thesis using kc \<open>kw \<noteq> 0\<close> by (simp add: lc_key_count_def d)
  qed
  then show ?thesis
    using valid rows(1) lc_valid_len [of d rows I] lc_valid_row [of d rows _ I] by auto
qed

theorem lc_decode_valid_witness:
  "\<exists>d r'. lc_decode uint32_t list_reader (new_lc_col (new_data_col ''t'')) (int 2)
      (lc_image uint32_t [7, 7]) = (Ok d, r') \<and> lc_len (base_ops uint32_t :: (byte list, byte list, _, _) of_ops) d = Ok 2"
proof -
  let ?c = "new_lc_col (new_data_col ''t'') :: (u32 data_col, u32) lc_col"
  have "yields id (lc_decode uint32_t list_reader ?c (int (length [7, 7 :: u32]))) (lc_image uint32_t [7, 7]) (lc_u32.lc_decoded [7, 7] ?c)"
    by (rule lc_u32.decode_image [OF list_reader_ok]) (simp_all add: lc_dict_of_def lc_add_def word_layout_def)
  from yieldsD [OF this, of "lc_image uint32_t [7, 7]" "[]"] obtain r' where
    d: "lc_decode uint32_t list_reader ?c (int 2) (lc_image uint32_t [7, 7]) = (Ok (lc_u32.lc_decoded [7, 7] ?c), r')" by auto
  show ?thesis
    using lc_decode_valid [OF list_reader_ok _ _ _ d, of "base_ops uint32_t :: (byte list, byte list, _, _) of_ops"] d
    by (auto simp: new_lc_col_def)
qed

text \<open>
  C26. What \<open>DecodeColumn\<close> rejects: a global dictionary, the additional-keys bit missing, a
  dictionary of more than 10^8 keys (or a negative number), a number of keys other than that of
  the rows. A key type beyond 3 makes a fresh column panic (division by its key width 0), and so
  does an empty dictionary of type UInt8 (the address of the first of no bytes).
\<close>

theorem lc_decode_errors:
  fixes P :: "'r preader" and c :: "('c, string) lc_col" and c8 :: "('d, byte) lc_col"
  assumes P: "reader_ok P pd" and rows: "rows \<noteq> 0" and fresh: "lc_keyWidth c = 0"
    and good: "(good :: u64) AND 0x100 = 0" "good AND 0x200 \<noteq> 0" and ks: "ks \<noteq> []" "length ks \<le> 100000000" "small (str_image ks)"
  shows "(meta AND 0x100 \<noteq> 0 \<or> meta AND 0x200 = 0 \<longrightarrow>
      fails pd (lc_decode string_t P c rows) (le_enc 8 (unat (meta :: u64))) (\<lambda>_. True)) \<and>
    (sint (ir :: u64) < 0 \<or> 100000000 < sint ir \<longrightarrow>
      fails pd (lc_decode string_t P c rows) (le_enc 8 (unat good) @ le_enc 8 (unat ir)) (\<lambda>_. True)) \<and>
    (sint (kr :: u64) \<noteq> rows \<longrightarrow>
      fails pd (lc_decode string_t P c rows)
        (le_enc 8 (unat good) @ le_enc 8 (length ks) @ str_image ks @ le_enc 8 (unat kr)) (\<lambda>_. True)) \<and>
    (3 < unat (good AND 0xFF) \<and> sint kr = rows \<longrightarrow>
      panics pd (lc_decode string_t P c rows) (le_enc 8 (unat good) @ le_enc 8 (length ks) @ str_image ks @ le_enc 8 (unat kr))) \<and>
    panics pd (lc_decode uint8_t P c8 rows) (le_enc 8 (unat good) @ le_enc 8 0)"
proof -
  note int64 = yields_rwrap [OF rd_int64_yields [OF P]]
  have l: "length ks < 2 ^ 40" using ks(2) by simp
  have s: "sint (word_of_nat (length ks) :: u64) = int (length ks)" by (rule sint_small [OF l])
  have u: "le_enc 8 (length ks) = le_enc 8 (unat (word_of_nat (length ks) :: u64))" by (simp only: unat_small [OF l])
  have dict: "yields pd (rwrap (Wrapf ''low cardinality dict'') (decodeDictKeys string_t P (length ks))) (str_image ks) ks"
    using lc_str.decodeDictKeys_yields [OF P ks(1)] ks(3) by (auto simp: string_dict_image intro: yields_rwrap)
  have mk: "go_make (gt_size string_t) (int (length ks)) (int (length ks)) = Ok ()"
    using ks(2) by (simp add: go_make_def maxAlloc_def string_t_def)
  have kw: "lc_validate (c\<lparr>lc_dict := ks\<rparr>) = Panic ''integer divide by zero''"
    using fresh by (simp add: lc_validate_def lc_key_count_def)
  have bad: "panics pd (rbind (rwrap w (decodeKeyIndices P rows kt (lc_keys c) (lc_keyWidth c))) (\<lambda>(keys, keyWidth).
        let d = c\<lparr>lc_dict := ks, lc_keys := keys, lc_keyWidth := keyWidth\<rparr>
        in rbind (rlift (lc_validate d)) (\<lambda>_. rret (d\<lparr>lc_expanded := False\<rparr>)))) []"
    if "3 < kt" for w kt
    by (rule panics_bind0 [where x = "(lc_keys c, lc_keyWidth c)"]) (use that in \<open>simp_all add: decodeKeyIndices_def yields_rwrap yields_rret kw panics_first Let_def\<close>)
  show ?thesis
  proof (intro conjI impI, goal_cases)
    case 1
    then show ?case using rows
      by (simp add: lc_decode_def) (rule fails_bind0 [OF int64], auto simp: fails_rlift)
  next
    case 2
    then show ?case using rows
      by (simp add: lc_decode_def) (rule fails_bind [OF int64], simp add: good, rule fails_bind0 [OF int64], auto simp: fails_rlift Let_def)
  next
    case 3
    then show ?case using rows ks(2) unfolding u
      by (simp add: lc_decode_def)
        (rule fails_bind [OF int64], simp add: good, rule fails_bind [OF int64], simp add: s mk Let_def,
         rule fails_bind [OF dict], rule fails_bind0 [OF int64], simp add: fails_rlift)
  next
    case 4
    then show ?case using rows ks(2) unfolding u
      by (simp add: lc_decode_def)
        (rule panics_bind [OF int64], simp add: good, rule panics_bind [OF int64], simp add: s mk Let_def,
         rule panics_bind [OF dict], rule panics_bind0 [OF int64], simp add: bad)
  next
    case 5
    have "decodeDictKeys uint8_t P 0 = rbind (rd_raw P 0) (\<lambda>data. if data = [] then rlift (Panic ''index out of range'') else rret [])"
      by (simp add: decodeDictKeys_def word_layout_def cong: if_cong)
    moreover have "panics pd (rbind (rd_raw P 0) (\<lambda>data. if data = [] then rlift (Panic ''index out of range'') else rret ([] :: byte list))) []"
      by (rule panics_bind0 [OF rd_raw_yields [OF P]]) simp_all
    ultimately have d: "panics pd (rwrap f (decodeDictKeys uint8_t P 0)) []" for f by (simp add: panics_rwrap)
    have z: "yields pd (rwrap f (rd_int64 P)) (le_enc 8 0) 0" for f using int64 [of f 0] by simp
    show ?case using rows
      by (simp add: lc_decode_def)
        (rule panics_bind [OF int64], simp add: good, rule panics_bind0 [OF z], simp add: Let_def go_make_def maxAlloc_def,
         rule panics_first, rule d [unfolded One_nat_def])
  qed
qed

theorem lc_decode_errors_witness:
  "panics id (lc_decode string_t list_reader (new_lc_col (new_str_col ''t'') :: (str_col, string) lc_col) 1)
     ([4, 2, 0, 0, 0, 0, 0, 0] @ [1, 0, 0, 0, 0, 0, 0, 0] @ [1, 97] @ [1, 0, 0, 0, 0, 0, 0, 0])"
proof -
  let ?c = "new_lc_col (new_str_col ''t'') :: (str_col, string) lc_col"
  have e: "le_enc 8 (unat (0x204 :: u64)) = [4, 2, 0, 0, 0, 0, 0, 0]" "le_enc 8 (length [''a'']) = [1, 0, 0, 0, 0, 0, 0, 0]"
      "le_enc 8 (unat (1 :: u64)) = [1, 0, 0, 0, 0, 0, 0, 0]" "str_image [''a''] = [1, 97]"
    by (simp_all add: le_enc_numeral str_bytes_def)
  have "lc_keyWidth ?c = 0" by (simp add: new_lc_col_def)
  then show ?thesis
    using lc_decode_errors [OF list_reader_ok, where rows = "1" and c = ?c and good = "0x204" and ks = "[''a'']" and kr = "1" and ?c8.0 = "new_lc_col ()"]
    unfolding e by simp
qed

text \<open>
  C36. Expanding a decoded column (what \<open>EncodeColumn\<close> and \<open>WriteColumn\<close> do first) is not
  observable, over any column that keeps the contract of \<open>Of[T]\<close> and stores the keys of the
  dictionary as they are: \<open>Len\<close> and every \<open>Row\<close> stay the same, and expanding again changes nothing.
  (The wire form of the expanded rows has to stay below 2^40 bytes.) An \<open>Enum8Column\<close>, which is an
  \<open>Of[string]\<close> too, does not store every key: if the name in the first row is not one of the enum,
  expanding panics, although \<open>Row\<close> reads it.
\<close>

theorem lc_expand_rows:
  fixes I :: "('r, 'w, 'c, 't) of_ops" and norm :: "'c \<Rightarrow> 't \<Rightarrow> 't" and e :: "((byte enum_cfg, byte) conv_col, string) lc_col"
  assumes E: "of_column I ok rows wire acc norm like"
    and c: "lc_valid c n" "0 < n" "ok (lc_values c)"
    and keys: "\<forall>k \<in> set (lc_dict c). acc (lc_values c) k \<and> norm (lc_values c) k = k"
    and sm: "\<forall>vals. ok vals \<longrightarrow> rows vals = map (lc_at c) [0..<n] \<longrightarrow> small (wire vals)"
    and e: "lc_valid e m" "0 < m" "lc_at e 0 \<noteq> []" "lc_at e 0 \<notin> dom (en_strToRaw (cv_cfg (lc_values e)))"
  shows "(\<exists>d. ensureExpanded I c = Ok d \<and> lc_expanded d \<and> ensureExpanded I d = Ok d \<and> lc_len I d = lc_len I c \<and>
      (\<forall>i < n. lc_row I d (int i) = lc_row I c (int i))) \<and>
    is_panic (ensureExpanded (enum8_ops :: ('r, 'w, _, _) of_ops) e) \<and>
    lc_row (enum8_ops :: ('r, 'w, _, _) of_ops) e 0 = Ok (lc_at e 0)"
proof (intro conjI)
  have ne: "\<not> lc_expanded c" "lc_dict c \<noteq> []" using c(1,2) by (auto simp: lc_valid_def)
  obtain vals where v: "ensureExpanded I c = Ok (c\<lparr>lc_values := vals, lc_expanded := True\<rparr>)"
      "ok vals" "rows vals = map (lc_at c) [0..<n]"
    using of_column.expand [OF E _ c(3) keys, of n] c(1) ne by auto
  let ?d = "c\<lparr>lc_values := vals, lc_expanded := True\<rparr>"
  have "lc_len I ?d = lc_len I c"
    using lc_valid_len [OF c(1,2), of I] of_column.len [OF E v(2)] v(3) by (simp add: lc_len_def)
  moreover have "lc_row I ?d (int i) = lc_row I c (int i)" if "i < n" for i
    using of_column.row [OF E v(2), of i] sm v(2,3) that lc_valid_row [OF c(1) that, of I] by (simp add: lc_row_def)
  ultimately show "\<exists>d. ensureExpanded I c = Ok d \<and> lc_expanded d \<and> ensureExpanded I d = Ok d \<and> lc_len I d = lc_len I c \<and>
      (\<forall>i < n. lc_row I d (int i) = lc_row I c (int i))"
    using v(1) by (intro exI [of _ ?d]) (simp add: ensureExpanded_def)
next
  have ne: "\<not> lc_expanded e" "lc_dict e \<noteq> []" using e(1,2) by (auto simp: lc_valid_def)
  obtain k where k: "lc_key e 0 = Ok (int k)" "k < length (lc_dict e)" using e(1,2) by (auto simp: lc_valid_def dest: spec [of _ 0])
  then have a: "lc_dict e ! k = lc_at e 0" by (simp add: lc_at_def)
  obtain m' where m: "m = Suc m'" using e(2) by (cases m) simp_all
  then have "[0..<m] = 0 # [Suc 0..<m]" by (simp add: upt_conv_Cons del: upt_Suc)
  moreover have "en_strToRaw (cv_cfg (lc_values e)) (lc_at e 0) = None" using e(4) by (simp add: domIff)
  ultimately show "is_panic (ensureExpanded (enum8_ops :: ('r, 'w, _, _) of_ops) e)"
    using ne e k a by (auto simp: ensureExpanded_def lc_valid_def enum8_ops_def conv_ops_def cv_append_def cv_reset_def enum_put_def)
  show "lc_row (enum8_ops :: ('r, 'w, _, _) of_ops) e 0 = Ok (lc_at e 0)"
    using lc_valid_row [OF e(1,2), of "enum8_ops :: ('r, 'w, _, _) of_ops"] by simp
qed

theorem lc_expand_rows_witness:
  "\<exists>d. ensureExpanded (str_ops :: (byte list, byte list, _, _) of_ops)
      \<lparr> lc_values = new_str_col ''s'', lc_dict = [''a'', ''b''], lc_keys = [1, 0], lc_keyWidth = 1, lc_expanded = False \<rparr> = Ok d \<and>
    lc_row (str_ops :: (byte list, byte list, _, _) of_ops) d 0 = Ok ''b''"
proof -
  let ?c = "\<lparr> lc_values = new_str_col ''s'', lc_dict = [''a'', ''b''], lc_keys = [1, 0], lc_keyWidth = 1, lc_expanded = False \<rparr>"
  let ?g = "\<lparr> en_t = [], en_rawToStr = (\<lambda>_. None), en_strToRaw = (\<lambda>_. None) \<rparr> :: byte enum_cfg"
  let ?e = "\<lparr> lc_values = \<lparr> cv_name = ''e'', cv_cfg = ?g, cv_data = [] \<rparr>, lc_dict = [''x''], lc_keys = [0], lc_keyWidth = 1,
      lc_expanded = False \<rparr> :: ((byte enum_cfg, byte) conv_col, string) lc_col"
  have k: "lc_key ?c 0 = Ok (int 1)" "lc_key ?c (int 1) = Ok (int 0)" "lc_key ?e 0 = Ok (int 0)"
    by (simp_all add: lc_key_def wrap64_id)
  have c: "lc_valid ?c 2"
    unfolding lc_valid_def using k by (auto simp: lc_key_count_def less_2_cases_iff)
  have e: "lc_valid ?e 1" "lc_at ?e 0 = ''x''"
    unfolding lc_valid_def using k by (auto simp: lc_key_count_def lc_at_def)
  have a: "map (lc_at ?c) [0..<2] = [''b'', ''a'']" using k by (simp add: lc_at_def numeral_2_eq_2)
  have sm: "\<forall>vals :: str_col. True \<longrightarrow> sc_data vals = map (lc_at ?c) [0..<2] \<longrightarrow> small (str_image (sc_data vals))"
  proof (intro allI impI)
    fix vals :: str_col
    assume "sc_data vals = map (lc_at ?c) [0..<2]"
    then show "small (str_image (sc_data vals))" unfolding a by (simp add: str_bytes_def)
  qed
  have keys: "\<forall>k \<in> set (lc_dict ?c). True \<and> k = k" by simp
  have d: "lc_at ?e 0 \<noteq> []" "lc_at ?e 0 \<notin> dom (en_strToRaw (cv_cfg (lc_values ?e)))" unfolding e(2) by simp_all
  have two: "(0 :: nat) < 2" "(0 :: nat) < 1" by simp_all
  note R = lc_expand_rows [OF str_col.of_column_axioms c two(1) TrueI keys sm e(1) two(2) d]
  from R obtain d where
    d: "ensureExpanded (str_ops :: (byte list, byte list, _, _) of_ops) ?c = Ok d"
      "\<forall>i < 2. lc_row (str_ops :: (byte list, byte list, _, _) of_ops) d (int i) = lc_row (str_ops :: (byte list, byte list, _, _) of_ops) ?c (int i)"
    by auto
  have "lc_row (str_ops :: (byte list, byte list, _, _) of_ops) d 0 = lc_row (str_ops :: (byte list, byte list, _, _) of_ops) ?c 0"
    using d(2) by (elim allE [of _ 0]) simp
  also have "\<dots> = Ok ''b''" using k by (simp add: lc_row_def idx_def)
  finally show ?thesis using d(1) by blast
qed

end
