(* ===== verification/Conn_Base.thy ===== *)
theory Conn_Base
  imports LowCardinality_Column
begin

text \<open>
  The connection of package \<open>conn\<close>: its state, the monad of its operations, and what it uses of
  ch-go beyond readers, buffers and writers. An operation takes the connection to an outcome and a
  new connection, or diverges (\<open>None\<close>); the packet loops are the one place where it can.
\<close>

section \<open>Operations that may diverge\<close>

type_synonym ('s, 'a) io = "'s \<Rightarrow> ('a go \<times> 's) option"

definition iret :: "'a \<Rightarrow> ('s, 'a) io" where
  "iret x = (\<lambda>s. Some (Ok x, s))"

definition ifail :: "error \<Rightarrow> ('s, 'a) io" where
  "ifail e = (\<lambda>s. Some (Err e, s))"

definition ibind :: "('s, 'a) io \<Rightarrow> ('a \<Rightarrow> ('s, 'b) io) \<Rightarrow> ('s, 'b) io" where
  "ibind m k = (\<lambda>s. case m s of
       None \<Rightarrow> None
     | Some (Ok x, s') \<Rightarrow> k x s'
     | Some (Err e, s') \<Rightarrow> Some (Err e, s')
     | Some (Panic p, s') \<Rightarrow> Some (Panic p, s'))"

definition iwrap :: "(error \<Rightarrow> error) \<Rightarrow> ('s, 'a) io \<Rightarrow> ('s, 'a) io" where
  "iwrap f m = (\<lambda>s. map_option (\<lambda>(x, s'). (case x of Err e \<Rightarrow> Err (f e) | y \<Rightarrow> y, s')) (m s))"

definition imodify :: "('s \<Rightarrow> 's) \<Rightarrow> ('s, unit) io" where
  "imodify f = (\<lambda>s. Some (Ok (), f s))"

definition iget :: "('s \<Rightarrow> 'a) \<Rightarrow> ('s, 'a) io" where
  "iget f = (\<lambda>s. Some (Ok (f s), s))"

text \<open>A deferred call runs whatever the outcome, a panic included.\<close>

definition ifinally :: "('s, 'a) io \<Rightarrow> ('s \<Rightarrow> 's) \<Rightarrow> ('s, 'a) io" where
  "ifinally m f = (\<lambda>s. map_option (\<lambda>(x, s'). (x, f s')) (m s))"

text \<open>\<open>for { ... }\<close>: the body goes on (\<open>None\<close>) or returns a value.\<close>

partial_function (option) iloop :: "('s, 'a option) io \<Rightarrow> ('s, 'a) io" where
  "iloop body s = Option.bind (body s) (\<lambda>(x, s'). case x of
       Ok None \<Rightarrow> iloop body s'
     | Ok (Some a) \<Rightarrow> Some (Ok a, s')
     | Err e \<Rightarrow> Some (Err e, s')
     | Panic p \<Rightarrow> Some (Panic p, s'))"

lemma iret_apply [simp]: "iret x s = Some (Ok x, s)"
  by (simp add: iret_def)

lemma ifail_apply [simp]: "ifail e s = Some (Err e, s)"
  by (simp add: ifail_def)

lemma imodify_apply [simp]: "imodify f s = Some (Ok (), f s)"
  by (simp add: imodify_def)

lemma iget_apply [simp]: "iget f s = Some (Ok (f s), s)"
  by (simp add: iget_def)

lemma ibind_Ok [simp]: "m s = Some (Ok x, s') \<Longrightarrow> ibind m k s = k x s'"
  by (simp add: ibind_def)

lemma ibind_Err [simp]: "m s = Some (Err e, s') \<Longrightarrow> ibind m k s = Some (Err e, s')"
  by (simp add: ibind_def)

lemma ibind_Panic [simp]: "m s = Some (Panic p, s') \<Longrightarrow> ibind m k s = Some (Panic p, s')"
  by (simp add: ibind_def)

lemma ibind_iret [simp]: "ibind (iret x) k = k x"
  by (simp add: ibind_def iret_def)

lemma ibind_iret_right: "ibind m iret = m"
  by (auto simp: ibind_def fun_eq_iff split: option.splits prod.splits go.splits)

lemma ibind_assoc: "ibind (ibind m k) h = ibind m (\<lambda>x. ibind (k x) h)"
  by (auto simp: ibind_def fun_eq_iff split: option.splits prod.splits go.splits)

lemma iwrap_Ok [simp]: "m s = Some (Ok x, s') \<Longrightarrow> iwrap f m s = Some (Ok x, s')"
  by (simp add: iwrap_def)

lemma iwrap_Err [simp]: "m s = Some (Err e, s') \<Longrightarrow> iwrap f m s = Some (Err (f e), s')"
  by (simp add: iwrap_def)

lemma iwrap_eq_Ok: "iwrap f m s = Some (Ok y, s') \<longleftrightarrow> m s = Some (Ok y, s')"
proof (cases "m s")
  case (Some p)
  then show ?thesis by (cases p; cases "fst p") (auto simp: iwrap_def)
qed (simp add: iwrap_def)

lemma ifinally_Some [simp]: "m s = Some (x, s') \<Longrightarrow> ifinally m f s = Some (x, f s')"
  by (simp add: ifinally_def)

lemma iloop_continue: "body s = Some (Ok None, s') \<Longrightarrow> iloop body s = iloop body s'"
  by (simp add: iloop.simps [of body s])

lemma iloop_return: "body s = Some (Ok (Some a), s') \<Longrightarrow> iloop body s = Some (Ok a, s')"
  by (simp add: iloop.simps [of body s])

lemma iloop_Err: "body s = Some (Err e, s') \<Longrightarrow> iloop body s = Some (Err e, s')"
  by (simp add: iloop.simps [of body s])

lemma iloop_Panic: "body s = Some (Panic p, s') \<Longrightarrow> iloop body s = Some (Panic p, s')"
  by (simp add: iloop.simps [of body s])

text \<open>
  An operation is \<open>calm\<close> for a measure of the state and an invariant relation if it returns, and
  leaves a state that is related and not larger; a loop of calm bodies returns when a body that
  goes on makes the state smaller.
\<close>

definition calm :: "('s \<Rightarrow> nat) \<Rightarrow> ('s \<Rightarrow> 's \<Rightarrow> bool) \<Rightarrow> ('s, 'a) io \<Rightarrow> bool" where
  "calm \<mu> R m \<longleftrightarrow> (\<forall>s. \<exists>x s'. m s = Some (x, s') \<and> R s s' \<and> \<mu> s' \<le> \<mu> s)"

definition shrinks :: "('s \<Rightarrow> nat) \<Rightarrow> ('s, 'a) io \<Rightarrow> bool" where
  "shrinks \<mu> m \<longleftrightarrow> (\<forall>s x s'. m s = Some (Ok x, s') \<longrightarrow> \<mu> s' < \<mu> s)"

lemma calmD: "calm \<mu> R m \<Longrightarrow> \<exists>x s'. m s = Some (x, s') \<and> R s s' \<and> \<mu> s' \<le> \<mu> s"
  by (simp add: calm_def)

lemma calm_Some: "calm \<mu> R m \<Longrightarrow> m s = Some (x, s') \<Longrightarrow> R s s' \<and> \<mu> s' \<le> \<mu> s"
  using calmD [of \<mu> R m s] by auto

lemma calm_iret: "reflp R \<Longrightarrow> calm \<mu> R (iret x)"
  by (simp add: calm_def reflp_def)

lemma calm_ifail: "reflp R \<Longrightarrow> calm \<mu> R (ifail e)"
  by (simp add: calm_def reflp_def)

lemma calm_iget: "reflp R \<Longrightarrow> calm \<mu> R (iget f)"
  by (simp add: calm_def reflp_def)

lemma calm_imodify: "(\<And>s. R s (f s)) \<Longrightarrow> (\<And>s. \<mu> (f s) \<le> \<mu> s) \<Longrightarrow> calm \<mu> R (imodify f)"
  by (simp add: calm_def)

lemma calm_ibind:
  assumes R: "transp R" and m: "calm \<mu> R m" and k: "\<And>x. calm \<mu> R (k x)"
  shows "calm \<mu> R (ibind m k)"
  unfolding calm_def
proof
  fix s
  obtain x s1 where 1: "m s = Some (x, s1)" "R s s1" "\<mu> s1 \<le> \<mu> s" using calmD [OF m, of s] by auto
  show "\<exists>y s'. ibind m k s = Some (y, s') \<and> R s s' \<and> \<mu> s' \<le> \<mu> s"
  proof (cases x)
    case (Ok a)
    obtain y s2 where "k a s1 = Some (y, s2)" "R s1 s2" "\<mu> s2 \<le> \<mu> s1" using calmD [OF k, of a s1] by auto
    with 1 Ok transpD [OF R] show ?thesis by fastforce
  qed (use 1 in auto)
qed

lemma calm_iwrap: "calm \<mu> R m \<Longrightarrow> calm \<mu> R (iwrap f m)"
  by (fastforce simp: calm_def iwrap_def)

lemma calm_ifinally:
  assumes "transp R" and "calm \<mu> R m" and "\<And>s. R s (f s) \<and> \<mu> (f s) \<le> \<mu> s"
  shows "calm \<mu> R (ifinally m f)"
  unfolding calm_def
proof
  fix s
  obtain x s1 where 1: "m s = Some (x, s1)" "R s s1" "\<mu> s1 \<le> \<mu> s" using calmD [OF assms(2), of s] by auto
  have "R s (f s1) \<and> \<mu> (f s1) \<le> \<mu> s" using 1(2,3) assms(3) [of s1] transpD [OF assms(1)] by fastforce
  with 1(1) show "\<exists>x s'. ifinally m f s = Some (x, s') \<and> R s s' \<and> \<mu> s' \<le> \<mu> s" by auto
qed

lemma shrinks_bind:
  assumes "calm \<mu> R m" and "shrinks \<mu> m" and "\<And>x. calm \<mu> R (k x)"
  shows "shrinks \<mu> (ibind m k)"
  unfolding shrinks_def
proof (intro allI impI)
  fix s y s' assume e: "ibind m k s = Some (Ok y, s')"
  obtain x s1 where 1: "m s = Some (x, s1)" using calmD [OF assms(1), of s] by auto
  from e 1 obtain a where a: "x = Ok a" by (cases x) auto
  then have "\<mu> s1 < \<mu> s" using assms(2) 1 by (auto simp: shrinks_def)
  moreover have "\<mu> s' \<le> \<mu> s1"
    using calm_Some [OF assms(3) [of a], of s1 "Ok y" s'] e 1 a by simp
  ultimately show "\<mu> s' < \<mu> s" by simp
qed

lemma shrinks_iwrap: "shrinks \<mu> m \<Longrightarrow> shrinks \<mu> (iwrap f m)"
  by (simp add: shrinks_def iwrap_eq_Ok)

lemma calm_iloop:
  assumes R: "transp R" and body: "calm \<mu> R body" and dec: "shrinks \<mu> body"
  shows "calm \<mu> R (iloop body)"
  unfolding calm_def
proof
  fix s
  show "\<exists>x s'. iloop body s = Some (x, s') \<and> R s s' \<and> \<mu> s' \<le> \<mu> s"
  proof (induction "\<mu> s" arbitrary: s rule: less_induct)
    case less
    obtain x s1 where 1: "body s = Some (x, s1)" "R s s1" "\<mu> s1 \<le> \<mu> s" using calmD [OF body, of s] by auto
    show ?case
    proof (cases "x = Ok None")
      case True
      then have m: "\<mu> s1 < \<mu> s" using dec 1(1) by (auto simp: shrinks_def)
      from less [OF this] obtain y s2 where "iloop body s1 = Some (y, s2)" "R s1 s2" "\<mu> s2 \<le> \<mu> s1" by auto
      moreover have "iloop body s = iloop body s1" using 1(1) True by (simp add: iloop_continue)
      ultimately show ?thesis using 1 m transpD [OF R] by fastforce
    next
      case False
      with 1(1) have "\<exists>y. iloop body s = Some (y, s1)"
        by (cases x) (auto simp: iloop.simps [of body s] split: option.splits)
      with 1 show ?thesis by auto
    qed
  qed
qed

end
