(* ===== verification/Conn_State.thy ===== *)
theory Conn_State
  imports Conn_Base
begin

text \<open>
  \<^verbatim>\<open>conn/conn.go\<close>, \<^verbatim>\<open>conn/config.go\<close> and \<^verbatim>\<open>conn/blockinfo.go\<close>: the struct \<open>Conn\<close>, its lock and
  life cycle, \<open>Connect\<close>, the query prefix, and the reading of a block's info fields. The record
  \<open>chlib\<close> is what the package calls of ch-go and of the network.
\<close>

section \<open>The library\<close>

datatype scode = SC_Hello | SC_Data | SC_Exception | SC_Progress | SC_Pong | SC_EndOfStream | SC_Profile
  | SC_Totals | SC_Extremes | SC_Log | SC_TableColumns | SC_ProfileEvents | SC_Other

datatype ccode = CC_Data | CC_Cancel | CC_Ping

datatype feature = F_BlockInfo | F_CustomSerialization | F_TempTables | F_Addendum

record client_info =
  in_version :: int
  in_major :: int
  in_minor :: int
  in_patch :: int
  in_osUser :: string
  in_hostname :: string
  in_name :: string
  in_address :: string

record query =
  q_body :: string
  q_compression :: bool
  q_info :: client_info
  q_settings :: "(string \<times> string) list"

record hello =
  h_major :: int
  h_minor :: int
  h_version :: int
  h_database :: string
  h_user :: string
  h_password :: string

text \<open>
  \<open>cl_code\<close> converts the varint of a packet to a \<open>ServerCode\<close> and names the constant it equals.
  \<open>cl_raw_block\<close> is \<open>DecodeRawBlock\<close> into the cached results \<open>'k\<close>.
\<close>

record ('r, 'w, 'k, 'p) chlib =
  cl_reader :: "'r preader"
  cl_buffer :: pbuffer
  cl_writer :: "'w pwriter"
  cl_flush :: "'w \<Rightarrow> error option \<times> 'w"
  cl_code :: "u64 \<Rightarrow> scode"
  cl_table_columns :: "int \<Rightarrow> ('r, unit) rdm"
  cl_exception :: "int \<Rightarrow> ('r, string \<times> int) rdm"
  cl_progress :: "int \<Rightarrow> ('r, 'p) rdm"
  cl_profile :: "int \<Rightarrow> ('r, 'p) rdm"
  cl_raw_block :: "int \<Rightarrow> ('r \<times> 'k, unit) rdm"
  cl_no_results :: 'k
  cl_server_hello :: "int \<Rightarrow> ('r, int) rdm"
  cl_has :: "feature \<Rightarrow> int \<Rightarrow> bool"
  cl_compress :: "bool \<Rightarrow> 'r \<Rightarrow> 'r"
  cl_version :: int
  cl_hello :: "hello \<Rightarrow> byte list \<Rightarrow> byte list"
  cl_query :: "query \<Rightarrow> int \<Rightarrow> byte list \<Rightarrow> byte list"
  cl_ccode_num :: "ccode \<Rightarrow> u64"
  cl_ccode_encode :: "ccode \<Rightarrow> byte list \<Rightarrow> byte list"
  cl_client_data :: "int \<Rightarrow> byte list \<Rightarrow> byte list"
  cl_block :: "int \<Rightarrow> int \<Rightarrow> byte list \<Rightarrow> byte list"
  cl_block_info :: "int \<Rightarrow> byte list \<Rightarrow> byte list"

section \<open>Configuration\<close>

record config =
  cf_addr :: string
  cf_user :: string
  cf_password :: string
  cf_database :: string
  cf_compression :: bool
  cf_settings :: "(string \<times> string) list"
  cf_dialTimeout :: int
  cf_readTimeout :: int
  cf_writeTimeout :: int

definition config_addr :: "config \<Rightarrow> string" where
  "config_addr c = (if cf_addr c = [] then ''127.0.0.1:9000'' else cf_addr c)"

definition config_user :: "config \<Rightarrow> string" where
  "config_user c = (if cf_user c = [] then ''default'' else cf_user c)"

definition config_database :: "config \<Rightarrow> string" where
  "config_database c = (if cf_database c = [] then ''default'' else cf_database c)"

section \<open>The connection\<close>

datatype cstate = StateInitial | StateReady | StateBusy | StateClosed

text \<open>
  \<open>cn_ctx\<close> holds the outcomes of the checks of the operation's context to come (\<open>None\<close>: not done;
  nothing left: never done), \<open>cn_calls\<close> the payloads the callbacks have been given; \<open>cn_onProgress\<close>
  and \<open>cn_onProfile\<close> say whether they are set.
\<close>

record ('r, 'w, 'k, 'p) conn =
  cn_state :: cstate
  cn_reader :: 'r
  cn_writer :: 'w
  cn_prefix :: "byte list option"
  cn_skip :: 'k
  cn_skipCode :: scode
  cn_cfg :: config
  cn_revision :: int
  cn_localAddr :: string
  cn_onProgress :: bool
  cn_onProfile :: bool
  cn_calls :: "'p list"
  cn_ctx :: "error option list"

definition nerr :: "kind \<Rightarrow> string \<Rightarrow> error \<Rightarrow> error" where
  "nerr k m e = Conn_error k m 0 (Some e)"

definition perr :: "kind \<Rightarrow> string \<Rightarrow> error" where
  "perr k m = Conn_error k m 0 None"

definition on_reader :: "('r, 'a) io \<Rightarrow> (('r, 'w, 'k, 'p) conn, 'a) io" where
  "on_reader m = (\<lambda>s. map_option (\<lambda>(x, r'). (x, s\<lparr>cn_reader := r'\<rparr>)) (m (cn_reader s)))"

definition lift_rdm :: "('r, 'a) rdm \<Rightarrow> ('r, 'a) io" where
  "lift_rdm m = (\<lambda>r. Some (m r))"

abbreviation rd :: "('r, 'a) rdm \<Rightarrow> (('r, 'w, 'k, 'p) conn, 'a) io" where
  "rd m \<equiv> on_reader (lift_rdm m)"

definition chain :: "('r, 'w, 'k, 'p) chlib \<Rightarrow> (byte list \<Rightarrow> byte list) \<Rightarrow> (('r, 'w, 'k, 'p) conn, unit) io" where
  "chain L f = imodify (\<lambda>s. s\<lparr>cn_writer := chain_buffer (cl_writer L) f (cn_writer s)\<rparr>)"

definition chainw :: "('r, 'w, 'k, 'p) chlib \<Rightarrow> byte list \<Rightarrow> (('r, 'w, 'k, 'p) conn, unit) io" where
  "chainw L bs = imodify (\<lambda>s. s\<lparr>cn_writer := chain_write (cl_writer L) bs (cn_writer s)\<rparr>)"

definition flush :: "('r, 'w, 'k, 'p) chlib \<Rightarrow> (('r, 'w, 'k, 'p) conn, unit) io" where
  "flush L = (\<lambda>s. case cl_flush L (cn_writer s) of
       (None, w') \<Rightarrow> Some (Ok (), s\<lparr>cn_writer := w'\<rparr>)
     | (Some e, w') \<Rightarrow> Some (Err e, s\<lparr>cn_writer := w'\<rparr>))"

text \<open>\<open>select { case <-ctx.Done(): ... default: }\<close>\<close>

definition ctx_done :: "(('r, 'w, 'k, 'p) conn, error option) io" where
  "ctx_done = (\<lambda>s. case cn_ctx s of
       [] \<Rightarrow> Some (Ok None, s)
     | d # ds \<Rightarrow> Some (Ok d, s\<lparr>cn_ctx := ds\<rparr>))"

section \<open>Lock and life cycle\<close>

fun lock_state :: "cstate \<Rightarrow> cstate option" where
  "lock_state StateReady = Some StateBusy"
| "lock_state _ = None"

definition unlock_state :: "cstate \<Rightarrow> cstate" where
  "unlock_state st = StateReady"

definition close_state :: "cstate \<Rightarrow> cstate" where
  "close_state st = StateClosed"

definition conn_lock :: "(('r, 'w, 'k, 'p) conn, unit) io" where
  "conn_lock = (\<lambda>s. case lock_state (cn_state s) of
       None \<Rightarrow> Some (Err (perr KindInternal ''connection is not ready''), s)
     | Some st \<Rightarrow> Some (Ok (), s\<lparr>cn_state := st\<rparr>))"

definition conn_unlock :: "('r, 'w, 'k, 'p) conn \<Rightarrow> ('r, 'w, 'k, 'p) conn" where
  "conn_unlock s = s\<lparr>cn_state := unlock_state (cn_state s)\<rparr>"

text \<open>\<open>res\<close> is what closing the socket returns.\<close>

definition conn_Close :: "error option \<Rightarrow> ('r, 'w, 'k, 'p) conn \<Rightarrow> error option \<times> ('r, 'w, 'k, 'p) conn" where
  "conn_Close res s =
     (if cn_state s = StateClosed then (None, s) else (res, s\<lparr>cn_state := close_state (cn_state s)\<rparr>))"

text \<open>\<open>lock(); defer unlock()\<close>\<close>

definition with_lock :: "(('r, 'w, 'k, 'p) conn, 'a) io \<Rightarrow> (('r, 'w, 'k, 'p) conn, 'a) io" where
  "with_lock m = ibind conn_lock (\<lambda>_. ifinally m conn_unlock)"

text \<open>
  The interleavings of one connection's critical sections: the operations that took the lock and
  have not released it, and the calls of \<open>Close\<close> and of the exported \<open>Unlock\<close>, which any goroutine
  may make at any time. \<open>n\<close> counts the operations that run.
\<close>

datatype cevent = Ev_Lock | Ev_Refused | Ev_Release | Ev_Close | Ev_Unlock

inductive conn_step :: "cstate \<times> nat \<Rightarrow> cevent \<Rightarrow> cstate \<times> nat \<Rightarrow> bool" where
  Lock: "lock_state st = Some st' \<Longrightarrow> conn_step (st, n) Ev_Lock (st', Suc n)"
| Refused: "lock_state st = None \<Longrightarrow> conn_step (st, n) Ev_Refused (st, n)"
| Release: "conn_step (st, Suc n) Ev_Release (unlock_state st, n)"
| Close: "conn_step (st, n) Ev_Close (close_state st, n)"
| Unlock: "conn_step (st, n) Ev_Unlock (unlock_state st, n)"

inductive_cases conn_stepE: "conn_step (st, n) e (st', n')"

inductive conn_run :: "cstate \<times> nat \<Rightarrow> cevent list \<Rightarrow> cstate \<times> nat \<Rightarrow> bool" where
  Done: "conn_run c [] c"
| Step: "conn_run c es c1 \<Longrightarrow> conn_step c1 e c2 \<Longrightarrow> conn_run c (es @ [e]) c2"

section \<open>Connecting\<close>

text \<open>\<open>dial\<close> is what \<open>DialContext\<close> gives: an error, or the reader and the writer on the new socket.\<close>

definition Connect :: "('r, 'w, 'k, 'p) chlib \<Rightarrow> config \<Rightarrow> error + ('r \<times> 'w \<times> string) \<Rightarrow> ('r, 'w, 'k, 'p) conn go" where
  "Connect L cfg dial = (case dial of
       Inl err \<Rightarrow> Err (nerr KindNetwork ''dial'' err)
     | Inr (r, w, addr) \<Rightarrow>
         let h = \<lparr> h_major = 24, h_minor = 3, h_version = cl_version L, h_database = config_database cfg,
                   h_user = config_user cfg, h_password = cf_password cfg \<rparr>
         in (case cl_flush L (chain_buffer (cl_writer L) (cl_hello L h) w) of
           (Some err, w) \<Rightarrow> Err (nerr KindNetwork ''flush hello'' err)
         | (None, w) \<Rightarrow>
             (case rd_uvarint (cl_reader L) r of
               (Err err, r) \<Rightarrow> Err (nerr KindNetwork ''read hello response'' err)
             | (Panic p, r) \<Rightarrow> Panic p
             | (Ok code, r) \<Rightarrow>
                 (case cl_code L code of
                   SC_Hello \<Rightarrow>
                     (case cl_server_hello L (cl_version L) r of
                       (Err err, r) \<Rightarrow> Err (nerr KindProtocol ''decode server hello'' err)
                     | (Panic p, r) \<Rightarrow> Panic p
                     | (Ok srev, r) \<Rightarrow>
                         (let ready = (\<lambda>w. \<lparr> cn_state = StateReady, cn_reader = r, cn_writer = w, cn_prefix = None,
                                cn_skip = cl_no_results L, cn_skipCode = SC_Hello, cn_cfg = cfg, cn_revision = srev,
                                cn_localAddr = addr, cn_onProgress = False, cn_onProfile = False, cn_calls = [], cn_ctx = [] \<rparr>)
                          in if cl_has L F_Addendum (cl_version L)
                             then case cl_flush L (chain_buffer (cl_writer L) (put_string (cl_buffer L) []) w) of
                                 (Some err, w) \<Rightarrow> Err (nerr KindNetwork ''flush addendum'' err)
                               | (None, w) \<Rightarrow> Ok (ready w)
                             else Ok (ready w)))
                 | SC_Exception \<Rightarrow>
                     (case cl_exception L (cl_version L) r of
                       (Err err, r) \<Rightarrow> Err (nerr KindProtocol ''decode exception'' err)
                     | (Panic p, r) \<Rightarrow> Panic p
                     | (Ok (msg, ecode), r) \<Rightarrow> Err (Conn_error KindServer msg ecode None))
                 | _ \<Rightarrow> Err (perr KindProtocol ''unexpected server code'')))))"

section \<open>Queries\<close>

definition makeClientInfo :: "('r, 'w, 'k, 'p) chlib \<Rightarrow> string \<Rightarrow> client_info" where
  "makeClientInfo L addr = \<lparr> in_version = cl_version L, in_major = 24, in_minor = 3, in_patch = 0,
     in_osUser = [], in_hostname = [], in_name = ''scorch'', in_address = addr \<rparr>"

definition make_query :: "('r, 'w, 'k, 'p) chlib \<Rightarrow> string \<Rightarrow> ('r, 'w, 'k, 'p) conn \<Rightarrow> query" where
  "make_query L body s = \<lparr> q_body = body, q_compression = cf_compression (cn_cfg s),
     q_info = makeClientInfo L (cn_localAddr s), q_settings = cf_settings (cn_cfg s) \<rparr>"

definition encodePrefix :: "('r, 'w, 'k, 'p) chlib \<Rightarrow> ('r, 'w, 'k, 'p) conn \<Rightarrow> ('r, 'w, 'k, 'p) conn" where
  "encodePrefix L s = (case cn_prefix s of
       Some _ \<Rightarrow> s
     | None \<Rightarrow> s\<lparr>cn_prefix := Some (cl_block L 0 (cn_revision s) (cl_client_data L (cn_revision s) (cl_ccode_encode L CC_Data [])))\<rparr>)"

definition writeQuery :: "('r, 'w, 'k, 'p) chlib \<Rightarrow> query \<Rightarrow> (('r, 'w, 'k, 'p) conn, unit) io" where
  "writeQuery L q =
     ibind (imodify (encodePrefix L)) (\<lambda>_.
     ibind (iget (\<lambda>s. cl_query L q (cn_revision s) [])) (\<lambda>qb.
     ibind (chainw L qb) (\<lambda>_.
     ibind (iget (\<lambda>s. case cn_prefix s of Some p \<Rightarrow> p | None \<Rightarrow> [])) (\<lambda>p.
     ibind (chainw L p) (\<lambda>_. flush L)))))"

section \<open>Block info\<close>

fun skip_int32s :: "'r preader \<Rightarrow> nat \<Rightarrow> ('r, unit) rdm" where
  "skip_int32s P 0 = rret ()"
| "skip_int32s P (Suc n) = rbind (rd_int32 P) (\<lambda>_. skip_int32s P n)"

definition block_info_field :: "'r preader \<Rightarrow> ('r, unit option) rdm" where
  "block_info_field P =
     rbind (rd_uvarint P) (\<lambda>f.
     if f = 0 then rret (Some ())
     else if f = 1 then rbind (rd_bool P) (\<lambda>_. rret None)
     else if f = 2 then rbind (rd_int32 P) (\<lambda>_. rret None)
     else if f = 3 then rbind (rd_uvarint P) (\<lambda>n. rbind (skip_int32s P (unat n)) (\<lambda>_. rret None))
     else rlift (Err (nerr KindProtocol ''decode block info'' (Errorf ''unknown BlockInfo field''))))"

definition decodeBlockInfoSafe :: "'r preader \<Rightarrow> ('r, unit) io" where
  "decodeBlockInfoSafe P = iloop (lift_rdm (block_info_field P))"

end
