(* ===== verification/Conn_Exec.thy ===== *)
theory Conn_Exec
  imports Conn_State
begin

text \<open>
  \<^verbatim>\<open>conn/exec.go\<close>: skipping a block, the packets of a response, \<open>Exec\<close>, \<open>Ping\<close> and the reading of
  the column info that answers an INSERT. Every loop reads one packet code per round, so it ends
  on any input that ends: \<open>net_ok\<close> states what that needs of the reader, \<open>conn_calm\<close> what every
  operation then satisfies.
\<close>

section \<open>Shared steps\<close>

abbreviation iseq :: "('s, 'a) io \<Rightarrow> ('s, 'b) io \<Rightarrow> ('s, 'b) io" where
  "iseq m k \<equiv> ibind m (\<lambda>_. k)"

definition iignore :: "('s, 'a) io \<Rightarrow> ('s, unit) io" where
  "iignore m = (\<lambda>s. map_option (\<lambda>(x, s'). (case x of Panic p \<Rightarrow> Panic p | _ \<Rightarrow> Ok (), s')) (m s))"

definition iwhen :: "bool \<Rightarrow> ('s, unit) io \<Rightarrow> ('s, unit) io" where
  "iwhen b m = (if b then m else iret ())"

text \<open>\<open>r.EnableCompression(); defer r.DisableCompression()\<close>, when the configuration asks for it.\<close>

definition with_compression :: "('r, 'w, 'k, 'p) chlib \<Rightarrow> (('r, 'w, 'k, 'p) conn, 'a) io \<Rightarrow> (('r, 'w, 'k, 'p) conn, 'a) io" where
  "with_compression L m = (\<lambda>s.
     if cf_compression (cn_cfg s)
     then ifinally m (\<lambda>s. s\<lparr>cn_reader := cl_compress L False (cn_reader s)\<rparr>)
            (s\<lparr>cn_reader := cl_compress L True (cn_reader s)\<rparr>)
     else m s)"

definition raw_block :: "('r, 'w, 'k, 'p) chlib \<Rightarrow> (('r, 'w, 'k, 'p) conn, unit) io" where
  "raw_block L = (\<lambda>s. case cl_raw_block L (cn_revision s) (cn_reader s, cn_skip s) of
       (x, (r, k)) \<Rightarrow> Some (x, s\<lparr>cn_reader := r, cn_skip := k\<rparr>))"

definition set_skip :: "('r, 'w, 'k, 'p) chlib \<Rightarrow> scode \<Rightarrow> ('r, 'w, 'k, 'p) conn \<Rightarrow> ('r, 'w, 'k, 'p) conn" where
  "set_skip L code s =
     (if cn_skipCode s \<noteq> code then s\<lparr>cn_skip := cl_no_results L, cn_skipCode := code\<rparr> else s)"

text \<open>The guard \<open>proto.Feature....In(c.server.Revision)\<close>.\<close>

definition when_has :: "('r, 'w, 'k, 'p) chlib \<Rightarrow> feature \<Rightarrow> (('r, 'w, 'k, 'p) conn, unit) io \<Rightarrow> (('r, 'w, 'k, 'p) conn, unit) io" where
  "when_has L f m = (\<lambda>s. iwhen (cl_has L f (cn_revision s)) m s)"

definition block_info :: "('r, 'w, 'k, 'p) chlib \<Rightarrow> string \<Rightarrow> (('r, 'w, 'k, 'p) conn, unit) io" where
  "block_info L m = when_has L F_BlockInfo (iwrap (nerr KindProtocol m) (on_reader (decodeBlockInfoSafe (cl_reader L))))"

definition skipBlock :: "('r, 'w, 'k, 'p) chlib \<Rightarrow> scode \<Rightarrow> (('r, 'w, 'k, 'p) conn, unit) io" where
  "skipBlock L code =
     iseq (iwrap (nerr KindProtocol ''skip table name'') (rd (rd_strraw (cl_reader L))))
     (with_compression L
       (iseq (imodify (set_skip L code))
       (iseq (block_info L ''skip block info'')
             (iwrap (nerr KindProtocol ''skip block'') (raw_block L)))))"

definition sendCancel :: "('r, 'w, 'k, 'p) chlib \<Rightarrow> (('r, 'w, 'k, 'p) conn, unit) io" where
  "sendCancel L = iseq (chain L (put_uvarint (cl_buffer L) (cl_ccode_num L CC_Cancel))) (iignore (flush L))"

text \<open>
  The cases of the packet loops that several of them share: the context, the code, and the
  packets whose payload is decoded and dropped or handed to a callback.
\<close>

definition check_ctx :: "('r, 'w, 'k, 'p) chlib \<Rightarrow> (('r, 'w, 'k, 'p) conn, unit) io" where
  "check_ctx L = ibind ctx_done (\<lambda>d. case d of
       None \<Rightarrow> iret ()
     | Some e \<Rightarrow> iseq (sendCancel L) (ifail (nerr KindInternal ''context canceled'' e)))"

definition read_code :: "('r, 'w, 'k, 'p) chlib \<Rightarrow> string \<Rightarrow> (('r, 'w, 'k, 'p) conn, scode) io" where
  "read_code L m = ibind (iwrap (nerr KindNetwork m) (rd (rd_uvarint (cl_reader L)))) (\<lambda>v. iret (cl_code L v))"

definition on_revision :: "(int \<Rightarrow> ('r, 'a) rdm) \<Rightarrow> (('r, 'w, 'k, 'p) conn, 'a) io" where
  "on_revision m = (\<lambda>s. rd (m (cn_revision s)) s)"

definition table_columns :: "('r, 'w, 'k, 'p) chlib \<Rightarrow> (('r, 'w, 'k, 'p) conn, unit) io" where
  "table_columns L = iwrap (nerr KindProtocol ''decode table columns'') (on_revision (cl_table_columns L))"

definition handle_progress :: "('r, 'w, 'k, 'p) chlib \<Rightarrow> (('r, 'w, 'k, 'p) conn, unit) io" where
  "handle_progress L = ibind (iwrap (nerr KindProtocol ''decode progress'') (on_revision (cl_progress L))) (\<lambda>p.
     imodify (\<lambda>s. if cn_onProgress s then s\<lparr>cn_calls := cn_calls s @ [p]\<rparr> else s))"

definition drop_profile :: "('r, 'w, 'k, 'p) chlib \<Rightarrow> (('r, 'w, 'k, 'p) conn, 'p) io" where
  "drop_profile L = iwrap (nerr KindProtocol ''decode profile'') (on_revision (cl_profile L))"

definition handle_profile :: "('r, 'w, 'k, 'p) chlib \<Rightarrow> (('r, 'w, 'k, 'p) conn, unit) io" where
  "handle_profile L = ibind (drop_profile L) (\<lambda>p.
     imodify (\<lambda>s. if cn_onProfile s then s\<lparr>cn_calls := cn_calls s @ [p]\<rparr> else s))"

text \<open>An exception packet: decoded for the client's own version or for the server's revision.\<close>

definition server_error :: "string \<times> int \<Rightarrow> error" where
  "server_error = (\<lambda>(m, c). Conn_error KindServer m c None)"

definition exception_packet :: "('r, 'w, 'k, 'p) chlib \<Rightarrow> (('r, 'w, 'k, 'p) conn, 'a) io" where
  "exception_packet L = ibind (iwrap (nerr KindProtocol ''decode exception'') (rd (cl_exception L (cl_version L))))
     (\<lambda>x. ifail (server_error x))"

definition exception_packet_rev :: "('r, 'w, 'k, 'p) chlib \<Rightarrow> (string \<times> int \<Rightarrow> error) \<Rightarrow> (('r, 'w, 'k, 'p) conn, 'a) io" where
  "exception_packet_rev L f = ibind (iwrap (nerr KindProtocol ''decode exception'') (on_revision (cl_exception L)))
     (\<lambda>x. ifail (f x))"

definition goon :: "('s, 'a) io \<Rightarrow> ('s, 'b option) io" where
  "goon m = iseq m (iret None)"

section \<open>Exec and Ping\<close>

definition exec_packet :: "('r, 'w, 'k, 'p) chlib \<Rightarrow> scode \<Rightarrow> (('r, 'w, 'k, 'p) conn, unit option) io" where
  "exec_packet L code = (case code of
       SC_Data \<Rightarrow> goon (skipBlock L SC_Data)
     | SC_Totals \<Rightarrow> goon (skipBlock L SC_Data)
     | SC_Extremes \<Rightarrow> goon (skipBlock L SC_Data)
     | SC_TableColumns \<Rightarrow> goon (table_columns L)
     | SC_EndOfStream \<Rightarrow> iret (Some ())
     | SC_Exception \<Rightarrow> exception_packet L
     | SC_Progress \<Rightarrow> goon (handle_progress L)
     | SC_Profile \<Rightarrow> goon (handle_profile L)
     | SC_ProfileEvents \<Rightarrow> goon (skipBlock L SC_ProfileEvents)
     | SC_Log \<Rightarrow> goon (skipBlock L SC_Log)
     | _ \<Rightarrow> iret None)"

definition exec_body :: "('r, 'w, 'k, 'p) chlib \<Rightarrow> (('r, 'w, 'k, 'p) conn, unit option) io" where
  "exec_body L = iseq (check_ctx L) (ibind (read_code L ''read server code'') (exec_packet L))"

definition send_query :: "('r, 'w, 'k, 'p) chlib \<Rightarrow> string \<Rightarrow> (('r, 'w, 'k, 'p) conn, unit) io" where
  "send_query L body = ibind (iget (make_query L body)) (\<lambda>q.
     iwrap (nerr KindNetwork ''flush query+blank'') (writeQuery L q))"

definition Exec :: "('r, 'w, 'k, 'p) chlib \<Rightarrow> string \<Rightarrow> (('r, 'w, 'k, 'p) conn, unit) io" where
  "Exec L body = with_lock (iseq (send_query L body) (iloop (exec_body L)))"

definition Ping :: "('r, 'w, 'k, 'p) chlib \<Rightarrow> (('r, 'w, 'k, 'p) conn, unit) io" where
  "Ping L = with_lock
     (iseq (chain L (put_uvarint (cl_buffer L) (cl_ccode_num L CC_Ping)))
     (iseq (iwrap (nerr KindNetwork ''flush ping'') (flush L))
     (ibind (read_code L ''read pong'') (\<lambda>code.
       if code \<noteq> SC_Pong then ifail (perr KindProtocol ''unexpected ping response'') else iret ()))))"

section \<open>Column info\<close>

definition raw_str :: "('r, 'w, 'k, 'p) chlib \<Rightarrow> 'r \<Rightarrow> unit go \<times> 'r" where
  "raw_str L = rbind (rd_strraw (cl_reader L)) (\<lambda>_. rret ())"

fun column_infos :: "('r, 'w, 'k, 'p) chlib \<Rightarrow> nat \<Rightarrow> (('r, 'w, 'k, 'p) conn, unit) io" where
  "column_infos L 0 = iret ()"
| "column_infos L (Suc n) =
     iseq (iseq (iwrap (nerr KindProtocol ''read column name'') (rd (raw_str L)))
          (iseq (iwrap (nerr KindProtocol ''read column type'') (rd (raw_str L)))
          (when_has L F_CustomSerialization
             (iseq (iwrap (nerr KindProtocol ''read custom serialization'') (rd (rd_bool (cl_reader L)))) (iret ())))))
          (column_infos L n)"

definition readColumnInfoBlock :: "('r, 'w, 'k, 'p) chlib \<Rightarrow> (('r, 'w, 'k, 'p) conn, unit) io" where
  "readColumnInfoBlock L =
     iseq (iwrap (nerr KindProtocol ''read table name'') (rd (raw_str L)))
     (with_compression L
       (iseq (block_info L ''read column info block info'')
       (ibind (iwrap (nerr KindNetwork ''read column count'') (rd (rd_int (cl_reader L)))) (\<lambda>cols.
        if cols > 1000000 \<or> cols < 0 then ifail (perr KindProtocol ''column count out of range'')
        else ibind (iwrap (nerr KindNetwork ''read row count'') (rd (rd_int (cl_reader L)))) (\<lambda>rows.
          if rows \<noteq> 0 then ifail (perr KindProtocol ''expected rows=0 for column info block'')
          else column_infos L (nat cols))))))"

definition info_packet :: "('r, 'w, 'k, 'p) chlib \<Rightarrow> scode \<Rightarrow> (('r, 'w, 'k, 'p) conn, unit option) io" where
  "info_packet L code = (case code of
       SC_Data \<Rightarrow> iseq (readColumnInfoBlock L) (iret (Some ()))
     | SC_Exception \<Rightarrow> exception_packet_rev L server_error
     | SC_EndOfStream \<Rightarrow> ifail (perr KindProtocol ''unexpected end of stream waiting for column info'')
     | SC_Progress \<Rightarrow> goon (handle_progress L)
     | SC_TableColumns \<Rightarrow> goon (table_columns L)
     | SC_Profile \<Rightarrow> goon (handle_profile L)
     | SC_ProfileEvents \<Rightarrow> goon (iwrap (nerr KindProtocol ''skip profile events'') (skipBlock L SC_ProfileEvents))
     | SC_Log \<Rightarrow> goon (iwrap (nerr KindProtocol ''skip log'') (skipBlock L SC_Log))
     | _ \<Rightarrow> iret None)"

definition readColumnInfo :: "('r, 'w, 'k, 'p) chlib \<Rightarrow> (('r, 'w, 'k, 'p) conn, unit) io" where
  "readColumnInfo L = iloop (ibind (read_code L ''read server code'') (info_packet L))"

section \<open>The loops end\<close>

text \<open>
  What the loops need of the library: there is a measure of what the peer has still to send
  that no read increases and that the read of a packet code (a varint, at least one byte)
  decreases.
\<close>

definition quiet :: "('r \<Rightarrow> nat) \<Rightarrow> ('r, 'a) rdm \<Rightarrow> bool" where
  "quiet \<mu> m \<longleftrightarrow> (\<forall>r. \<mu> (snd (m r)) \<le> \<mu> r)"

definition reader_quiet :: "'r preader \<Rightarrow> ('r \<Rightarrow> nat) \<Rightarrow> bool" where
  "reader_quiet P \<mu> \<longleftrightarrow>
     (\<forall>r x r'. rd_uvarint P r = (Ok x, r') \<longrightarrow> \<mu> r' < \<mu> r) \<and> quiet \<mu> (rd_uvarint P) \<and>
     quiet \<mu> (rd_int P) \<and> quiet \<mu> (rd_int32 P) \<and> quiet \<mu> (rd_int64 P) \<and> quiet \<mu> (rd_bool P) \<and>
     quiet \<mu> (rd_str P) \<and> quiet \<mu> (rd_strraw P)"

definition net_ok :: "('r, 'w, 'k, 'p) chlib \<Rightarrow> ('r \<Rightarrow> nat) \<Rightarrow> bool" where
  "net_ok L \<mu> \<longleftrightarrow> reader_quiet (cl_reader L) \<mu> \<and>
     (\<forall>v. quiet \<mu> (cl_table_columns L v) \<and> quiet \<mu> (cl_exception L v) \<and> quiet \<mu> (cl_progress L v) \<and> quiet \<mu> (cl_profile L v)) \<and>
     (\<forall>v. quiet (\<mu> \<circ> fst) (cl_raw_block L v)) \<and>
     (\<forall>b r. \<mu> (cl_compress L b r) \<le> \<mu> r)"

text \<open>The operations on a locked connection leave its state, configuration and revision alone.\<close>

definition conn_frame :: "('r, 'w, 'k, 'p) conn \<Rightarrow> ('r, 'w, 'k, 'p) conn \<Rightarrow> bool" where
  "conn_frame s s' \<longleftrightarrow> cn_state s' = cn_state s \<and> cn_cfg s' = cn_cfg s \<and> cn_revision s' = cn_revision s \<and>
     cn_localAddr s' = cn_localAddr s"

abbreviation conn_calm :: "('r \<Rightarrow> nat) \<Rightarrow> (('r, 'w, 'k, 'p) conn, 'a) io \<Rightarrow> bool" where
  "conn_calm \<mu> m \<equiv> calm (\<lambda>s. \<mu> (cn_reader s)) conn_frame m"

named_theorems calm_intros \<open>operations that return and keep the connection\<close>

lemma conn_frame_refl [simp]: "conn_frame s s"
  by (simp add: conn_frame_def)

lemma conn_frame_reflp: "reflp conn_frame"
  by (simp add: reflp_def)

lemma conn_frame_trans: "transp conn_frame"
  by (auto simp: transp_def conn_frame_def)

lemma conn_frame_upd [simp]:
  "conn_frame s (s\<lparr>cn_reader := r\<rparr>)" "conn_frame s (s\<lparr>cn_writer := w\<rparr>)" "conn_frame s (s\<lparr>cn_calls := c\<rparr>)"
  "conn_frame s (s\<lparr>cn_ctx := d\<rparr>)" "conn_frame s (s\<lparr>cn_skip := k\<rparr>)" "conn_frame s (s\<lparr>cn_skipCode := q\<rparr>)"
  "conn_frame s (s\<lparr>cn_prefix := p\<rparr>)" "conn_frame s (s\<lparr>cn_reader := r, cn_skip := k\<rparr>)"
  "conn_frame s (s\<lparr>cn_skip := k, cn_skipCode := q\<rparr>)"
  by (simp_all add: conn_frame_def)

lemmas cc_iret [calm_intros] = calm_iret [OF conn_frame_reflp]
lemmas cc_ifail [calm_intros] = calm_ifail [OF conn_frame_reflp]
lemmas cc_iget [calm_intros] = calm_iget [OF conn_frame_reflp]
lemmas cc_ibind [calm_intros] = calm_ibind [OF conn_frame_trans]
lemmas cc_ifinally [calm_intros] = calm_ifinally [OF conn_frame_trans]
lemmas cc_iloop = calm_iloop [OF conn_frame_trans]
declare calm_iwrap [calm_intros]

lemma cc_goon [calm_intros]: "conn_calm \<mu> m \<Longrightarrow> conn_calm \<mu> (goon m)"
  unfolding goon_def by (intro calm_intros)

lemma cc_iwhen [calm_intros]: "conn_calm \<mu> m \<Longrightarrow> conn_calm \<mu> (iwhen b m)"
  unfolding iwhen_def by (auto intro: calm_intros)

lemma cc_iignore [calm_intros]: "conn_calm \<mu> m \<Longrightarrow> conn_calm \<mu> (iignore m)"
  unfolding calm_def iignore_def by (metis (no_types, lifting) case_prod_conv option.simps(9))

lemma cc_when_has [calm_intros]: "conn_calm \<mu> m \<Longrightarrow> conn_calm \<mu> (when_has L f m)"
  by (simp add: calm_def when_has_def iwhen_def)

lemma cc_on_reader:
  assumes "calm \<mu> (\<lambda>_ _. True) m"
  shows "conn_calm \<mu> (on_reader m :: (('r, 'w, 'k, 'p) conn, 'a) io)"
  unfolding calm_def
proof
  fix s :: "('r, 'w, 'k, 'p) conn"
  from calmD [OF assms, of "cn_reader s"] obtain x r where "m (cn_reader s) = Some (x, r)" "\<mu> r \<le> \<mu> (cn_reader s)"
    by auto
  then show "\<exists>x s'. on_reader m s = Some (x, s') \<and> conn_frame s s' \<and> \<mu> (cn_reader s') \<le> \<mu> (cn_reader s)"
    by (auto simp: on_reader_def)
qed

lemma calm_lift_rdm: "quiet \<mu> m \<Longrightarrow> calm \<mu> (\<lambda>_ _. True) (lift_rdm m)"
  unfolding calm_def lift_rdm_def quiet_def by (metis prod.collapse)

lemma cc_rd: "quiet \<mu> m \<Longrightarrow> conn_calm \<mu> (rd m)"
  by (intro cc_on_reader calm_lift_rdm)

lemma cc_on_revision: "(\<And>v. quiet \<mu> (m v)) \<Longrightarrow> conn_calm \<mu> (on_revision m)"
  using cc_rd unfolding calm_def on_revision_def by blast

lemma cc_chain [calm_intros]: "conn_calm \<mu> (chain L f)" "conn_calm \<mu> (chainw L bs)"
  by (auto simp: chain_def chainw_def intro!: calm_imodify)

lemma cc_flush [calm_intros]: "conn_calm \<mu> (flush L)"
  by (auto simp: calm_def flush_def split: prod.splits option.splits)

lemma cc_ctx_done [calm_intros]: "conn_calm \<mu> ctx_done"
  by (auto simp: calm_def ctx_done_def split: list.splits)

lemma cc_imodify: "(\<And>s. conn_frame s (f s) \<and> cn_reader (f s) = cn_reader s) \<Longrightarrow> conn_calm \<mu> (imodify f)"
  by (rule calm_imodify) auto

lemma quiet_rret: "quiet \<mu> (rret x)"
  by (simp add: quiet_def rret_def)

lemma quiet_rlift: "quiet \<mu> (rlift x)"
  by (simp add: quiet_def rlift_def)

lemma quiet_rwrap: "quiet \<mu> m \<Longrightarrow> quiet \<mu> (rwrap f m)"
  unfolding quiet_def rwrap_def by (auto split: prod.splits go.splits) (metis snd_conv)+

lemma quiet_rbind: "quiet \<mu> m \<Longrightarrow> (\<And>x. quiet \<mu> (k x)) \<Longrightarrow> quiet \<mu> (rbind m k)"
  unfolding quiet_def rbind_def
  by (auto split: prod.splits go.splits) (metis order_trans snd_conv)+

lemmas quiet_intros = quiet_rret quiet_rlift quiet_rwrap quiet_rbind

lemma quiet_skip_int32s: "reader_quiet P \<mu> \<Longrightarrow> quiet \<mu> (skip_int32s P n)"
  by (induction n) (auto simp: reader_quiet_def intro!: quiet_intros)

lemma quiet_shrink_bind:
  assumes "\<And>r x r'. m r = (Ok x, r') \<Longrightarrow> \<mu> r' < \<mu> r" and "\<And>x. quiet \<mu> (k x)"
  shows "shrinks \<mu> (lift_rdm (rbind m k))"
proof -
  have "\<mu> r' < \<mu> r" if k: "rbind m k r = (Ok y, r')" for r y r'
  proof -
    from k obtain x r1 where "m r = (Ok x, r1)" "k x r1 = (Ok y, r')" unfolding rbind_eq_Ok by blast
    moreover have "\<mu> (snd (k x r1)) \<le> \<mu> r1" using assms(2) by (simp add: quiet_def)
    ultimately show ?thesis using assms(1) [of r x r1] by simp
  qed
  then show ?thesis by (simp add: shrinks_def lift_rdm_def)
qed

lemma calm_decodeBlockInfoSafe:
  assumes "reader_quiet P \<mu>"
  shows "calm \<mu> (\<lambda>_ _. True) (decodeBlockInfoSafe P)"
proof -
  have q: "quiet \<mu> (if f = 0 then rret (Some ())
     else if f = 1 then rbind (rd_bool P) (\<lambda>_. rret None)
     else if f = 2 then rbind (rd_int32 P) (\<lambda>_. rret None)
     else if f = 3 then rbind (rd_uvarint P) (\<lambda>n. rbind (skip_int32s P (unat n)) (\<lambda>_. rret None))
     else rlift (Err (nerr KindProtocol ''decode block info'' (Errorf ''unknown BlockInfo field''))))" for f
    using assms by (auto simp: reader_quiet_def intro!: quiet_intros quiet_skip_int32s)
  have u: "quiet \<mu> (rd_uvarint P)" and lt: "rd_uvarint P r = (Ok x, r') \<Longrightarrow> \<mu> r' < \<mu> r" for r x r'
    using assms by (auto simp: reader_quiet_def)
  show ?thesis
    unfolding decodeBlockInfoSafe_def
  proof (rule calm_iloop)
    show "calm \<mu> (\<lambda>_ _. True) (lift_rdm (block_info_field P))"
      unfolding block_info_field_def by (intro calm_lift_rdm quiet_rbind u q)
    show "shrinks \<mu> (lift_rdm (block_info_field P))"
      unfolding block_info_field_def by (rule quiet_shrink_bind [OF lt q])
  qed (simp add: transp_def)
qed

section \<open>Every operation returns and keeps the connection\<close>

lemma net_readerD: "net_ok L \<mu> \<Longrightarrow> reader_quiet (cl_reader L) \<mu>"
  by (simp add: net_ok_def)

lemma net_quiet:
  assumes "net_ok L \<mu>"
  shows "quiet \<mu> (rd_uvarint (cl_reader L))" "quiet \<mu> (rd_int (cl_reader L))" "quiet \<mu> (rd_bool (cl_reader L))"
    "quiet \<mu> (rd_str (cl_reader L))" "quiet \<mu> (rd_strraw (cl_reader L))"
    "quiet \<mu> (cl_table_columns L v)" "quiet \<mu> (cl_exception L v)" "quiet \<mu> (cl_progress L v)" "quiet \<mu> (cl_profile L v)"
  using assms by (simp_all add: net_ok_def reader_quiet_def)

lemma quiet_raw_str: "net_ok L \<mu> \<Longrightarrow> quiet \<mu> (raw_str L)"
  unfolding raw_str_def by (intro quiet_intros net_quiet)

lemma cc_raw_block:
  assumes "net_ok L \<mu>" shows "conn_calm \<mu> (raw_block L)"
proof -
  have "\<mu> (fst (snd (cl_raw_block L v (r, k)))) \<le> \<mu> r" for v r k
    using assms by (auto simp: net_ok_def quiet_def)
  then show ?thesis
    unfolding calm_def raw_block_def by (auto split: prod.splits) (metis fst_conv snd_conv)+
qed

lemma cc_with_compression:
  assumes "net_ok L \<mu>" and m: "conn_calm \<mu> m" shows "conn_calm \<mu> (with_compression L m)"
  unfolding calm_def
proof
  fix s
  have c: "\<mu> (cl_compress L b r) \<le> \<mu> r" for b r using assms(1) by (simp add: net_ok_def)
  obtain x s1 where 1: "m (s\<lparr>cn_reader := cl_compress L True (cn_reader s)\<rparr>) = Some (x, s1)"
      "conn_frame (s\<lparr>cn_reader := cl_compress L True (cn_reader s)\<rparr>) s1"
      "\<mu> (cn_reader s1) \<le> \<mu> (cl_compress L True (cn_reader s))"
    using calmD [OF m, of "s\<lparr>cn_reader := cl_compress L True (cn_reader s)\<rparr>"] by auto
  have "\<mu> (cl_compress L False (cn_reader s1)) \<le> \<mu> (cn_reader s)"
    using 1(3) c order_trans by meson
  with 1(1,2) calmD [OF m, of s]
  show "\<exists>x s'. with_compression L m s = Some (x, s') \<and> conn_frame s s' \<and> \<mu> (cn_reader s') \<le> \<mu> (cn_reader s)"
    by (auto simp: with_compression_def conn_frame_def)
qed

lemma cc_block_info: "net_ok L \<mu> \<Longrightarrow> conn_calm \<mu> (block_info L m)"
  unfolding block_info_def
  by (intro calm_intros cc_on_reader calm_decodeBlockInfoSafe net_readerD)

lemma cc_set_skip: "conn_calm \<mu> (imodify (set_skip L code))"
  by (rule cc_imodify) (simp add: set_skip_def)

lemma cc_skipBlock: "net_ok L \<mu> \<Longrightarrow> conn_calm \<mu> (skipBlock L code)"
  unfolding skipBlock_def
  by (intro calm_intros cc_rd net_quiet cc_with_compression cc_set_skip cc_block_info cc_raw_block)

lemma cc_sendCancel [calm_intros]: "conn_calm \<mu> (sendCancel L)"
  unfolding sendCancel_def by (intro calm_intros)

lemma cc_check_ctx [calm_intros]: "conn_calm \<mu> (check_ctx L)"
  unfolding check_ctx_def by (intro calm_intros) (auto intro: calm_intros split: option.splits)

lemma cc_read_code: "net_ok L \<mu> \<Longrightarrow> conn_calm \<mu> (read_code L m)"
  unfolding read_code_def by (intro calm_intros cc_rd net_quiet)

lemma cc_packets:
  assumes "net_ok L \<mu>"
  shows "conn_calm \<mu> (table_columns L)" "conn_calm \<mu> (handle_progress L)" "conn_calm \<mu> (drop_profile L)"
    "conn_calm \<mu> (handle_profile L)" "conn_calm \<mu> (exception_packet L)" "conn_calm \<mu> (exception_packet_rev L f)"
proof -
  show "conn_calm \<mu> (table_columns L)"
    unfolding table_columns_def by (intro calm_intros cc_on_revision net_quiet assms)
  show "conn_calm \<mu> (handle_progress L)"
    unfolding handle_progress_def by (intro calm_intros cc_on_revision net_quiet assms cc_imodify) simp
  show 1: "conn_calm \<mu> (drop_profile L)"
    unfolding drop_profile_def by (intro calm_intros cc_on_revision net_quiet assms)
  show "conn_calm \<mu> (handle_profile L)"
    unfolding handle_profile_def by (intro calm_intros 1 cc_imodify) simp
  show "conn_calm \<mu> (exception_packet L)"
    unfolding exception_packet_def by (intro calm_intros cc_rd net_quiet assms)
  show "conn_calm \<mu> (exception_packet_rev L f)"
    unfolding exception_packet_rev_def by (intro calm_intros cc_on_revision net_quiet assms)
qed

lemma cc_exec_packet: "net_ok L \<mu> \<Longrightarrow> conn_calm \<mu> (exec_packet L code)"
  unfolding exec_packet_def
  by (cases code) (auto intro!: calm_intros cc_skipBlock cc_packets)

lemma cc_column_infos: "net_ok L \<mu> \<Longrightarrow> conn_calm \<mu> (column_infos L n)"
  by (induction n) (auto intro!: calm_intros cc_rd quiet_raw_str net_quiet)

lemma cc_readColumnInfoBlock: "net_ok L \<mu> \<Longrightarrow> conn_calm \<mu> (readColumnInfoBlock L)"
  unfolding readColumnInfoBlock_def
  by (intro calm_intros cc_rd quiet_raw_str net_quiet cc_with_compression cc_block_info)
    (auto intro!: calm_intros cc_rd net_quiet cc_column_infos)

lemma cc_info_packet: "net_ok L \<mu> \<Longrightarrow> conn_calm \<mu> (info_packet L code)"
  unfolding info_packet_def
  by (cases code) (auto intro!: calm_intros cc_skipBlock cc_packets cc_readColumnInfoBlock)

text \<open>The reading of a code is what makes a round of a packet loop progress.\<close>

lemma shrinks_read_code:
  fixes L :: "('r, 'w, 'k, 'p) chlib"
  assumes n: "net_ok L \<mu>" and k: "\<And>c. conn_calm \<mu> (k c)"
  shows "shrinks (\<lambda>s. \<mu> (cn_reader s)) (ibind (read_code L m) k)"
proof (rule shrinks_bind [OF cc_read_code [OF n] _ k])
  have lt: "rd_uvarint (cl_reader L) r = (Ok x, r') \<Longrightarrow> \<mu> r' < \<mu> r" for r x r'
    using n by (simp add: net_ok_def reader_quiet_def)
  have 1: "conn_calm \<mu> (iwrap (nerr KindNetwork m) (rd (rd_uvarint (cl_reader L))) :: (('r, 'w, 'k, 'p) conn, u64) io)"
    by (intro calm_intros cc_rd net_quiet n)
  have 2: "shrinks (\<lambda>s. \<mu> (cn_reader s)) (rd (rd_uvarint (cl_reader L)) :: (('r, 'w, 'k, 'p) conn, u64) io)"
    by (auto simp: shrinks_def on_reader_def lift_rdm_def split: prod.splits dest: lt)
  show "shrinks (\<lambda>s. \<mu> (cn_reader s)) (read_code L m)"
    unfolding read_code_def
  proof (rule shrinks_bind [OF 1 shrinks_iwrap [OF 2]])
    show "\<And>x. conn_calm \<mu> (iret (cl_code L x) :: (('r, 'w, 'k, 'p) conn, scode) io)" by (intro calm_intros)
  qed
qed

lemma shrinks_after:
  assumes "calm \<mu> R m" and "\<And>x. calm \<mu> R (k x)" and "\<And>x. shrinks \<mu> (k x)"
  shows "shrinks \<mu> (ibind m k)"
  unfolding shrinks_def
proof (intro allI impI)
  fix s y s' assume e: "ibind m k s = Some (Ok y, s')"
  obtain x s1 where 1: "m s = Some (x, s1)" "\<mu> s1 \<le> \<mu> s" using calmD [OF assms(1), of s] by auto
  with e obtain a where a: "x = Ok a" by (cases x) auto
  with e 1 have "k a s1 = Some (Ok y, s')" by simp
  then have "\<mu> s' < \<mu> s1" using assms(3) by (auto simp: shrinks_def)
  with 1 show "\<mu> s' < \<mu> s" by simp
qed

lemma cc_packet_loop:
  assumes "net_ok L \<mu>" and "\<And>c. conn_calm \<mu> (k c)"
  shows "conn_calm \<mu> (iloop (ibind (read_code L m) k))"
  by (rule cc_iloop) (intro calm_intros cc_read_code assms shrinks_read_code)+

lemma cc_ctx_loop:
  assumes "net_ok L \<mu>" and "\<And>c. conn_calm \<mu> (k c)"
  shows "conn_calm \<mu> (iloop (iseq (check_ctx L) (ibind (read_code L m) k)))"
proof (rule cc_iloop)
  show "shrinks (\<lambda>s. \<mu> (cn_reader s)) (iseq (check_ctx L) (ibind (read_code L m) k))"
    by (rule shrinks_after [where R = conn_frame]) (intro calm_intros cc_read_code assms shrinks_read_code)+
qed (intro calm_intros cc_read_code assms)

lemma cc_encodePrefix: "conn_calm \<mu> (imodify (encodePrefix L))"
  by (rule cc_imodify) (simp add: encodePrefix_def split: option.split)

lemma cc_send_query [calm_intros]: "conn_calm \<mu> (send_query L body)"
  unfolding send_query_def writeQuery_def by (intro calm_intros cc_encodePrefix)

lemma cc_readColumnInfo: "net_ok L \<mu> \<Longrightarrow> conn_calm \<mu> (readColumnInfo L)"
  unfolding readColumnInfo_def by (intro cc_packet_loop cc_info_packet)

text \<open>What the lock adds: the operation runs on a ready connection only, and leaves it ready.\<close>

lemma with_lock_calm:
  assumes m: "conn_calm \<mu> m"
  shows "\<exists>x s'. with_lock m s = Some (x, s') \<and>
     (if cn_state s = StateReady then cn_state s' = StateReady
      else s' = s \<and> x = Err (perr KindInternal ''connection is not ready''))"
proof (cases "cn_state s = StateReady")
  case True
  then have "conn_lock s = Some (Ok (), s\<lparr>cn_state := StateBusy\<rparr>)" by (simp add: conn_lock_def)
  moreover obtain x s1 where "m (s\<lparr>cn_state := StateBusy\<rparr>) = Some (x, s1)"
    using calmD [OF m] by blast
  ultimately have "with_lock m s = Some (x, conn_unlock s1)" by (simp add: with_lock_def)
  with True show ?thesis by (simp add: conn_unlock_def unlock_state_def)
next
  case False
  then have "lock_state (cn_state s) = None" by (cases "cn_state s") simp_all
  then have "conn_lock s = Some (Err (perr KindInternal ''connection is not ready''), s)" by (simp add: conn_lock_def)
  with False show ?thesis by (simp add: with_lock_def)
qed

end
