(* ===== verification/Conn_Select.thy ===== *)
theory Conn_Select
  imports Conn_Exec
begin

text \<open>
  \<^verbatim>\<open>conn/column.go\<close>, \<^verbatim>\<open>conn/select.go\<close> and \<^verbatim>\<open>conn/insert.go\<close>: the columns a query is bound to,
  reading a data block into them, \<open>Select\<close>, writing them as a block, and \<open>Insert\<close>.
\<close>

section \<open>Columns\<close>

text \<open>
  The interface \<open>conn.Column\<close> with the optional interfaces \<open>StateEncoder\<close> and \<open>StateDecoder\<close>. The
  columns of one call may be of several types: \<open>'c\<close> is their sum. Reader, buffer and writer are
  the connection's.
\<close>

record ('r, 'w, 'c) column =
  co_name :: "'c \<Rightarrow> string"
  co_type :: "'c \<Rightarrow> string"
  co_len :: "'c \<Rightarrow> int go"
  co_decode :: "'c \<Rightarrow> int \<Rightarrow> ('r, 'c) rdm"
  co_write :: "'c \<Rightarrow> 'w \<Rightarrow> ('c \<times> 'w) go"
  co_encode_state :: "'c \<Rightarrow> (byte list \<Rightarrow> byte list) option"
  co_decode_state :: "'c \<Rightarrow> ('r, unit) rdm option"

text \<open>A column of package \<open>column\<close> that writes no state, as a \<open>conn.Column\<close>.\<close>

definition column_of :: "ctypes \<Rightarrow> ('r, 'w, 'c, 't) of_ops \<Rightarrow> 'r preader \<Rightarrow> 'w pwriter \<Rightarrow> pbuffer \<Rightarrow> ('r, 'w, 'c) column" where
  "column_of C I P W B = \<lparr>
     co_name = of_name I,
     co_type = of_type I C,
     co_len = (\<lambda>c. Ok (int (of_len I c))),
     co_decode = of_decode I P,
     co_write = (\<lambda>c w. Ok (c, of_write I W B c w)),
     co_encode_state = (\<lambda>_. None),
     co_decode_state = (\<lambda>_. None) \<rparr>"

text \<open>A LowCardinality column: the one that implements the two optional interfaces.\<close>

definition lc_column :: "ctypes \<Rightarrow> ('r, 'w, 'c, 't) of_ops \<Rightarrow> 't gotype \<Rightarrow> 'r preader \<Rightarrow> 'w pwriter \<Rightarrow> pbuffer \<Rightarrow> ('r, 'w, ('c, 't) lc_col) column" where
  "lc_column C I T P W B = \<lparr>
     co_name = lc_name I,
     co_type = lc_type I C,
     co_len = (\<lambda>c. go_bind (lc_len I c) (\<lambda>n. Ok (int n))),
     co_decode = lc_decode T P,
     co_write = lc_write I T W B,
     co_encode_state = (\<lambda>_. Some (lc_EncodeState B)),
     co_decode_state = (\<lambda>_. Some (lc_DecodeState P)) \<rparr>"

text \<open>Columns of one of two types: the dynamic dispatch on an interface value.\<close>

definition sum_column :: "('r, 'w, 'c) column \<Rightarrow> ('r, 'w, 'd) column \<Rightarrow> ('r, 'w, 'c + 'd) column" where
  "sum_column I J = \<lparr>
     co_name = case_sum (co_name I) (co_name J),
     co_type = case_sum (co_type I) (co_type J),
     co_len = case_sum (co_len I) (co_len J),
     co_decode = case_sum (\<lambda>c n. rbind (co_decode I c n) (\<lambda>c. rret (Inl c))) (\<lambda>d n. rbind (co_decode J d n) (\<lambda>d. rret (Inr d))),
     co_write = case_sum (\<lambda>c w. go_bind (co_write I c w) (\<lambda>(c, w). Ok (Inl c, w))) (\<lambda>d w. go_bind (co_write J d w) (\<lambda>(d, w). Ok (Inr d, w))),
     co_encode_state = case_sum (co_encode_state I) (co_encode_state J),
     co_decode_state = case_sum (co_decode_state I) (co_decode_state J) \<rparr>"

section \<open>Select\<close>

text \<open>
  A call's state: the connection, the columns it is bound to, and the rows it has counted (its
  first result, whatever the error).
\<close>

record ('r, 'w, 'k, 'p, 'c) call =
  ca_conn :: "('r, 'w, 'k, 'p) conn"
  ca_cols :: "'c list"
  ca_rows :: int

definition on_conn :: "(('r, 'w, 'k, 'p) conn, 'a) io \<Rightarrow> (('r, 'w, 'k, 'p, 'c) call, 'a) io" where
  "on_conn m = (\<lambda>s. map_option (\<lambda>(x, c). (x, s\<lparr>ca_conn := c\<rparr>)) (m (ca_conn s)))"

definition decode_state :: "('r, 'w, 'c) column \<Rightarrow> 'c \<Rightarrow> (('r, 'w, 'k, 'p) conn, unit) io" where
  "decode_state I c = (case co_decode_state I c of
       Some m \<Rightarrow> iwrap (nerr KindProtocol ''decode state column'') (rd m)
     | None \<Rightarrow> iret ())"

definition block_column :: "('r, 'w, 'k, 'p) chlib \<Rightarrow> ('r, 'w, 'c) column \<Rightarrow> ('r \<Rightarrow> unit go \<times> 'r) \<Rightarrow> int \<Rightarrow> 'c \<Rightarrow> (('r, 'w, 'k, 'p) conn, 'c) io" where
  "block_column L I str rows c =
     iseq (iwrap (nerr KindProtocol ''read column name'') (rd str))
     (iseq (iwrap (nerr KindProtocol ''read column type'') (rd str))
     (iseq (when_has L F_CustomSerialization
        (iseq (iwrap (nerr KindProtocol ''read column custom serialization'') (rd (rd_bool (cl_reader L)))) (iret ())))
     (if rows > 0
      then iseq (decode_state I c) (iwrap (nerr KindProtocol ''decode column'') (rd (co_decode I c rows)))
      else iret c)))"

text \<open>The columns are pointers: those before a failing one keep what they decoded.\<close>

fun block_columns :: "('r, 'w, 'k, 'p) chlib \<Rightarrow> ('r, 'w, 'c) column \<Rightarrow> int \<Rightarrow> nat \<Rightarrow> nat \<Rightarrow> (('r, 'w, 'k, 'p, 'c) call, unit) io" where
  "block_columns L I rows i 0 = iret ()"
| "block_columns L I rows i (Suc n) =
     ibind (iget (\<lambda>s. ca_cols s ! i)) (\<lambda>c.
     ibind (on_conn (block_column L I (raw_str L) rows c)) (\<lambda>c'.
     iseq (imodify (\<lambda>s. s\<lparr>ca_cols := (ca_cols s)[i := c']\<rparr>))
          (block_columns L I rows (Suc i) n)))"

definition ca_with_compression :: "('r, 'w, 'k, 'p) chlib \<Rightarrow> (('r, 'w, 'k, 'p, 'c) call, 'a) io \<Rightarrow> (('r, 'w, 'k, 'p, 'c) call, 'a) io" where
  "ca_with_compression L m = (\<lambda>s.
     if cf_compression (cn_cfg (ca_conn s))
     then ifinally m (\<lambda>s. s\<lparr>ca_conn := (ca_conn s)\<lparr>cn_reader := cl_compress L False (cn_reader (ca_conn s))\<rparr>\<rparr>)
            (s\<lparr>ca_conn := (ca_conn s)\<lparr>cn_reader := cl_compress L True (cn_reader (ca_conn s))\<rparr>\<rparr>)
     else m s)"

definition block_size :: "('r, 'w, 'k, 'p) chlib \<Rightarrow> (('r, 'w, 'k, 'p) conn, int \<times> int) io" where
  "block_size L =
     ibind (iwrap (nerr KindProtocol ''decode block columns'') (rd (rd_int (cl_reader L)))) (\<lambda>cols.
     ibind (iwrap (nerr KindProtocol ''decode block rows'') (rd (rd_int (cl_reader L)))) (\<lambda>rows.
     if cols > 1000000 \<or> cols < 0 then ifail (perr KindProtocol ''block columns out of range'')
     else if rows > 100000000 \<or> rows < 0 then ifail (perr KindProtocol ''block rows out of range'')
     else iret (cols, rows)))"

definition handleDataBlock :: "('r, 'w, 'k, 'p) chlib \<Rightarrow> ('r, 'w, 'c) column \<Rightarrow> (('r, 'w, 'k, 'p, 'c) call, int) io" where
  "handleDataBlock L I =
     iseq (on_conn (when_has L F_TempTables (iwrap (nerr KindProtocol ''read temp table name'') (rd (raw_str L)))))
     (ca_with_compression L
       (iseq (on_conn (block_info L ''decode block info''))
       (ibind (on_conn (block_size L)) (\<lambda>(cols, rows).
        if cols = 0 \<and> rows = 0 then iret 0
        else ibind (iget (\<lambda>s. length (ca_cols s))) (\<lambda>n.
          if int n \<noteq> cols then ifail (perr KindProtocol ''column count mismatch'')
          else iseq (block_columns L I rows 0 n) (iret rows))))))"

definition select_packet :: "('r, 'w, 'k, 'p) chlib \<Rightarrow> ('r, 'w, 'c) column \<Rightarrow> scode \<Rightarrow> (('r, 'w, 'k, 'p, 'c) call, unit option) io" where
  "select_packet L I code = (case code of
       SC_Data \<Rightarrow> ibind (handleDataBlock L I) (\<lambda>added. goon (imodify (\<lambda>s. s\<lparr>ca_rows := ca_rows s + added\<rparr>)))
     | SC_EndOfStream \<Rightarrow> iret (Some ())
     | SC_Exception \<Rightarrow> on_conn (exception_packet L)
     | SC_Progress \<Rightarrow> goon (on_conn (handle_progress L))
     | SC_Profile \<Rightarrow> goon (on_conn (handle_profile L))
     | SC_ProfileEvents \<Rightarrow> goon (on_conn (skipBlock L SC_ProfileEvents))
     | SC_Log \<Rightarrow> goon (on_conn (skipBlock L SC_Log))
     | SC_Totals \<Rightarrow> goon (on_conn (skipBlock L SC_Totals))
     | SC_Extremes \<Rightarrow> goon (on_conn (skipBlock L SC_Totals))
     | _ \<Rightarrow> iret None)"

definition select_body :: "('r, 'w, 'k, 'p) chlib \<Rightarrow> ('r, 'w, 'c) column \<Rightarrow> (('r, 'w, 'k, 'p, 'c) call, unit option) io" where
  "select_body L I = iseq (on_conn (check_ctx L))
     (ibind (on_conn (read_code L ''read server code'')) (select_packet L I))"

definition ca_with_lock :: "(('r, 'w, 'k, 'p, 'c) call, 'a) io \<Rightarrow> (('r, 'w, 'k, 'p, 'c) call, 'a) io" where
  "ca_with_lock m = iseq (on_conn conn_lock) (ifinally m (\<lambda>s. s\<lparr>ca_conn := conn_unlock (ca_conn s)\<rparr>))"

definition Select :: "('r, 'w, 'k, 'p) chlib \<Rightarrow> ('r, 'w, 'c) column \<Rightarrow> string \<Rightarrow> (('r, 'w, 'k, 'p, 'c) call, unit) io" where
  "Select L I body = iseq (imodify (\<lambda>s. s\<lparr>ca_rows := 0\<rparr>))
     (ca_with_lock (iseq (on_conn (send_query L body)) (iloop (select_body L I))))"

section \<open>Insert\<close>

fun check_lengths :: "('r, 'w, 'c) column \<Rightarrow> int \<Rightarrow> 'c list \<Rightarrow> unit go" where
  "check_lengths I rows [] = Ok ()"
| "check_lengths I rows (c # cs) = go_bind (co_len I c) (\<lambda>n.
     if n \<noteq> rows then Err (perr KindProtocol ''column has the wrong number of rows'')
     else check_lengths I rows cs)"

definition insert_rows :: "('r, 'w, 'c) column \<Rightarrow> string \<Rightarrow> 'c list \<Rightarrow> int go" where
  "insert_rows I msg cols = (case cols of
       [] \<Rightarrow> Err (perr KindProtocol msg)
     | c # cs \<Rightarrow> go_bind (co_len I c) (\<lambda>n.
         if n = 0 then Err (perr KindProtocol msg)
         else go_bind (co_len I c) (\<lambda>rows. go_bind (check_lengths I rows cs) (\<lambda>_. Ok rows))))"

definition data_header :: "('r, 'w, 'k, 'p) chlib \<Rightarrow> int \<Rightarrow> byte list \<Rightarrow> byte list" where
  "data_header L rv b = cl_client_data L rv (cl_ccode_encode L CC_Data b)"

definition block_header :: "('r, 'w, 'k, 'p) chlib \<Rightarrow> int \<Rightarrow> int \<Rightarrow> int \<Rightarrow> byte list \<Rightarrow> byte list" where
  "block_header L rv cols rows b =
     put_int (cl_buffer L) rows (put_int (cl_buffer L) cols
       (if cl_has L F_BlockInfo rv then cl_block_info L (-1) b else b))"

definition column_start :: "('r, 'w, 'k, 'p) chlib \<Rightarrow> ('r, 'w, 'c) column \<Rightarrow> int \<Rightarrow> 'c \<Rightarrow> byte list \<Rightarrow> byte list" where
  "column_start L I rv c b =
     (let b = put_string (cl_buffer L) (co_type I c) (put_string (cl_buffer L) (co_name I c) b)
      in if cl_has L F_CustomSerialization rv then put_bool (cl_buffer L) False b else b)"

definition blank_block :: "('r, 'w, 'k, 'p) chlib \<Rightarrow> int \<Rightarrow> byte list \<Rightarrow> byte list" where
  "blank_block L rv b = cl_block L 0 rv (cl_client_data L rv (cl_ccode_encode L CC_Data b))"

text \<open>
  The writer keeps what was chained before a \<open>WriteColumn\<close> that panics. That one itself has then
  chained nothing: the only one that can panic, LowCardinality's, expands its rows first.
\<close>

definition write_column :: "('r, 'w, 'k, 'p) chlib \<Rightarrow> ('r, 'w, 'c) column \<Rightarrow> bool \<Rightarrow> int \<Rightarrow> 'c \<Rightarrow> 'w \<Rightarrow> 'c go \<times> 'w" where
  "write_column L I states rv c w =
     (let w = chain_buffer (cl_writer L) (column_start L I rv c) w;
          w = (case co_encode_state I c of
                 Some f \<Rightarrow> if states then chain_buffer (cl_writer L) f w else w
               | None \<Rightarrow> w)
      in case co_write I c w of
           Ok (c', w') \<Rightarrow> (Ok c', w')
         | Err e \<Rightarrow> (Err e, w)
         | Panic p \<Rightarrow> (Panic p, w))"

fun write_columns :: "('r, 'w, 'k, 'p) chlib \<Rightarrow> ('r, 'w, 'c) column \<Rightarrow> bool \<Rightarrow> int \<Rightarrow> 'c list \<Rightarrow> 'w \<Rightarrow> unit go \<times> 'c list \<times> 'w" where
  "write_columns L I states rv [] w = (Ok (), [], w)"
| "write_columns L I states rv (c # cs) w = (case write_column L I states rv c w of
       (Ok c', w') \<Rightarrow> (case write_columns L I states rv cs w' of (x, cs', w'') \<Rightarrow> (x, c' # cs', w''))
     | (Err e, w') \<Rightarrow> (Err e, c # cs, w')
     | (Panic p, w') \<Rightarrow> (Panic p, c # cs, w'))"

text \<open>\<open>states\<close>: \<open>Insert\<close> writes the state of the columns that have one, the streams do not.\<close>

definition write_block :: "('r, 'w, 'k, 'p) chlib \<Rightarrow> ('r, 'w, 'c) column \<Rightarrow> bool \<Rightarrow> int \<Rightarrow> (('r, 'w, 'k, 'p, 'c) call, unit) io" where
  "write_block L I states rows =
     iseq (on_conn (\<lambda>s. chain L (data_header L (cn_revision s)) s))
     (iseq (\<lambda>s. on_conn (chain L (block_header L (cn_revision (ca_conn s)) (int (length (ca_cols s))) rows)) s)
     (\<lambda>s. case write_columns L I states (cn_revision (ca_conn s)) (ca_cols s) (cn_writer (ca_conn s)) of
        (x, cs, w) \<Rightarrow> Some (x, s\<lparr>ca_cols := cs, ca_conn := (ca_conn s)\<lparr>cn_writer := w\<rparr>\<rparr>)))"

definition chain_blank :: "('r, 'w, 'k, 'p) chlib \<Rightarrow> (('r, 'w, 'k, 'p) conn, unit) io" where
  "chain_blank L = (\<lambda>s. chain L (blank_block L (cn_revision s)) s)"

definition insert_error :: "string \<times> int \<Rightarrow> error" where
  "insert_error = (\<lambda>(m, c). Conn_error KindServer (m @ '' (server code, exception code)'') 0 None)"

definition insert_packet :: "('r, 'w, 'k, 'p) chlib \<Rightarrow> (string \<times> int \<Rightarrow> error) \<Rightarrow> string \<Rightarrow> scode \<Rightarrow> (('r, 'w, 'k, 'p) conn, unit option) io" where
  "insert_packet L f unexpected code = (case code of
       SC_EndOfStream \<Rightarrow> iret (Some ())
     | SC_Exception \<Rightarrow> exception_packet_rev L f
     | SC_Progress \<Rightarrow> goon (handle_progress L)
     | SC_Data \<Rightarrow> goon (skipBlock L SC_Data)
     | SC_TableColumns \<Rightarrow> goon (table_columns L)
     | SC_Profile \<Rightarrow> goon (drop_profile L)
     | SC_ProfileEvents \<Rightarrow> goon (skipBlock L SC_ProfileEvents)
     | SC_Log \<Rightarrow> goon (skipBlock L SC_Log)
     | _ \<Rightarrow> ifail (perr KindProtocol unexpected))"

definition insert_body :: "('r, 'w, 'k, 'p) chlib \<Rightarrow> string \<Rightarrow> (string \<times> int \<Rightarrow> error) \<Rightarrow> string \<Rightarrow> (('r, 'w, 'k, 'p) conn, unit option) io" where
  "insert_body L msg f unexpected = iseq (check_ctx L) (ibind (read_code L msg) (insert_packet L f unexpected))"

definition go_io :: "('s \<Rightarrow> 'a go) \<Rightarrow> ('s, 'a) io" where
  "go_io f = (\<lambda>s. Some (f s, s))"

definition Insert :: "('r, 'w, 'k, 'p) chlib \<Rightarrow> ('r, 'w, 'c) column \<Rightarrow> string \<Rightarrow> (('r, 'w, 'k, 'p, 'c) call, unit) io" where
  "Insert L I body = ca_with_lock
     (ibind (go_io (\<lambda>s. insert_rows I ''no data to insert'' (ca_cols s))) (\<lambda>rows.
      iseq (on_conn (send_query L body))
      (iseq (on_conn (readColumnInfo L))
      (iseq (write_block L I True rows)
      (iseq (on_conn (chain_blank L))
      (iseq (iwrap (nerr KindNetwork ''flush data+blank'') (on_conn (flush L)))
            (on_conn (iloop (insert_body L ''read server code'' insert_error ''unexpected server code in insert response'')))))))))"

section \<open>Every call returns\<close>

definition column_quiet :: "('r, 'w, 'c) column \<Rightarrow> ('r \<Rightarrow> nat) \<Rightarrow> bool" where
  "column_quiet I \<mu> \<longleftrightarrow> (\<forall>c n. quiet \<mu> (co_decode I c n)) \<and> (\<forall>c m. co_decode_state I c = Some m \<longrightarrow> quiet \<mu> m)"

definition call_frame :: "('r, 'w, 'k, 'p, 'c) call \<Rightarrow> ('r, 'w, 'k, 'p, 'c) call \<Rightarrow> bool" where
  "call_frame s s' \<longleftrightarrow> conn_frame (ca_conn s) (ca_conn s') \<and> length (ca_cols s') = length (ca_cols s)"

abbreviation call_calm :: "('r \<Rightarrow> nat) \<Rightarrow> (('r, 'w, 'k, 'p, 'c) call, 'a) io \<Rightarrow> bool" where
  "call_calm \<mu> m \<equiv> calm (\<lambda>s. \<mu> (cn_reader (ca_conn s))) call_frame m"

named_theorems call_intros \<open>operations that return and keep the call's connection\<close>

lemma call_frame_reflp: "reflp call_frame"
  by (simp add: reflp_def call_frame_def)

lemma call_frame_trans: "transp call_frame"
  by (auto simp: transp_def call_frame_def dest: transpD [OF conn_frame_trans])

lemmas [call_intros] = calm_iret [OF call_frame_reflp] calm_ifail [OF call_frame_reflp] calm_iget [OF call_frame_reflp]
  calm_ibind [OF call_frame_trans] calm_ifinally [OF call_frame_trans] calm_iwrap

lemma call_goon [call_intros]: "call_calm \<mu> m \<Longrightarrow> call_calm \<mu> (goon m)"
  unfolding goon_def by (intro call_intros)

lemma call_imodify: "(\<And>s. call_frame s (f s) \<and> ca_conn (f s) = ca_conn s) \<Longrightarrow> call_calm \<mu> (imodify f)"
  by (rule calm_imodify) auto

lemma call_on_conn:
  assumes "conn_calm \<mu> m"
  shows "call_calm \<mu> (on_conn m :: (('r, 'w, 'k, 'p, 'c) call, 'a) io)"
  unfolding calm_def
proof
  fix s :: "('r, 'w, 'k, 'p, 'c) call"
  from calmD [OF assms, of "ca_conn s"] obtain x c where "m (ca_conn s) = Some (x, c)" "conn_frame (ca_conn s) c"
      "\<mu> (cn_reader c) \<le> \<mu> (cn_reader (ca_conn s))" by auto
  then show "\<exists>x s'. on_conn m s = Some (x, s') \<and> call_frame s s' \<and> \<mu> (cn_reader (ca_conn s')) \<le> \<mu> (cn_reader (ca_conn s))"
    by (auto simp: on_conn_def call_frame_def)
qed

lemma on_conn_ibind: "ibind (on_conn m) (\<lambda>x. on_conn (k x)) = on_conn (ibind m k)"
  by (auto simp: ibind_def on_conn_def fun_eq_iff split: option.splits prod.splits go.splits)

lemma call_with_compression:
  fixes m :: "(('r, 'w, 'k, 'p, 'c) call, 'a) io"
  assumes "net_ok L \<mu>" and m: "call_calm \<mu> m" shows "call_calm \<mu> (ca_with_compression L m)"
  unfolding calm_def
proof
  fix s :: "('r, 'w, 'k, 'p, 'c) call"
  have c: "\<mu> (cl_compress L b r) \<le> \<mu> r" for b r using assms(1) by (simp add: net_ok_def)
  let ?s = "s\<lparr>ca_conn := (ca_conn s)\<lparr>cn_reader := cl_compress L True (cn_reader (ca_conn s))\<rparr>\<rparr>"
  obtain x s1 where 1: "m ?s = Some (x, s1)" "call_frame ?s s1"
      "\<mu> (cn_reader (ca_conn s1)) \<le> \<mu> (cl_compress L True (cn_reader (ca_conn s)))"
    using calmD [OF m, of ?s] by auto
  have "\<mu> (cl_compress L False (cn_reader (ca_conn s1))) \<le> \<mu> (cn_reader (ca_conn s))"
    using 1(3) c order_trans by meson
  with 1(1,2) calmD [OF m, of s]
  show "\<exists>x s'. ca_with_compression L m s = Some (x, s') \<and> call_frame s s' \<and> \<mu> (cn_reader (ca_conn s')) \<le> \<mu> (cn_reader (ca_conn s))"
    by (auto simp: ca_with_compression_def call_frame_def conn_frame_def)
qed

lemma cc_block_column:
  assumes "net_ok L \<mu>" and "column_quiet I \<mu>" and "quiet \<mu> str"
  shows "conn_calm \<mu> (block_column L I str rows c)"
  using assms(2) unfolding block_column_def decode_state_def column_quiet_def
  by (auto intro!: calm_intros cc_rd net_quiet assms(1,3) split: option.split)

lemma call_block_columns:
  assumes "net_ok L \<mu>" and "column_quiet I \<mu>"
  shows "call_calm \<mu> (block_columns L I rows i n)"
proof (induction n arbitrary: i)
  case (Suc n)
  show ?case
    unfolding block_columns.simps
    by (intro call_intros call_on_conn cc_block_column assms quiet_raw_str call_imodify Suc) (simp add: call_frame_def)
qed (simp add: calm_iret [OF call_frame_reflp])

lemma cc_block_size: "net_ok L \<mu> \<Longrightarrow> conn_calm \<mu> (block_size L)"
  unfolding block_size_def by (auto intro!: calm_intros cc_rd net_quiet)

lemma call_handleDataBlock:
  assumes "net_ok L \<mu>" and "column_quiet I \<mu>"
  shows "call_calm \<mu> (handleDataBlock L I)"
  unfolding handleDataBlock_def
  by (auto intro!: call_intros call_on_conn calm_intros cc_rd quiet_raw_str call_with_compression cc_block_info
    cc_block_size call_block_columns assms split: prod.split)

lemma call_select_packet:
  assumes "net_ok L \<mu>" and "column_quiet I \<mu>"
  shows "call_calm \<mu> (select_packet L I code)"
  unfolding select_packet_def
  by (cases code) (auto intro!: call_intros call_on_conn cc_packets cc_skipBlock call_handleDataBlock assms
    call_imodify simp: call_frame_def)

lemma shrinks_on_conn:
  "shrinks (\<lambda>s. \<mu> (cn_reader s)) m \<Longrightarrow> shrinks (\<lambda>s. \<mu> (cn_reader (ca_conn s))) (on_conn m)"
  by (auto simp: shrinks_def on_conn_def)

lemma call_select_loop:
  assumes "net_ok L \<mu>" and "column_quiet I \<mu>"
  shows "call_calm \<mu> (iloop (select_body L I))"
  unfolding select_body_def
proof (rule calm_iloop [OF call_frame_trans])
  have c: "conn_calm \<mu> (read_code L m)" for m using assms(1) by (rule cc_read_code)
  have "shrinks (\<lambda>s. \<mu> (cn_reader s)) (ibind (read_code L ''read server code'') iret)"
    by (intro shrinks_read_code assms(1) calm_intros)
  then have s: "shrinks (\<lambda>s. \<mu> (cn_reader s)) (read_code L ''read server code'')"
    by (simp add: ibind_iret_right)
  show "shrinks (\<lambda>s. \<mu> (cn_reader (ca_conn s))) (iseq (on_conn (check_ctx L))
     (ibind (on_conn (read_code L ''read server code'')) (select_packet L I)))"
    by (rule shrinks_after [where R = call_frame])
      (intro call_intros call_on_conn calm_intros c call_select_packet assms shrinks_bind [where R = call_frame] shrinks_on_conn s)+
  show "call_calm \<mu> (iseq (on_conn (check_ctx L)) (ibind (on_conn (read_code L ''read server code'')) (select_packet L I)))"
    by (intro call_intros call_on_conn calm_intros c call_select_packet assms)
qed

lemma cc_insert_packet: "net_ok L \<mu> \<Longrightarrow> conn_calm \<mu> (insert_packet L f u code)"
  unfolding insert_packet_def
  by (cases code) (auto intro!: calm_intros cc_packets cc_skipBlock)

lemma cc_insert_loop: "net_ok L \<mu> \<Longrightarrow> conn_calm \<mu> (iloop (insert_body L m f u))"
  unfolding insert_body_def by (intro cc_ctx_loop cc_insert_packet)

lemma length_write_columns: "write_columns L I st rv cs w = (x, cs', w') \<Longrightarrow> length cs' = length cs"
  by (induction cs arbitrary: x cs' w w') (auto split: prod.splits go.splits)

lemma call_write_block [call_intros]: "call_calm \<mu> (write_block L I st rows)"
proof -
  have 1: "call_calm \<mu> (on_conn (\<lambda>s. chain L (data_header L (cn_revision s)) s))"
    by (intro call_on_conn) (simp add: calm_def chain_def)
  have 2: "call_calm \<mu> (\<lambda>s. on_conn (chain L (block_header L (cn_revision (ca_conn s)) (int (length (ca_cols s))) rows)) s)"
    by (simp add: calm_def on_conn_def chain_def call_frame_def)
  have 3: "call_calm \<mu> (\<lambda>s. case write_columns L I st (cn_revision (ca_conn s)) (ca_cols s) (cn_writer (ca_conn s)) of
        (x, cs, w) \<Rightarrow> Some (x, s\<lparr>ca_cols := cs, ca_conn := (ca_conn s)\<lparr>cn_writer := w\<rparr>\<rparr>))"
    by (auto simp: calm_def call_frame_def split: prod.splits dest: length_write_columns)
  from 1 2 3 show ?thesis unfolding write_block_def by (intro call_intros)
qed

lemma cc_chain_blank [calm_intros]: "conn_calm \<mu> (chain_blank L)"
  by (simp add: calm_def chain_blank_def chain_def)

lemma call_go_io [call_intros]: "call_calm \<mu> (go_io f)"
  by (simp add: calm_def go_io_def call_frame_def)

lemma ca_with_lock_calm:
  assumes m: "call_calm \<mu> m"
  shows "\<exists>x s'. ca_with_lock m s = Some (x, s') \<and>
     (if cn_state (ca_conn s) = StateReady then cn_state (ca_conn s') = StateReady
      else s' = s \<and> x = Err (perr KindInternal ''connection is not ready''))"
proof (cases "cn_state (ca_conn s) = StateReady")
  case True
  let ?s = "s\<lparr>ca_conn := (ca_conn s)\<lparr>cn_state := StateBusy\<rparr>\<rparr>"
  have "on_conn conn_lock s = Some (Ok (), ?s)" using True by (simp add: conn_lock_def on_conn_def)
  moreover obtain x s1 where "m ?s = Some (x, s1)" using calmD [OF m] by blast
  ultimately have "ca_with_lock m s = Some (x, s1\<lparr>ca_conn := conn_unlock (ca_conn s1)\<rparr>)" by (simp add: ca_with_lock_def)
  with True show ?thesis by (simp add: conn_unlock_def unlock_state_def)
next
  case False
  then have "lock_state (cn_state (ca_conn s)) = None" by (cases "cn_state (ca_conn s)") simp_all
  then have "on_conn conn_lock s = Some (Err (perr KindInternal ''connection is not ready''), s)"
    by (simp add: conn_lock_def on_conn_def)
  with False show ?thesis by (simp add: ca_with_lock_def)
qed

text \<open>
  C7.
  Whatever the peer sends before it closes, every call on a connection returns: an operation on
  a ready connection runs to an outcome (a result, an error, or a panic of a column) and leaves
  the connection ready again; on a connection that is not ready the call fails at once and
  changes nothing.
\<close>

theorem calls_return:
  assumes "net_ok L \<mu>" and "column_quiet I \<mu>"
  shows "(\<exists>x s'. Exec L body s = Some (x, s') \<and>
       (if cn_state s = StateReady then cn_state s' = StateReady
        else s' = s \<and> x = Err (perr KindInternal ''connection is not ready''))) \<and>
    (\<exists>x s'. Ping L s = Some (x, s') \<and>
       (if cn_state s = StateReady then cn_state s' = StateReady
        else s' = s \<and> x = Err (perr KindInternal ''connection is not ready''))) \<and>
    (\<exists>x t'. Select L I body t = Some (x, t') \<and>
       (if cn_state (ca_conn t) = StateReady then cn_state (ca_conn t') = StateReady
        else t' = t\<lparr>ca_rows := 0\<rparr> \<and> x = Err (perr KindInternal ''connection is not ready''))) \<and>
    (\<exists>x t'. Insert L I body t = Some (x, t') \<and>
       (if cn_state (ca_conn t) = StateReady then cn_state (ca_conn t') = StateReady
        else t' = t \<and> x = Err (perr KindInternal ''connection is not ready'')))"
proof (intro conjI)
  show "\<exists>x s'. Exec L body s = Some (x, s') \<and> (if cn_state s = StateReady then cn_state s' = StateReady
      else s' = s \<and> x = Err (perr KindInternal ''connection is not ready''))"
    unfolding Exec_def exec_body_def by (intro with_lock_calm [where \<mu> = \<mu>] calm_intros cc_ctx_loop cc_exec_packet assms)
  show "\<exists>x s'. Ping L s = Some (x, s') \<and> (if cn_state s = StateReady then cn_state s' = StateReady
      else s' = s \<and> x = Err (perr KindInternal ''connection is not ready''))"
    unfolding Ping_def by (rule with_lock_calm [where \<mu> = \<mu>]) (auto intro!: calm_intros cc_read_code assms)
  have "call_calm \<mu> (iseq (on_conn (send_query L body)) (iloop (select_body L I)))"
    by (intro call_intros call_on_conn calm_intros call_select_loop assms)
  from ca_with_lock_calm [OF this, of "t\<lparr>ca_rows := 0\<rparr>"]
  show "\<exists>x t'. Select L I body t = Some (x, t') \<and> (if cn_state (ca_conn t) = StateReady then cn_state (ca_conn t') = StateReady
      else t' = t\<lparr>ca_rows := 0\<rparr> \<and> x = Err (perr KindInternal ''connection is not ready''))"
    by (simp add: Select_def)
  show "\<exists>x t'. Insert L I body t = Some (x, t') \<and> (if cn_state (ca_conn t) = StateReady then cn_state (ca_conn t') = StateReady
      else t' = t \<and> x = Err (perr KindInternal ''connection is not ready''))"
    unfolding Insert_def
    by (intro ca_with_lock_calm [where \<mu> = \<mu>] call_intros call_on_conn calm_intros cc_readColumnInfo cc_insert_loop assms)
qed

section \<open>A concrete library over byte lists\<close>

definition list_code :: "u64 \<Rightarrow> scode" where
  "list_code v =
     (if v = 0 then SC_Hello else if v = 1 then SC_Data else if v = 2 then SC_Exception else if v = 3 then SC_Progress
      else if v = 4 then SC_Pong else if v = 5 then SC_EndOfStream else if v = 6 then SC_Profile
      else if v = 7 then SC_Totals else if v = 8 then SC_Extremes else if v = 10 then SC_Log
      else if v = 11 then SC_TableColumns else if v = 14 then SC_ProfileEvents else SC_Other)"

fun list_ccode :: "ccode \<Rightarrow> u64" where
  "list_ccode CC_Data = 2"
| "list_ccode CC_Cancel = 3"
| "list_ccode CC_Ping = 4"

definition list_lib :: "(byte list, byte list, unit, nat) chlib" where
  "list_lib = \<lparr>
     cl_reader = list_reader, cl_buffer = list_buffer, cl_writer = list_writer, cl_flush = (\<lambda>w. (None, w)),
     cl_code = list_code,
     cl_table_columns = (\<lambda>_. lr_map (\<lambda>_. ()) lr_strraw),
     cl_exception = (\<lambda>_. lr_map (\<lambda>m. (bytes_str m, 0)) lr_strraw),
     cl_progress = (\<lambda>_. lr_uv 10 0 0),
     cl_profile = (\<lambda>_. lr_uv 10 0 0),
     cl_raw_block = (\<lambda>_ (r, k). case lr_uv 10 0 0 r of (Ok n, r) \<Rightarrow> (Ok (), r, k) | (Err e, r) \<Rightarrow> (Err e, r, k) | (Panic p, r) \<Rightarrow> (Panic p, r, k)),
     cl_no_results = (),
     cl_server_hello = (\<lambda>_. lr_map int (lr_uv 10 0 0)),
     cl_has = (\<lambda>f v. True),
     cl_compress = (\<lambda>_ r. r),
     cl_version = 54460,
     cl_hello = (\<lambda>_ b. b @ [0]),
     cl_query = (\<lambda>q _ b. b @ [1] @ uvarint (length (q_body q)) @ str_bytes (q_body q)),
     cl_ccode_num = list_ccode,
     cl_ccode_encode = (\<lambda>k b. b @ uvarint (unat (list_ccode k))),
     cl_client_data = (\<lambda>_ b. b @ [0]),
     cl_block = (\<lambda>n _ b. b @ [1, 0, 2] @ le_enc 4 (unat (word_of_int n :: u32)) @ [0, 0, 0]),
     cl_block_info = (\<lambda>n b. b @ [1, 0, 2] @ le_enc 4 (unat (word_of_int n :: u32)) @ [0]) \<rparr>"

lemma list_lib_simps [simp]:
  "cl_reader list_lib = list_reader" "cl_buffer list_lib = list_buffer" "cl_writer list_lib = list_writer"
  "cl_flush list_lib w = (None, w)" "cl_code list_lib = list_code" "cl_has list_lib f v" "cl_compress list_lib b r = r"
  "cl_ccode_num list_lib = list_ccode"
  by (simp_all add: list_lib_def)

lemma quiet_lr_take: "quiet length (lr_take n)"
  by (simp add: quiet_def lr_take_def)

lemma quiet_lr_uv: "length (snd (lr_uv k x s r)) \<le> length r \<and> (\<forall>y r'. lr_uv k x s r = (Ok y, r') \<longrightarrow> length r' < length r)"
proof (induction k x s r rule: lr_uv.induct)
  case (3 k x s b bs)
  then show ?case by (auto simp: Let_def split: if_splits)
qed simp_all

lemma quiet_lr_map: "quiet \<mu> m \<Longrightarrow> quiet \<mu> (lr_map f m)"
  unfolding lr_map_def by (intro quiet_intros)

lemma quiet_lr_strraw: "quiet length lr_strraw"
  unfolding lr_strraw_def by (intro quiet_intros quiet_lr_take) (simp add: quiet_def quiet_lr_uv)

lemma list_reader_quiet: "reader_quiet list_reader length"
proof -
  have u: "quiet length (lr_uv 10 0 0)" by (simp add: quiet_def quiet_lr_uv)
  have b: "quiet length lr_bool"
    unfolding lr_bool_def by (intro quiet_intros quiet_lr_take) (simp add: quiet_intros)
  have lt: "length r' < length r" if "lr_map f (lr_uv 10 0 0) r = (Ok x, r')" for f :: "nat \<Rightarrow> u64" and r x r'
  proof -
    from that obtain y r1 where "lr_uv 10 0 0 r = (Ok y, r1)" "rret (f y) r1 = (Ok x, r')"
      unfolding lr_map_def rbind_eq_Ok by blast
    then show ?thesis using quiet_lr_uv [of 10 0 0 r] by (simp add: rret_def)
  qed
  show ?thesis
    unfolding reader_quiet_def
    by (auto simp: list_reader_def dest: lt intro!: quiet_lr_map u b quiet_lr_take quiet_lr_strraw)
qed

lemma list_lib_net: "net_ok list_lib length"
proof -
  have u: "quiet length (lr_uv 10 0 0)" by (simp add: quiet_def quiet_lr_uv)
  have "length (fst (snd (cl_raw_block list_lib v (r, k)))) \<le> length r" for v r k
    using quiet_lr_uv [of 10 0 0 r] by (auto simp: list_lib_def split: prod.split go.split)
  then show ?thesis
    using list_reader_quiet
    by (auto simp: net_ok_def quiet_def [of "length \<circ> fst"] list_lib_def intro!: quiet_lr_map u quiet_lr_strraw)
qed

definition list_conn :: "byte list \<Rightarrow> (byte list, byte list, unit, nat) conn" where
  "list_conn bs = \<lparr> cn_state = StateReady, cn_reader = bs, cn_writer = [], cn_prefix = None, cn_skip = (),
     cn_skipCode = SC_Hello, cn_cfg = \<lparr> cf_addr = [], cf_user = [], cf_password = [], cf_database = [], cf_compression = False,
       cf_settings = [], cf_dialTimeout = 0, cf_readTimeout = 0, cf_writeTimeout = 0 \<rparr>,
     cn_revision = 54460, cn_localAddr = [], cn_onProgress = True, cn_onProfile = False, cn_calls = [], cn_ctx = [] \<rparr>"

text \<open>A UInt8 column over byte lists is quiet.\<close>

lemma list_column_quiet: "column_quiet (column_of C (base_ops uint8_t) list_reader list_writer list_buffer) length"
proof -
  have f: "quiet length (rd_full list_reader n)" for n by (simp add: list_reader_def quiet_lr_take)
  have "quiet length (base_decode uint8_t list_reader c n)" for c n
    unfolding base_decode_def by (auto intro!: quiet_intros f)
  then show ?thesis by (simp add: column_quiet_def column_of_def base_ops_def)
qed

theorem calls_return_witness:
  "(\<exists>x s'. Exec list_lib ''CREATE TABLE t'' (list_conn [3, 7, 5]) = Some (x, s') \<and> cn_state s' = StateReady) \<and>
   (\<exists>x t'. Select list_lib (column_of list_ctypes (base_ops uint8_t) list_reader list_writer list_buffer) ''SELECT 1''
      \<lparr> ca_conn = list_conn [1, 200], ca_cols = [new_data_col ''c''], ca_rows = 0 \<rparr> = Some (x, t') \<and>
      cn_state (ca_conn t') = StateReady)"
  using calls_return [OF list_lib_net list_column_quiet, of "''CREATE TABLE t''" "list_conn [3, 7, 5]" list_ctypes
      "\<lparr> ca_conn = list_conn [1, 200], ca_cols = [new_data_col ''c''], ca_rows = 0 \<rparr>"]
    calls_return [OF list_lib_net list_column_quiet, of "''SELECT 1''" "list_conn [3, 7, 5]" list_ctypes
      "\<lparr> ca_conn = list_conn [1, 200], ca_cols = [new_data_col ''c''], ca_rows = 0 \<rparr>"]
  by (simp add: list_conn_def)

end
