(* ===== verification/Conn_Columns.thy ===== *)
theory Conn_Columns
  imports Conn_Select
begin

text \<open>
  The contract of \<open>conn.Column\<close>, proved of the columns of package \<open>column\<close>: what \<open>Insert\<close> writes of
  a column is what \<open>Select\<close> reads into a column of the same configuration.
\<close>

section \<open>The contract\<close>

text \<open>
  \<open>content c\<close> is the rows of a column, \<open>st c\<close> and \<open>img c\<close> the bytes of its state and of its data;
  \<open>ok c\<close>: it can be sent; \<open>ready d c\<close>: \<open>d\<close> can receive what \<open>c\<close> holds.
\<close>

locale conn_column =
  fixes I :: "'r preader \<Rightarrow> 'w pwriter \<Rightarrow> pbuffer \<Rightarrow> ('r, 'w, 'c) column"
    and ok :: "'c \<Rightarrow> bool"
    and ready :: "'c \<Rightarrow> 'c \<Rightarrow> bool"
    and content :: "'c \<Rightarrow> 'v list"
    and st :: "'c \<Rightarrow> byte list"
    and img :: "'c \<Rightarrow> byte list"
  assumes len: "ok c \<Longrightarrow> co_len (I P W B) c = Ok (int (length (content c)))"
    and names: "ok c \<Longrightarrow> length (co_name (I P W B) c) < 2 ^ 63 \<and> length (co_type (I P W B) c) < 2 ^ 63"
    and write_img: "ok c \<Longrightarrow> content c \<noteq> [] \<Longrightarrow> writer_ok W out \<Longrightarrow> buffer_ok B \<Longrightarrow>
      \<exists>c' w'. co_write (I P W B) c w = Ok (c', w') \<and> out w' = out w @ img c"
    and state_enc: "buffer_ok B \<Longrightarrow>
      (case co_encode_state (I P W B) c of None \<Rightarrow> st c = [] | Some f \<Rightarrow> appends f (st c))"
    and state_dec: "ready d c \<Longrightarrow> reader_ok P pd \<Longrightarrow>
      (case co_decode_state (I P W B) d of None \<Rightarrow> st c = [] | Some m \<Rightarrow> yields pd m (st c) ())"
    and decode: "ok c \<Longrightarrow> ready d c \<Longrightarrow> reader_ok P pd \<Longrightarrow> content c \<noteq> [] \<Longrightarrow>
      \<exists>d'. yields pd (co_decode (I P W B) d (int (length (content c)))) (img c) d' \<and> content d' = content c"

section \<open>Plain columns\<close>

context of_column_w
begin

definition cc_ok :: "ctypes \<Rightarrow> 'c \<Rightarrow> bool" where
  "cc_ok C c \<longleftrightarrow> inv c \<and> small (wire c) \<and> length (of_name I c) < 2 ^ 63 \<and> length (of_type I C c) < 2 ^ 63"

definition cc_ready :: "'c \<Rightarrow> 'c \<Rightarrow> bool" where
  "cc_ready d c \<longleftrightarrow> inv d \<and> rows d = [] \<and> like d c"

end

sublocale of_column_w \<subseteq> plain: conn_column "column_of C I" "cc_ok C" cc_ready rows "\<lambda>_. []" wire
  for C
proof (unfold_locales, goal_cases)
  case (6 c d P pd W B)
  then show ?case using decode [of c d P pd] by (auto simp: column_of_def cc_ok_def cc_ready_def)
qed (auto simp: column_of_def cc_ok_def len write_out)

section \<open>LowCardinality\<close>

definition lc_rows :: "('c, 't) lc_col \<Rightarrow> nat" where
  "lc_rows c = (case lc_key_count c of Ok n \<Rightarrow> n | _ \<Rightarrow> 0)"

context lc_client
begin

definition lcc_content :: "('c, 't) lc_col \<Rightarrow> 't list" where
  "lcc_content c = lc_contents rows c (lc_rows c)"

definition lcc_ok :: "ctypes \<Rightarrow> ('c, 't) lc_col \<Rightarrow> bool" where
  "lcc_ok C c \<longleftrightarrow> inv (lc_values c) \<and> (lc_expanded c \<or> lc_dict c = [] \<or> lc_valid c (lc_rows c)) \<and>
     (\<forall>k \<in> set (lc_dict c). acc (lc_values c) k \<and> norm (lc_values c) k = k) \<and>
     (\<forall>vals. inv vals \<longrightarrow> rows vals = lcc_content c \<longrightarrow> small (wire vals)) \<and>
     small (dict_image T (lc_dict_of (lcc_content c))) \<and> length (lcc_content c) < 2 ^ 40 \<and>
     length (lc_dict_of (lcc_content c)) \<le> 100000000 \<and>
     length (lc_name I c) < 2 ^ 63 \<and> length (lc_type I C c) < 2 ^ 63"

lemma lcc_len: "lcc_ok C c \<Longrightarrow> lc_len I c = Ok (length (lcc_content c))"
  by (auto simp: lcc_ok_def lcc_content_def lc_contents_def lc_len_def lc_valid_def len)

lemma lcc_decoded:
  assumes "xs \<noteq> []" and "length xs < 2 ^ 40"
  shows "lcc_content (lc_decoded xs d) = xs"
proof -
  have "lc_dict_of xs \<noteq> []" using lc_dict_of(1) [of xs] assms(1) by (metis set_empty)
  then show ?thesis
    using lc_decoded_valid [OF assms(2), of d]
    by (simp add: lcc_content_def lc_contents_def lc_rows_def lc_valid_def)
qed

lemma lc_state_yields: "reader_ok P pd \<Longrightarrow> yields pd (lc_DecodeState P) (le_enc 8 1) ()"
  unfolding lc_DecodeState_def
  by (rule yields_bind_eq [OF yields_rwrap [OF rd_int64_yields [where w = 1]]]) (simp_all add: yields_rret)

end

sublocale lc_client \<subseteq> lcc: conn_column "lc_column C I T" "lcc_ok C" "\<lambda>_ _. True" lcc_content
    "\<lambda>_. le_enc 8 1" "\<lambda>c. lc_image T (lcc_content c)"
  for C
proof (unfold_locales, goal_cases)
  case (1 c P W B)
  then show ?case by (simp add: lc_column_def lcc_len)
next
  case (3 c W out B P w)
  then obtain c' w' where "lc_write I T W B c w = Ok (c', w')" "out w' = out w @ lc_image T (lcc_content c)"
    using encode_decode_rows [OF list_reader_ok 3(4,3), of c "lc_rows c" "lcc_content c" "[]" w c] by (auto simp: lcc_ok_def lcc_content_def)
  then show ?case by (simp add: lc_column_def)
next
  case (6 c d P pd W B)
  then have "yields pd (lc_decode T P d (int (length (lcc_content c)))) (lc_image T (lcc_content c)) (lc_decoded (lcc_content c) d)"
    by (intro decode_image) (simp_all add: lcc_ok_def)
  moreover have "lcc_content (lc_decoded (lcc_content c) d) = lcc_content c"
    using 6 by (intro lcc_decoded) (simp_all add: lcc_ok_def)
  ultimately show ?case by (auto simp: lc_column_def)
qed (auto simp: lc_column_def lcc_ok_def appends_def lc_EncodeState_def put_int64_eq lc_state_yields [simplified])

section \<open>Columns of several types\<close>

locale two_kinds =
  a: conn_column I ok ready content st img + b: conn_column J ok2 ready2 content2 st2 img2
  for I :: "'r preader \<Rightarrow> 'w pwriter \<Rightarrow> pbuffer \<Rightarrow> ('r, 'w, 'c) column" and ok ready and content :: "'c \<Rightarrow> 'v list" and st img
    and J :: "'r preader \<Rightarrow> 'w pwriter \<Rightarrow> pbuffer \<Rightarrow> ('r, 'w, 'd) column" and ok2 ready2 and content2 :: "'d \<Rightarrow> 'u list" and st2 img2
begin

definition sc_ok :: "'c + 'd \<Rightarrow> bool" where
  "sc_ok = case_sum ok ok2"

fun sc_ready :: "'c + 'd \<Rightarrow> 'c + 'd \<Rightarrow> bool" where
  "sc_ready (Inl d) (Inl c) = ready d c"
| "sc_ready (Inr d) (Inr c) = ready2 d c"
| "sc_ready _ _ = False"

definition sc_content :: "'c + 'd \<Rightarrow> ('v + 'u) list" where
  "sc_content = case_sum (\<lambda>c. map Inl (content c)) (\<lambda>d. map Inr (content2 d))"

lemma sc_readyE:
  assumes "sc_ready d c"
  obtains (l) d1 c1 where "d = Inl d1" "c = Inl c1" "ready d1 c1"
    | (r) d2 c2 where "d = Inr d2" "c = Inr c2" "ready2 d2 c2"
  using assms by (cases d; cases c) auto

end

sublocale two_kinds \<subseteq> sum: conn_column "\<lambda>P W B. sum_column (I P W B) (J P W B)" sc_ok sc_ready sc_content
    "case_sum st st2" "case_sum img img2"
proof (unfold_locales, goal_cases)
  case (1 c P W B)
  then show ?case by (cases c) (auto simp: sum_column_def sc_ok_def sc_content_def a.len b.len)
next
  case (2 c P W B)
  then show ?case
    using a.names [of _ P W B] b.names [of _ P W B] by (cases c) (auto simp: sum_column_def sc_ok_def)
next
  case (3 c W out B P w)
  then show ?case
    using a.write_img [of _ W out B P w] b.write_img [of _ W out B P w]
    by (cases c) (fastforce simp: sum_column_def sc_ok_def sc_content_def)+
next
  case (4 B c P W)
  then show ?case
    using a.state_enc [of B _ P W] b.state_enc [of B _ P W] by (cases c) (simp_all add: sum_column_def cong: option.case_cong)
next
  case (5 d c P pd W B)
  from 5(1) show ?case
    using a.state_dec [OF _ 5(2)] b.state_dec [OF _ 5(2)] by (cases rule: sc_readyE) (simp_all add: sum_column_def cong: option.case_cong)
next
  case (6 c d P pd W B)
  from 6(2) show ?case
  proof (cases rule: sc_readyE)
    case (l d1 c1)
    with 6 a.decode [of c1 d1 P pd W B] obtain d' where
      "yields pd (co_decode (I P W B) d1 (int (length (content c1)))) (img c1) d'" "content d' = content c1"
      by (auto simp: sc_ok_def sc_content_def)
    with l show ?thesis
      by (intro exI [of _ "Inl d'"]) (auto simp: sum_column_def sc_content_def intro: yields_bind_rret)
  next
    case (r d2 c2)
    with 6 b.decode [of c2 d2 P pd W B] obtain d' where
      "yields pd (co_decode (J P W B) d2 (int (length (content2 c2)))) (img2 c2) d'" "content2 d' = content2 c2"
      by (auto simp: sc_ok_def sc_content_def)
    with r show ?thesis
      by (intro exI [of _ "Inr d'"]) (auto simp: sum_column_def sc_content_def intro: yields_bind_rret)
  qed
qed

text \<open>A LowCardinality(String) column beside a UInt64 one.\<close>

interpretation lc_u64: two_kinds
    "lc_column C (str_ops :: ('r, 'w, str_col, string) of_ops) string_t" "lc_str.lcc_ok TYPE('r) TYPE('w) C" "\<lambda>_ _. True" lc_str.lcc_content
    "\<lambda>_. le_enc 8 1" "\<lambda>c. lc_image string_t (lc_str.lcc_content c)"
    "column_of C (base_ops uint64_t :: ('r, 'w, u64 data_col, u64) of_ops)" "uint64_col.col.cc_ok TYPE('r) TYPE('w) C" uint64_col.col.cc_ready dc_data
    "\<lambda>_. []" "\<lambda>c. data_image uint64_t (dc_data c)"
  for C :: ctypes
  by unfold_locales

end
