(* ===== verification/Conn_Blocks.thy ===== *)
theory Conn_Blocks
  imports Conn_Columns
begin

text \<open>
  Blocks on the wire: the block that \<open>Insert\<close> writes is the block that
  \<open>handleDataBlock\<close> reads, and what \<open>Select\<close> makes of a response.
\<close>

section \<open>The library's encoders\<close>

text \<open>
  What ch-go documents of the encoders used here: the code of a packet is a varint, \<open>ClientData\<close> is
  the name of an (empty) table, a \<open>BlockInfo\<close> is its two numbered fields and the end marker.
\<close>

definition lib_ok :: "('r, 'w, 'k, 'p) chlib \<Rightarrow> ('r \<Rightarrow> byte list) \<Rightarrow> ('w \<Rightarrow> byte list) \<Rightarrow> bool" where
  "lib_ok L pd out \<longleftrightarrow> reader_ok (cl_reader L) pd \<and> buffer_ok (cl_buffer L) \<and> writer_ok (cl_writer L) out \<and>
     (\<forall>k b. cl_ccode_encode L k b = b @ uvarint (unat (cl_ccode_num L k))) \<and>
     (\<forall>v b. cl_client_data L v b = b @ (if cl_has L F_TempTables v then [0] else [])) \<and>
     (\<forall>n b. cl_block_info L n b = b @ [1, 0, 2] @ le_enc 4 (unat (word_of_int n :: u32)) @ [0])"

definition head_image :: "('r, 'w, 'k, 'p) chlib \<Rightarrow> int \<Rightarrow> byte list" where
  "head_image L v = uvarint (unat (cl_ccode_num L CC_Data)) @ (if cl_has L F_TempTables v then [0] else [])"

definition table_image :: "('r, 'w, 'k, 'p) chlib \<Rightarrow> int \<Rightarrow> byte list" where
  "table_image L v = (if cl_has L F_TempTables v then [0] else [])"

definition info_image :: "('r, 'w, 'k, 'p) chlib \<Rightarrow> int \<Rightarrow> byte list" where
  "info_image L v = (if cl_has L F_BlockInfo v then [1, 0, 2] @ le_enc 4 (unat (- 1 :: u32)) @ [0] else [])"

definition str_wire :: "string \<Rightarrow> byte list" where
  "str_wire s = uvarint (length s) @ str_bytes s"

definition start_image :: "('r, 'w, 'k, 'p) chlib \<Rightarrow> ('r, 'w, 'c) column \<Rightarrow> int \<Rightarrow> 'c \<Rightarrow> byte list" where
  "start_image L I v c = str_wire (co_name I c) @ str_wire (co_type I c) @
     (if cl_has L F_CustomSerialization v then [0] else [])"

section \<open>Reading\<close>

text \<open>
  \<open>creads pd v m bs x\<close>: on a connection with the server's revision \<open>v\<close>, \<open>m\<close> consumes exactly the
  bytes \<open>bs\<close>, returns \<open>x\<close> and changes nothing but the reader.
\<close>

definition creads :: "('r \<Rightarrow> byte list) \<Rightarrow> int \<Rightarrow> (('r, 'w, 'k, 'p) conn, 'a) io \<Rightarrow> byte list \<Rightarrow> 'a \<Rightarrow> bool" where
  "creads pd v m bs x \<longleftrightarrow> (\<forall>s rest. pd (cn_reader s) = bs @ rest \<longrightarrow> cn_revision s = v \<longrightarrow>
     (\<exists>r. m s = Some (Ok x, s\<lparr>cn_reader := r\<rparr>) \<and> pd r = rest))"

named_theorems creads_intros \<open>rules of the reading relation\<close>

lemma creadsD:
  "creads pd v m bs x \<Longrightarrow> pd (cn_reader s) = bs @ rest \<Longrightarrow> cn_revision s = v \<Longrightarrow>
    \<exists>r. m s = Some (Ok x, s\<lparr>cn_reader := r\<rparr>) \<and> pd r = rest"
  by (simp add: creads_def)

lemma creads_iret: "creads pd v (iret x) [] x"
  by (auto simp: creads_def intro!: exI [where P = "\<lambda>r. _ = _\<lparr>cn_reader := r\<rparr> \<and> _ r"])

lemma creads_rd: "yields pd m bs x \<Longrightarrow> creads pd v (rd m) bs x"
  unfolding creads_def by (auto simp: on_reader_def lift_rdm_def dest!: yieldsD)

lemma creads_iwrap: "creads pd v m bs x \<Longrightarrow> creads pd v (iwrap f m) bs x"
  unfolding creads_def by fastforce

lemma creads_bind:
  fixes m :: "(('r, 'w, 'k, 'p) conn, 'a) io"
  assumes "creads pd v m bs x" and "creads pd v (k x) bs' y" and "bs'' = bs @ bs'"
  shows "creads pd v (ibind m k) bs'' y"
  unfolding creads_def
proof (intro allI impI)
  fix s :: "('r, 'w, 'k, 'p) conn" and rest
  assume p: "pd (cn_reader s) = bs'' @ rest" and v: "cn_revision s = v"
  with assms(3) have "pd (cn_reader s) = bs @ bs' @ rest" by simp
  with creadsD [OF assms(1) _ v] obtain r where 1: "m s = Some (Ok x, s\<lparr>cn_reader := r\<rparr>)" "pd r = bs' @ rest" by blast
  with creadsD [OF assms(2), of "s\<lparr>cn_reader := r\<rparr>" rest] v obtain r2 where
    "k x (s\<lparr>cn_reader := r\<rparr>) = Some (Ok y, s\<lparr>cn_reader := r2\<rparr>)" "pd r2 = rest" by auto
  with 1 show "\<exists>r. ibind m k s = Some (Ok y, s\<lparr>cn_reader := r\<rparr>) \<and> pd r = rest" by auto
qed

lemma creads_seq:
  "creads pd v m bs () \<Longrightarrow> creads pd v k bs' y \<Longrightarrow> bs'' = bs @ bs' \<Longrightarrow> creads pd v (iseq m k) bs'' y"
  by (rule creads_bind)

lemma creads_when_has:
  assumes "cl_has L f v \<Longrightarrow> creads pd v m bs ()" and "bs' = (if cl_has L f v then bs else [])"
  shows "creads pd v (when_has L f m) bs' ()"
proof (cases "cl_has L f v")
  case True
  with assms show ?thesis by (simp add: creads_def when_has_def iwhen_def)
next
  case False
  then show ?thesis using assms(2) creads_iret [of pd v "()"] by (simp add: creads_def when_has_def iwhen_def)
qed

section \<open>Block info\<close>

text \<open>The fields a block info may hold, in any order and number, before the end marker.\<close>

datatype bfield = Overflows bool | Bucket u32 | OutOfOrder "u32 list"

definition int32s_image :: "u32 list \<Rightarrow> byte list" where
  "int32s_image ns = concat (map (\<lambda>n. le_enc 4 (unat n)) ns)"

fun bfield_image :: "bfield \<Rightarrow> byte list" where
  "bfield_image (Overflows b) = [1, if b then 1 else 0]"
| "bfield_image (Bucket n) = 2 # le_enc 4 (unat n)"
| "bfield_image (OutOfOrder ns) = 3 # uvarint (length ns) @ int32s_image ns"

fun bfield_ok :: "bfield \<Rightarrow> bool" where
  "bfield_ok (OutOfOrder ns) = (length ns < 2 ^ 64)"
| "bfield_ok _ = True"

definition binfo_image :: "bfield list \<Rightarrow> byte list" where
  "binfo_image fs = concat (map bfield_image fs) @ [0]"

lemma skip_int32s_yields: "reader_ok P pd \<Longrightarrow> yields pd (skip_int32s P (length ns)) (int32s_image ns) ()"
  by (induction ns) (auto simp: int32s_image_def intro!: yields_rret yields_bind [OF rd_int32_yields])

lemma field_number:
  assumes "reader_ok P pd" and "n < 128"
  shows "yields pd (rd_uvarint P) [word_of_nat n] (word_of_nat n)"
  using rd_uvarint_yields [OF assms(1), of n] assms(2) by simp

lemma block_info_field_yields:
  assumes P: "reader_ok P pd" and "bfield_ok f"
  shows "yields pd (block_info_field P) (bfield_image f) None"
proof (cases f)
  case (Overflows b)
  have "yields pd (rbind (rd_bool P) (\<lambda>_. rret None)) [if b then 1 else 0] None"
    by (rule yields_bind_rret [OF rd_bool_yields [OF P]])
  with Overflows show ?thesis unfolding block_info_field_def
    by (intro yields_bind_eq [OF field_number [OF P, of 1]]) (simp_all cong: if_cong)
next
  case (Bucket n)
  then show ?thesis unfolding block_info_field_def
    by (intro yields_bind_eq [OF field_number [OF P, of 2]])
      (auto intro!: yields_bind_rret rd_int32_yields [OF P])
next
  case (OutOfOrder ns)
  with assms(2) have len: "length ns < 2 ^ 64" by simp
  then have u: "unat (word_of_nat (length ns) :: u64) = length ns" by (simp add: unat_of_nat)
  have "yields pd (rbind (rd_uvarint P) (\<lambda>n. rbind (skip_int32s P (unat n)) (\<lambda>_. rret None)))
      (uvarint (length ns) @ int32s_image ns) None"
    by (rule yields_bind [OF rd_uvarint_yields [OF P len]])
      (simp only: u, rule yields_bind_rret [OF skip_int32s_yields [OF P], where f = "\<lambda>_. None"])
  with OutOfOrder show ?thesis unfolding block_info_field_def
    by (intro yields_bind_eq [OF field_number [OF P, of 3]]) simp_all
qed

lemma block_info_end:
  assumes P: "reader_ok P pd" shows "yields pd (block_info_field P) [0] (Some ())"
  unfolding block_info_field_def
  by (intro yields_bind_eq [OF field_number [OF P, of 0]]) (simp_all add: yields_rret)

lemma block_info_skip:
  assumes P: "reader_ok P pd" and "list_all bfield_ok fs" and "pd r = concat (map bfield_image fs) @ rest"
  shows "\<exists>r'. decodeBlockInfoSafe P r = decodeBlockInfoSafe P r' \<and> pd r' = rest"
  using assms(2,3)
proof (induction fs arbitrary: r)
  case (Cons f fs)
  then have "pd r = bfield_image f @ concat (map bfield_image fs) @ rest" by simp
  with yieldsD [OF block_info_field_yields [OF P]] Cons.prems(1) obtain r1 where
    1: "block_info_field P r = (Ok None, r1)" "pd r1 = concat (map bfield_image fs) @ rest" by fastforce
  have "decodeBlockInfoSafe P r = decodeBlockInfoSafe P r1"
    unfolding decodeBlockInfoSafe_def by (rule iloop_continue) (simp add: lift_rdm_def 1(1))
  with Cons.IH [OF _ 1(2)] Cons.prems(1) show ?case by auto
qed auto

lemma append_prefix_cases:
  assumes "a @ b = p @ q"
  shows "(\<exists>us. a = p @ us \<and> us \<noteq> []) \<or> (\<exists>us. p = a @ us \<and> b = us @ q)"
proof -
  obtain us where "a = p @ us \<and> us @ b = q \<or> a @ us = p \<and> b = us @ q"
    using assms unfolding append_eq_append_conv2 by blast
  then show ?thesis by (cases "us = []") auto
qed

lemma block_info_short:
  assumes P: "reader_ok P pd" and "list_all bfield_ok fs" and "binfo_image fs = pd r @ suf" and "suf \<noteq> []"
  shows "\<exists>e r'. decodeBlockInfoSafe P r = Some (Err e, r')"
  using assms(2-4)
proof (induction fs arbitrary: r)
  case Nil
  then have "[0] = pd r @ suf" by (simp add: binfo_image_def)
  from yields_truncated [OF block_info_end [OF P] this Nil.prems(3)] obtain e r' where
    "block_info_field P r = (Err e, r')" by blast
  then show ?case using iloop_Err [of "lift_rdm (block_info_field P)" r] by (auto simp: decodeBlockInfoSafe_def lift_rdm_def)
next
  case (Cons f fs)
  have y: "yields pd (block_info_field P) (bfield_image f) None"
    using block_info_field_yields [OF P] Cons.prems(1) by simp
  have "bfield_image f @ binfo_image fs = pd r @ suf" using Cons.prems(2) by (simp add: binfo_image_def)
  from append_prefix_cases [OF this]
  consider (short) us where "bfield_image f = pd r @ us" "us \<noteq> []" | (long) us where "pd r = bfield_image f @ us" "binfo_image fs = us @ suf"
    by blast
  then show ?case
  proof cases
    case (short us)
    from yields_truncated [OF y short] obtain e r' where "block_info_field P r = (Err e, r')" by blast
    then show ?thesis using iloop_Err [of "lift_rdm (block_info_field P)" r] by (auto simp: decodeBlockInfoSafe_def lift_rdm_def)
  next
    case (long us)
    from yieldsD [OF y long(1)] obtain r1 where 1: "block_info_field P r = (Ok None, r1)" "pd r1 = us" by blast
    have "decodeBlockInfoSafe P r = decodeBlockInfoSafe P r1"
      unfolding decodeBlockInfoSafe_def by (rule iloop_continue) (simp add: lift_rdm_def 1(1))
    with Cons.IH [of r1] Cons.prems(1,3) long(2) 1(2) show ?thesis by simp
  qed
qed

lemma block_info_done:
  assumes P: "reader_ok P pd" and "list_all bfield_ok fs" and "pd r = binfo_image fs @ rest"
  shows "\<exists>r'. decodeBlockInfoSafe P r = Some (Ok (), r') \<and> pd r' = rest"
proof -
  have "pd r = concat (map bfield_image fs) @ [0] @ rest" using assms(3) by (simp add: binfo_image_def)
  from block_info_skip [OF P assms(2) this] obtain r1 where
    1: "decodeBlockInfoSafe P r = decodeBlockInfoSafe P r1" "pd r1 = [0] @ rest" by blast
  from yieldsD [OF block_info_end [OF P] 1(2)] obtain r' where "block_info_field P r1 = (Ok (Some ()), r')" "pd r' = rest"
    by blast
  then have "decodeBlockInfoSafe P r1 = Some (Ok (), r') \<and> pd r' = rest"
    unfolding decodeBlockInfoSafe_def by (auto intro: iloop_return simp: lift_rdm_def)
  with 1 show ?thesis by auto
qed

text \<open>
  C19.
  \<open>decodeBlockInfoSafe\<close> consumes exactly a block info with any sequence of the three known fields,
  the newer \<open>out_of_order_buckets\<close> among them; it fails when the connection ends inside one; and a
  field number it does not know is a protocol error, whatever follows.
\<close>

theorem block_info_wire:
  assumes P: "reader_ok P pd" and fs: "list_all bfield_ok fs"
  shows "(pd r = binfo_image fs @ rest \<longrightarrow> (\<exists>r'. decodeBlockInfoSafe P r = Some (Ok (), r') \<and> pd r' = rest)) \<and>
    (binfo_image fs = pd r @ rest \<and> rest \<noteq> [] \<longrightarrow> (\<exists>e r'. decodeBlockInfoSafe P r = Some (Err e, r'))) \<and>
    (pd r = concat (map bfield_image fs) @ uvarint n @ rest \<and> 3 < n \<and> n < 2 ^ 64 \<longrightarrow>
      (\<exists>r'. decodeBlockInfoSafe P r =
        Some (Err (nerr KindProtocol ''decode block info'' (Errorf ''unknown BlockInfo field'')), r')))"
proof (intro conjI impI)
  assume a: "pd r = concat (map bfield_image fs) @ uvarint n @ rest \<and> 3 < n \<and> n < 2 ^ 64"
  then obtain r1 where r1: "decodeBlockInfoSafe P r = decodeBlockInfoSafe P r1" "pd r1 = uvarint n @ rest"
    using block_info_skip [OF P fs] by blast
  have n: "n < 2 ^ 64" using a by simp
  define w where "w = (word_of_nat n :: u64)"
  have u: "unat w = n" using n by (simp add: w_def unat_of_nat)
  from yieldsD [OF rd_uvarint_yields [OF P n] r1(2)] obtain r2 where
    2: "rd_uvarint P r1 = (Ok w, r2)" unfolding w_def by blast
  have "w \<noteq> 0 \<and> w \<noteq> 1 \<and> w \<noteq> 2 \<and> w \<noteq> 3" using a u by auto
  with 2 have "block_info_field P r1 =
      (Err (nerr KindProtocol ''decode block info'' (Errorf ''unknown BlockInfo field'')), r2)"
    by (simp add: block_info_field_def)
  then show "\<exists>r'. decodeBlockInfoSafe P r =
      Some (Err (nerr KindProtocol ''decode block info'' (Errorf ''unknown BlockInfo field'')), r')"
    using r1(1) iloop_Err [of "lift_rdm (block_info_field P)" r1] by (auto simp: decodeBlockInfoSafe_def lift_rdm_def)
qed (use block_info_done [OF P fs] block_info_short [OF P fs] in blast)+

theorem block_info_wire_witness:
  "decodeBlockInfoSafe list_reader [1, 0, 3, 2, 7, 0, 0, 0, 9, 0, 0, 0, 2, 255, 255, 255, 255, 0, 42] = Some (Ok (), [42])"
proof -
  have i: "binfo_image [Overflows False, OutOfOrder [7, 9], Bucket 0xFFFFFFFF] =
      [1, 0, 3, 2, 7, 0, 0, 0, 9, 0, 0, 0, 2, 255, 255, 255, 255, 0]"
    by (simp add: binfo_image_def int32s_image_def le_enc_numeral)
  show ?thesis
    using block_info_wire [OF list_reader_ok, of "[Overflows False, OutOfOrder [7, 9], Bucket 0xFFFFFFFF]"
        "[1, 0, 3, 2, 7, 0, 0, 0, 9, 0, 0, 0, 2, 255, 255, 255, 255, 0, 42]" "[42]"]
    unfolding i by simp
qed

section \<open>Reading a block\<close>

lemma lib_readerD: "lib_ok L pd out \<Longrightarrow> reader_ok (cl_reader L) pd"
  by (simp add: lib_ok_def)

lemma lib_bufferD: "lib_ok L pd out \<Longrightarrow> buffer_ok (cl_buffer L)"
  by (simp add: lib_ok_def)

lemma lib_writerD: "lib_ok L pd out \<Longrightarrow> writer_ok (cl_writer L) out"
  by (simp add: lib_ok_def)

lemma creads_on_reader:
  "(\<And>r rest. pd r = bs @ rest \<Longrightarrow> \<exists>r'. m r = Some (Ok x, r') \<and> pd r' = rest) \<Longrightarrow> creads pd v (on_reader m) bs x"
  unfolding creads_def on_reader_def by fastforce

lemma creads_block_info:
  assumes "lib_ok L pd out" shows "creads pd v (block_info L m) (info_image L v) ()"
proof -
  have i: "binfo_image [Overflows False, Bucket (- 1)] = [1, 0, 2] @ le_enc 4 (unat (- 1 :: u32)) @ [0]"
    by (simp add: binfo_image_def del: le_enc.simps)
  have "creads pd v (on_reader (decodeBlockInfoSafe (cl_reader L)))
      (binfo_image [Overflows False, Bucket (- 1)]) ()"
    by (rule creads_on_reader) (rule block_info_done [OF lib_readerD [OF assms]], simp_all)
  then show ?thesis
    unfolding block_info_def by (intro creads_when_has creads_iwrap) (simp_all only: i info_image_def)
qed

lemma raw_str_yields:
  "reader_ok (cl_reader L) pd \<Longrightarrow> length s < 2 ^ 63 \<Longrightarrow> yields pd (raw_str L) (str_wire s) ()"
  unfolding raw_str_def str_wire_def
  by (rule yields_bind_rret [where f = "\<lambda>_. ()"]) (use rd_strraw_yields [of "cl_reader L" pd "str_bytes s"] in simp)

lemma creads_start:
  fixes L :: "('r, 'w, 'k, 'p) chlib" and k :: "(('r, 'w, 'k, 'p) conn, 'x) io"
  assumes L: "lib_ok L pd out" and n: "length (co_name J c) < 2 ^ 63" "length (co_type J c) < 2 ^ 63"
    and k: "creads pd v k bs x"
  shows "creads pd v (iseq (iwrap f1 (rd (raw_str L))) (iseq (iwrap f2 (rd (raw_str L)))
     (iseq (when_has L F_CustomSerialization (iseq (iwrap f3 (rd (rd_bool (cl_reader L)))) (iret ()))) k)))
     (start_image L J v c @ bs) x"
proof -
  note R = lib_readerD [OF L]
  have b: "creads pd v (iseq (iwrap f3 (rd (rd_bool (cl_reader L)))) (iret ()) :: (('r, 'w, 'k, 'p) conn, unit) io) [0] ()"
    by (rule creads_bind [OF creads_iwrap [OF creads_rd [OF rd_bool_yields [OF R, of False]]] creads_iret]) simp
  note n1 = creads_iwrap [OF creads_rd [OF raw_str_yields [OF R n(1)]]]
  note n2 = creads_iwrap [OF creads_rd [OF raw_str_yields [OF R n(2)]]]
  show ?thesis
    unfolding start_image_def append_assoc
    by (rule creads_seq [OF n1], rule creads_seq [OF n2], rule creads_seq [OF creads_when_has [OF b refl] k]) (rule refl)+
qed

text \<open>The same relation for a call, whose columns change too.\<close>

definition breads :: "('r \<Rightarrow> byte list) \<Rightarrow> int \<Rightarrow> (('r, 'w, 'k, 'p, 'c) call, 'a) io \<Rightarrow> byte list \<Rightarrow> 'c list \<Rightarrow> 'a \<Rightarrow> 'c list \<Rightarrow> bool" where
  "breads pd v m bs cs x cs' \<longleftrightarrow>
     (\<forall>s rest. pd (cn_reader (ca_conn s)) = bs @ rest \<longrightarrow> cn_revision (ca_conn s) = v \<longrightarrow> ca_cols s = cs \<longrightarrow>
       (\<exists>r. m s = Some (Ok x, s\<lparr>ca_conn := (ca_conn s)\<lparr>cn_reader := r\<rparr>, ca_cols := cs'\<rparr>) \<and> pd r = rest))"

lemma breadsD:
  "breads pd v m bs cs x cs' \<Longrightarrow> pd (cn_reader (ca_conn s)) = bs @ rest \<Longrightarrow> cn_revision (ca_conn s) = v \<Longrightarrow> ca_cols s = cs \<Longrightarrow>
    \<exists>r. m s = Some (Ok x, s\<lparr>ca_conn := (ca_conn s)\<lparr>cn_reader := r\<rparr>, ca_cols := cs'\<rparr>) \<and> pd r = rest"
  by (simp add: breads_def)

lemma breads_on_conn:
  assumes "creads pd v m bs x"
  shows "breads pd v (on_conn m :: (('r, 'w, 'k, 'p, 'c) call, 'a) io) bs cs x cs"
  unfolding breads_def
proof (intro allI impI)
  fix s :: "('r, 'w, 'k, 'p, 'c) call" and rest
  assume a: "pd (cn_reader (ca_conn s)) = bs @ rest" "cn_revision (ca_conn s) = v" "ca_cols s = cs"
  from creadsD [OF assms a(1,2)] obtain r where "m (ca_conn s) = Some (Ok x, (ca_conn s)\<lparr>cn_reader := r\<rparr>)" "pd r = rest"
    by blast
  with a(3) show "\<exists>r. on_conn m s = Some (Ok x, s\<lparr>ca_conn := (ca_conn s)\<lparr>cn_reader := r\<rparr>, ca_cols := cs\<rparr>) \<and> pd r = rest"
    by (auto simp: on_conn_def)
qed

lemma breads_bind:
  fixes m :: "(('r, 'w, 'k, 'p, 'c) call, 'a) io"
  assumes "breads pd v m bs cs x cs1" and "breads pd v (k x) bs' cs1 y cs2" and "bs'' = bs @ bs'"
  shows "breads pd v (ibind m k) bs'' cs y cs2"
  unfolding breads_def
proof (intro allI impI)
  fix s :: "('r, 'w, 'k, 'p, 'c) call" and rest
  assume a: "pd (cn_reader (ca_conn s)) = bs'' @ rest" "cn_revision (ca_conn s) = v" "ca_cols s = cs"
  from a(1) assms(3) have "pd (cn_reader (ca_conn s)) = bs @ bs' @ rest" by simp
  from breadsD [OF assms(1) this a(2,3)] obtain r where
    1: "m s = Some (Ok x, s\<lparr>ca_conn := (ca_conn s)\<lparr>cn_reader := r\<rparr>, ca_cols := cs1\<rparr>)" "pd r = bs' @ rest" by blast
  from breadsD [OF assms(2), of "s\<lparr>ca_conn := (ca_conn s)\<lparr>cn_reader := r\<rparr>, ca_cols := cs1\<rparr>" rest] 1(2) a(2)
  show "\<exists>r. ibind m k s = Some (Ok y, s\<lparr>ca_conn := (ca_conn s)\<lparr>cn_reader := r\<rparr>, ca_cols := cs2\<rparr>) \<and> pd r = rest"
    by (auto simp: 1(1))
qed

lemma breads_pure:
  assumes "\<And>s. ca_cols s = cs \<Longrightarrow> m s = Some (Ok x, s\<lparr>ca_cols := cs'\<rparr>)"
  shows "breads pd v m [] cs x cs'"
  unfolding breads_def
proof (intro allI impI)
  fix s :: "('a, 'b, 'c, 'd, 'e) call" and rest
  assume a: "pd (cn_reader (ca_conn s)) = [] @ rest" "ca_cols s = cs"
  have "s\<lparr>ca_conn := (ca_conn s)\<lparr>cn_reader := cn_reader (ca_conn s)\<rparr>, ca_cols := cs'\<rparr> = s\<lparr>ca_cols := cs'\<rparr>"
    by (cases s; cases "ca_conn s") simp
  with a assms [OF a(2)]
  show "\<exists>r. m s = Some (Ok x, s\<lparr>ca_conn := (ca_conn s)\<lparr>cn_reader := r\<rparr>, ca_cols := cs'\<rparr>) \<and> pd r = rest"
    by (intro exI [of _ "cn_reader (ca_conn s)"]) simp
qed

lemma call_cols_same: "ca_cols s = cs \<Longrightarrow> s\<lparr>ca_cols := cs\<rparr> = s"
  by (cases s) simp

lemma breads_iret: "breads pd v (iret x) [] cs x cs"
  by (rule breads_pure) (simp add: call_cols_same)

lemma breads_iget: "(\<And>s. ca_cols s = cs \<Longrightarrow> f s = x) \<Longrightarrow> breads pd v (iget f) [] cs x cs"
  by (rule breads_pure) (simp add: call_cols_same)

lemma breads_cols: "breads pd v (imodify (\<lambda>s. s\<lparr>ca_cols := g (ca_cols s)\<rparr>)) [] cs () (g cs)"
  by (rule breads_pure) simp

lemma breads_seq:
  "breads pd v m bs cs () cs1 \<Longrightarrow> breads pd v k bs' cs1 y cs2 \<Longrightarrow> bs'' = bs @ bs' \<Longrightarrow> breads pd v (iseq m k) bs'' cs y cs2"
  by (rule breads_bind)

text \<open>Without compression the block is read as it stands.\<close>

lemma breads_uncompressed:
  assumes "breads pd v m bs cs x cs'" and "pd (cn_reader (ca_conn s)) = bs @ rest"
    and "cn_revision (ca_conn s) = v" and "ca_cols s = cs" and "\<not> cf_compression (cn_cfg (ca_conn s))"
  shows "\<exists>r. ca_with_compression L m s = Some (Ok x, s\<lparr>ca_conn := (ca_conn s)\<lparr>cn_reader := r\<rparr>, ca_cols := cs'\<rparr>) \<and> pd r = rest"
  using breadsD [OF assms(1-4)] assms(5) by (simp add: ca_with_compression_def)

lemma creads_block_size:
  fixes L :: "('r, 'w, 'k, 'p) chlib"
  assumes L: "lib_ok L pd out" and "k \<le> 1000000" and "n \<le> 100000000"
  shows "creads pd v (block_size L :: (('r, 'w, 'k, 'p) conn, int \<times> int) io) (uvarint k @ uvarint n) (int k, int n)"
proof -
  note R = lib_readerD [OF L]
  have "k < 2 ^ 63" "n < 2 ^ 63" using assms(2,3) by simp_all
  then have y: "creads pd v (iwrap f (rd (rd_int (cl_reader L))) :: (('r, 'w, 'k, 'p) conn, int) io) (uvarint k) (int k)"
    "creads pd v (iwrap f (rd (rd_int (cl_reader L))) :: (('r, 'w, 'k, 'p) conn, int) io) (uvarint n) (int n)" for f
    by (auto intro!: creads_iwrap creads_rd rd_int_yields [OF R])
  show ?thesis
    unfolding block_size_def
    by (rule creads_bind [OF y(1)], rule creads_bind [OF y(2), where bs' = "[]"])
      (use assms(2,3) in \<open>simp_all add: creads_iret del: iret_apply\<close>)
qed

section \<open>The block of a list of columns\<close>

context conn_column
begin

abbreviation cif :: "('r, 'w, 'k, 'p) chlib \<Rightarrow> ('r, 'w, 'c) column" where
  "cif L \<equiv> I (cl_reader L) (cl_writer L) (cl_buffer L)"

definition column_image :: "('r, 'w, 'k, 'p) chlib \<Rightarrow> int \<Rightarrow> 'c \<Rightarrow> byte list" where
  "column_image L v c = start_image L (cif L) v c @ st c @ img c"

definition block_image :: "('r, 'w, 'k, 'p) chlib \<Rightarrow> int \<Rightarrow> int \<Rightarrow> 'c list \<Rightarrow> byte list" where
  "block_image L v rows cs = info_image L v @ uvarint (length cs) @ uvarint (nat rows) @ concat (map (column_image L v) cs)"

lemma creads_block_column:
  fixes L :: "('r, 'w, 'k, 'p) chlib"
  assumes L: "lib_ok L pd out" and c: "ok c" "ready d c" "content c \<noteq> []"
  shows "\<exists>d'. creads pd v (block_column L (cif L) (raw_str L) (int (length (content c))) d :: (('r, 'w, 'k, 'p) conn, 'c) io)
    (column_image L v c) d' \<and> content d' = content c"
proof -
  note R = lib_readerD [OF L]
  obtain d' where d': "yields pd (co_decode (cif L) d (int (length (content c)))) (img c) d'" "content d' = content c"
    using decode [OF c(1,2) R c(3)] by blast
  have s: "creads pd v (decode_state (cif L) d :: (('r, 'w, 'k, 'p) conn, unit) io) (st c) ()"
    using state_dec [OF c(2) R, of "cl_writer L" "cl_buffer L"]
    by (auto simp: decode_state_def split: option.splits intro: creads_iret creads_iwrap creads_rd)
  have k: "creads pd v (iseq (decode_state (cif L) d)
      (iwrap (nerr KindProtocol ''decode column'') (rd (co_decode (cif L) d (int (length (content c)))))) :: (('r, 'w, 'k, 'p) conn, 'c) io)
      (st c @ img c) d'"
    by (rule creads_seq [OF s creads_iwrap [OF creads_rd [OF d'(1)]] refl])
  have "0 < length (content c)" using c(3) by simp
  then show ?thesis
    using creads_start [OF L _ _ k, where J = "cif L" and c = c] names [OF c(1), of "cl_reader L" "cl_writer L" "cl_buffer L"] d'(2)
    by (auto simp: block_column_def column_image_def)
qed

lemma breads_block_columns:
  fixes L :: "('r, 'w, 'k, 'p) chlib"
  assumes L: "lib_ok L pd out" and "0 < n"
    and "list_all2 (\<lambda>d c. ok c \<and> ready d c \<and> length (content c) = n) ds cs"
  shows "\<exists>ds'. breads pd v (block_columns L (cif L) (int n) (length pre) (length ds) :: (('r, 'w, 'k, 'p, 'c) call, unit) io)
      (concat (map (column_image L v) cs)) (pre @ ds) () (pre @ ds') \<and> map content ds' = map content cs"
  using assms(3)
proof (induction ds cs arbitrary: pre rule: list_all2_induct)
  case Nil
  show ?case by (intro exI [of _ "[]"]) (simp add: breads_iret del: iret_apply)
next
  case (Cons d ds c cs)
  from Cons(1) have c: "ok c" "ready d c" "content c \<noteq> []" and n: "length (content c) = n"
    using assms(2) by auto
  obtain d' where d': "creads pd v (block_column L (cif L) (raw_str L) (int n) d :: (('r, 'w, 'k, 'p) conn, 'c) io) (column_image L v c) d'"
      "content d' = content c"
    using creads_block_column [OF L c] unfolding n by blast
  obtain ds' where ds': "breads pd v (block_columns L (cif L) (int n) (length (pre @ [d'])) (length ds) :: (('r, 'w, 'k, 'p, 'c) call, unit) io)
      (concat (map (column_image L v) cs)) ((pre @ [d']) @ ds) () ((pre @ [d']) @ ds')" "map content ds' = map content cs"
    using Cons.IH [of "pre @ [d']"] by blast
  have g: "breads pd v (iget (\<lambda>s. ca_cols s ! length pre) :: (('r, 'w, 'k, 'p, 'c) call, 'c) io) [] (pre @ d # ds) d (pre @ d # ds)"
    by (rule breads_iget) simp
  have u: "breads pd v (imodify (\<lambda>s. s\<lparr>ca_cols := (ca_cols s)[length pre := d']\<rparr>) :: (('r, 'w, 'k, 'p, 'c) call, unit) io)
      [] (pre @ d # ds) () (pre @ d' # ds)"
    using breads_cols [of pd v "\<lambda>cs. cs[length pre := d']" "pre @ d # ds"] by simp
  have "breads pd v (block_columns L (cif L) (int n) (length pre) (Suc (length ds)) :: (('r, 'w, 'k, 'p, 'c) call, unit) io)
      (column_image L v c @ concat (map (column_image L v) cs)) (pre @ d # ds) () (pre @ d' # ds')"
    unfolding block_columns.simps
    by (rule breads_bind [OF g], rule breads_bind [OF breads_on_conn [OF d'(1)]], rule breads_seq [OF u])
      (use ds'(1) in simp_all)
  with ds'(2) d'(2) show ?case by (intro exI [of _ "d' # ds'"]) (simp del: block_columns.simps)
qed

lemma table_name_yields: "reader_ok (cl_reader L) pd \<Longrightarrow> yields pd (raw_str L) [0] ()"
  using raw_str_yields [of L pd "[]"] by (simp add: str_wire_def str_bytes_def)

lemma column_start_out:
  assumes L: "lib_ok L pd out"
  shows "out (chain_buffer (cl_writer L) (column_start L (cif L) v c) w) = out w @ start_image L (cif L) v c"
  by (rule out_chain_buffer [OF lib_writerD [OF L]])
    (simp add: column_start_def start_image_def str_wire_def Let_def put_eqs [OF lib_bufferD [OF L]])

lemma write_column_out:
  assumes L: "lib_ok L pd out" and c: "ok c" "content c \<noteq> []"
  shows "\<exists>c' w'. write_column L (cif L) True v c w = (Ok c', w') \<and> out w' = out w @ column_image L v c"
proof -
  note W = lib_writerD [OF L] and B = lib_bufferD [OF L]
  let ?w = "chain_buffer (cl_writer L) (column_start L (cif L) v c) w"
  let ?w2 = "case co_encode_state (cif L) c of Some f \<Rightarrow> chain_buffer (cl_writer L) f ?w | None \<Rightarrow> ?w"
  have "out ?w2 = out w @ start_image L (cif L) v c @ st c"
    using state_enc [OF B, of c "cl_reader L" "cl_writer L"] column_start_out [OF L, of v c w]
    by (auto simp: out_chain_buffer [OF W] appends_def split: option.splits)
  with write_img [OF c W B, of "cl_reader L" ?w2] show ?thesis
    by (auto simp: write_column_def column_image_def Let_def cong: option.case_cong)
qed

lemma write_columns_out:
  assumes L: "lib_ok L pd out" and "list_all (\<lambda>c. ok c \<and> content c \<noteq> []) cs"
  shows "\<exists>cs' w'. write_columns L (cif L) True v cs w = (Ok (), cs', w') \<and> out w' = out w @ concat (map (column_image L v) cs)"
  using assms(2)
proof (induction cs arbitrary: w)
  case (Cons c cs)
  then obtain c' w1 where 1: "write_column L (cif L) True v c w = (Ok c', w1)" "out w1 = out w @ column_image L v c"
    using write_column_out [OF L, of c v w] by auto
  from Cons obtain cs' w2 where "write_columns L (cif L) True v cs w1 = (Ok (), cs', w2)"
      "out w2 = out w1 @ concat (map (column_image L v) cs)" by fastforce
  with 1 show ?case by simp
qed simp

lemma check_lengths_ok: "list_all (\<lambda>c. ok c \<and> length (content c) = n) cs \<Longrightarrow> check_lengths (cif L) (int n) cs = Ok ()"
  by (induction cs) (auto simp: len)

lemma insert_rows_ok:
  assumes "0 < n" and "list_all (\<lambda>c. ok c \<and> length (content c) = n) cs" and "cs \<noteq> []"
  shows "insert_rows (cif L) msg cs = Ok (int n)"
  using assms by (cases cs) (auto simp: insert_rows_def len check_lengths_ok)

lemma block_header_out:
  assumes L: "lib_ok L pd out" and "k \<le> 1000000" and "n \<le> 100000000"
  shows "out (chain_buffer (cl_writer L) (block_header L v (int k) (int n)) w) = out w @ info_image L v @ uvarint k @ uvarint n"
proof -
  note B = lib_bufferD [OF L]
  have "put_int (cl_buffer L) (int k) b = b @ uvarint k" "put_int (cl_buffer L) (int n) b = b @ uvarint n" for b
    using assms(2,3) by (simp_all add: put_int_eq [OF B])
  moreover have "cl_block_info L (- 1) b = b @ [1, 0, 2] @ le_enc 4 (unat (- 1 :: u32)) @ [0]" for b
    using L by (simp add: lib_ok_def del: le_enc.simps)
  ultimately show ?thesis
    by (intro out_chain_buffer [OF lib_writerD [OF L]]) (simp add: block_header_def info_image_def del: le_enc.simps)
qed

lemma write_block_out:
  fixes L :: "('r, 'w, 'k, 'p) chlib" and s :: "('r, 'w, 'k, 'p, 'c) call"
  assumes L: "lib_ok L pd out" and n: "0 < n" "n \<le> 100000000"
    and cs: "list_all (\<lambda>c. ok c \<and> length (content c) = n) (ca_cols s)" "length (ca_cols s) \<le> 1000000"
  shows "\<exists>cs' w'. write_block L (cif L) True (int n) s = Some (Ok (), s\<lparr>ca_cols := cs', ca_conn := (ca_conn s)\<lparr>cn_writer := w'\<rparr>\<rparr>) \<and>
    out w' = out (cn_writer (ca_conn s)) @ head_image L (cn_revision (ca_conn s)) @
      block_image L (cn_revision (ca_conn s)) (int n) (ca_cols s)"
proof -
  define v where "v = cn_revision (ca_conn s)"
  define w1 where "w1 = chain_buffer (cl_writer L) (data_header L v) (cn_writer (ca_conn s))"
  define w2 where "w2 = chain_buffer (cl_writer L) (block_header L v (int (length (ca_cols s))) (int n)) w1"
  have "out w1 = out (cn_writer (ca_conn s)) @ head_image L v"
    unfolding w1_def by (rule out_chain_buffer [OF lib_writerD [OF L]])
      (use L in \<open>simp add: lib_ok_def data_header_def head_image_def\<close>)
  moreover have "out w2 = out w1 @ info_image L v @ uvarint (length (ca_cols s)) @ uvarint n"
    unfolding w2_def by (rule block_header_out [OF L cs(2) n(2)])
  moreover have "list_all (\<lambda>c. ok c \<and> content c \<noteq> []) (ca_cols s)"
    using cs(1) n(1) by (auto elim: list.pred_mono_strong)
  from write_columns_out [OF L this, of v w2] obtain cs' w3 where
    3: "write_columns L (cif L) True v (ca_cols s) w2 = (Ok (), cs', w3)" "out w3 = out w2 @ concat (map (column_image L v) (ca_cols s))"
    by blast
  moreover have "write_block L (cif L) True (int n) s = Some (Ok (), s\<lparr>ca_cols := cs', ca_conn := (ca_conn s)\<lparr>cn_writer := w3\<rparr>\<rparr>)"
    using 3(1) by (simp add: write_block_def chain_def on_conn_def v_def w1_def w2_def ibind_def)
  ultimately show ?thesis by (intro exI [of _ cs'] exI [of _ w3]) (simp add: block_image_def v_def)
qed

section \<open>A response\<close>

text \<open>
  A server answers a SELECT with a header block (the columns, no rows), the data, and the end of
  the stream.
\<close>

definition header_image :: "('r, 'w, 'k, 'p) chlib \<Rightarrow> int \<Rightarrow> 'c list \<Rightarrow> byte list" where
  "header_image L v cs = info_image L v @ uvarint (length cs) @ uvarint 0 @ concat (map (start_image L (cif L) v) cs)"

definition response :: "('r, 'w, 'k, 'p) chlib \<Rightarrow> int \<Rightarrow> nat \<Rightarrow> nat \<Rightarrow> int \<Rightarrow> 'c list \<Rightarrow> byte list" where
  "response L v dk ek n cs = uvarint dk @ table_image L v @ header_image L v cs @
     uvarint dk @ table_image L v @ block_image L v n cs @ uvarint ek"

lemma breads_header_columns:
  fixes L :: "('r, 'w, 'k, 'p) chlib"
  assumes L: "lib_ok L pd out" and "list_all ok cs" and "length ds = length cs"
  shows "breads pd v (block_columns L (cif L) 0 (length pre) (length cs) :: (('r, 'w, 'k, 'p, 'c) call, unit) io)
      (concat (map (start_image L (cif L) v) cs)) (pre @ ds) () (pre @ ds)"
  using assms(3,2)
proof (induction ds cs arbitrary: pre rule: list_induct2)
  case Nil
  show ?case by (simp add: breads_iret del: iret_apply)
next
  case (Cons d ds c cs)
  have nm: "length (co_name (cif L) c) < 2 ^ 63" "length (co_type (cif L) c) < 2 ^ 63"
    using names [of c "cl_reader L" "cl_writer L" "cl_buffer L"] Cons.prems by simp_all
  have c1: "creads pd v (block_column L (cif L) (raw_str L) 0 d :: (('r, 'w, 'k, 'p) conn, 'c) io) (start_image L (cif L) v c @ []) d"
    unfolding block_column_def by (simp only: less_irrefl if_False) (rule creads_start [OF L nm creads_iret])
  have g: "breads pd v (iget (\<lambda>s. ca_cols s ! length pre) :: (('r, 'w, 'k, 'p, 'c) call, 'c) io) [] (pre @ d # ds) d (pre @ d # ds)"
    by (rule breads_iget) simp
  have u: "breads pd v (imodify (\<lambda>s. s\<lparr>ca_cols := (ca_cols s)[length pre := d]\<rparr>) :: (('r, 'w, 'k, 'p, 'c) call, unit) io)
      [] (pre @ d # ds) () (pre @ d # ds)"
    using breads_cols [of pd v "\<lambda>cs. cs[length pre := d]" "pre @ d # ds"] by simp
  have "breads pd v (block_columns L (cif L) 0 (length pre) (Suc (length cs)) :: (('r, 'w, 'k, 'p, 'c) call, unit) io)
      ((start_image L (cif L) v c @ []) @ concat (map (start_image L (cif L) v) cs)) (pre @ d # ds) () (pre @ d # ds)"
    unfolding block_columns.simps
    by (rule breads_bind [OF g], rule breads_bind [OF breads_on_conn [OF c1]], rule breads_seq [OF u])
      (use Cons.IH [of "pre @ [d]"] Cons.prems in simp_all)
  then show ?case by (simp del: block_columns.simps)
qed

lemma handle_frame:
  fixes L :: "('r, 'w, 'k, 'p) chlib" and t :: "('r, 'w, 'k, 'p, 'c) call"
  assumes L: "lib_ok L pd out" and k: "length cs = length (ca_cols t)" "length cs \<le> 1000000" "cs \<noteq> []" and n: "n \<le> 100000000"
    and cols: "breads pd (cn_revision (ca_conn t)) (block_columns L (cif L) (int n) 0 (length cs) :: (('r, 'w, 'k, 'p, 'c) call, unit) io)
      bs (ca_cols t) () ds'"
    and t: "pd (cn_reader (ca_conn t)) =
        table_image L (cn_revision (ca_conn t)) @ info_image L (cn_revision (ca_conn t)) @ uvarint (length cs) @ uvarint n @ bs @ rest"
      "\<not> cf_compression (cn_cfg (ca_conn t))"
  shows "\<exists>r. handleDataBlock L (cif L) t = Some (Ok (int n), t\<lparr>ca_conn := (ca_conn t)\<lparr>cn_reader := r\<rparr>, ca_cols := ds'\<rparr>) \<and>
    pd r = rest"
proof -
  define v where "v = cn_revision (ca_conn t)"
  have name: "creads pd v (when_has L F_TempTables (iwrap f (rd (raw_str L))) :: (('r, 'w, 'k, 'p) conn, unit) io)
      (table_image L v) ()" for f
    unfolding table_image_def
    by (rule creads_when_has [OF creads_iwrap [OF creads_rd [OF table_name_yields [OF lib_readerD [OF L]]]] refl])
  let ?body = "\<lambda>(cols, rows). if cols = 0 \<and> rows = 0 then iret 0
        else ibind (iget (\<lambda>s :: ('r, 'w, 'k, 'p, 'c) call. length (ca_cols s))) (\<lambda>n.
          if int n \<noteq> cols then ifail (perr KindProtocol ''column count mismatch'')
          else iseq (block_columns L (cif L) rows 0 n) (iret rows))"
  have g: "breads pd v (iget (\<lambda>s :: ('r, 'w, 'k, 'p, 'c) call. length (ca_cols s))) [] (ca_cols t) (length cs) (ca_cols t)"
    by (rule breads_iget) (simp add: k)
  let ?rest = "\<lambda>m. if int m \<noteq> int (length cs) then ifail (perr KindProtocol ''column count mismatch'')
      else iseq (block_columns L (cif L) (int n) 0 m) (iret (int n)) :: (('r, 'w, 'k, 'p, 'c) call, int) io"
  have "?rest (length cs) = iseq (block_columns L (cif L) (int n) 0 (length cs)) (iret (int n))" by simp
  then have "breads pd v (?rest (length cs)) bs (ca_cols t) (int n) ds'"
    using breads_seq [OF cols [folded v_def] breads_iret [of pd v "int n"], of bs] by (simp only: append_Nil2)
  from breads_bind [where k = ?rest, OF g this, of bs]
  moreover have "?body (int (length cs), int n) = ibind (iget (\<lambda>s. length (ca_cols s))) ?rest"
    using k(3) by (simp only: prod.case of_nat_eq_0_iff) simp
  ultimately have b: "breads pd v (?body (int (length cs), int n)) bs (ca_cols t) (int n) ds'"
    by (simp only: append_Nil simp_thms)
  have b2: "breads pd v (ibind (on_conn (block_size L)) ?body) (uvarint (length cs) @ uvarint n @ bs) (ca_cols t) (int n) ds'"
    by (rule breads_bind [where k = ?body, OF breads_on_conn [OF creads_block_size [OF L k(2) n]] b]) simp
  have "breads pd v (iseq (on_conn (block_info L ''decode block info'')) (ibind (on_conn (block_size L)) ?body))
      (info_image L v @ uvarint (length cs) @ uvarint n @ bs) (ca_cols t) (int n) ds'"
    by (rule breads_seq [OF breads_on_conn [OF creads_block_info [OF L]] b2]) simp
  note inner = breads_uncompressed [OF this, where L = L]
  from breadsD [OF breads_on_conn [OF name], where s = t and rest = "info_image L v @ uvarint (length cs) @ uvarint n @ bs @ rest"] t(1) obtain r where
    1: "on_conn (when_has L F_TempTables (iwrap (nerr KindProtocol ''read temp table name'') (rd (raw_str L)))) t =
      Some (Ok (), t\<lparr>ca_conn := (ca_conn t)\<lparr>cn_reader := r\<rparr>, ca_cols := ca_cols t\<rparr>)"
      "pd r = info_image L v @ uvarint (length cs) @ uvarint n @ bs @ rest"
    unfolding v_def by blast
  from inner [of "t\<lparr>ca_conn := (ca_conn t)\<lparr>cn_reader := r\<rparr>, ca_cols := ca_cols t\<rparr>" rest] 1(2) t(2)
  show ?thesis unfolding handleDataBlock_def by (auto simp: 1(1) v_def)
qed

lemma handle_block:
  fixes L :: "('r, 'w, 'k, 'p) chlib" and t :: "('r, 'w, 'k, 'p, 'c) call"
  assumes L: "lib_ok L pd out" and n: "0 < n" "n \<le> 100000000" and cs: "length cs \<le> 1000000" "cs \<noteq> []"
    and ds: "list_all2 (\<lambda>d c. ok c \<and> ready d c \<and> length (content c) = n) (ca_cols t) cs"
    and t: "pd (cn_reader (ca_conn t)) =
        table_image L (cn_revision (ca_conn t)) @ block_image L (cn_revision (ca_conn t)) (int n) cs @ rest"
      "\<not> cf_compression (cn_cfg (ca_conn t))"
  shows "\<exists>r ds'. handleDataBlock L (cif L) t = Some (Ok (int n), t\<lparr>ca_conn := (ca_conn t)\<lparr>cn_reader := r\<rparr>, ca_cols := ds'\<rparr>) \<and>
    pd r = rest \<and> map content ds' = map content cs"
proof -
  have len: "length (ca_cols t) = length cs" using ds by (rule list_all2_lengthD)
  obtain ds' where ds': "breads pd (cn_revision (ca_conn t)) (block_columns L (cif L) (int n) 0 (length cs) :: (('r, 'w, 'k, 'p, 'c) call, unit) io)
      (concat (map (column_image L (cn_revision (ca_conn t))) cs)) (ca_cols t) () ds'" "map content ds' = map content cs"
    using breads_block_columns [OF L n(1) ds, of "cn_revision (ca_conn t)" "[]"] len by auto
  from handle_frame [OF L len [symmetric] cs n(2) ds'(1), of rest] t ds'(2) show ?thesis
    by (auto simp: block_image_def)
qed

end

text \<open>
  C5.
  What one client inserts another selects. Let the columns bound to an INSERT be in good order and
  have the same number of rows, and let the columns bound to a SELECT be of the same configurations:
  then the block written by \<open>Insert\<close> (its body after the client's packet header) is, after the
  server's table name, a block that \<open>handleDataBlock\<close> reads to its last byte, counting every row and
  leaving each column with the contents that were inserted. The columns may be of any types that
  satisfy the contract, with state or without, on connections of one revision, without compression.
\<close>

theorem insert_select_block:
  fixes L :: "('r, 'w, 'k, 'p) chlib" and s :: "('r, 'w, 'k, 'p, 'c) call"
  assumes I: "conn_column I ok ready content st img" and L: "lib_ok L pd out"
    and n: "0 < n" "n \<le> 100000000" and k: "ca_cols s \<noteq> []" "length (ca_cols s) \<le> 1000000"
    and fit: "list_all2 (\<lambda>d c. ok c \<and> ready d c \<and> length (content c) = n) ds (ca_cols s)"
  shows "insert_rows (I (cl_reader L) (cl_writer L) (cl_buffer L)) msg (ca_cols s) = Ok (int n) \<and>
    (\<exists>s' body. write_block L (I (cl_reader L) (cl_writer L) (cl_buffer L)) True (int n) s = Some (Ok (), s') \<and>
      out (cn_writer (ca_conn s')) = out (cn_writer (ca_conn s)) @ head_image L (cn_revision (ca_conn s)) @ body \<and>
      (\<forall>(t :: ('r, 'w, 'k, 'p, 'c) call) rest.
        if ca_cols t = ds \<and> cn_revision (ca_conn t) = cn_revision (ca_conn s) \<and> \<not> cf_compression (cn_cfg (ca_conn t)) \<and>
           pd (cn_reader (ca_conn t)) = (if cl_has L F_TempTables (cn_revision (ca_conn t)) then [0] else []) @ body @ rest
        then \<exists>t'. handleDataBlock L (I (cl_reader L) (cl_writer L) (cl_buffer L)) t = Some (Ok (int n), t') \<and>
          map content (ca_cols t') = map content (ca_cols s) \<and> pd (cn_reader (ca_conn t')) = rest
        else True))"
proof -
  have all: "list_all (\<lambda>c. ok c \<and> length (content c) = n) (ca_cols s)"
    using fit by (auto simp: list_all2_conv_all_nth list_all_length)
  let ?body = "conn_column.block_image I st img L (cn_revision (ca_conn s)) (int n) (ca_cols s)"
  obtain cs' w' where "write_block L (I (cl_reader L) (cl_writer L) (cl_buffer L)) True (int n) s =
      Some (Ok (), s\<lparr>ca_cols := cs', ca_conn := (ca_conn s)\<lparr>cn_writer := w'\<rparr>\<rparr>)"
    "out w' = out (cn_writer (ca_conn s)) @ head_image L (cn_revision (ca_conn s)) @ ?body"
    using conn_column.write_block_out [OF I L n all k(2)] by blast
  moreover have "\<exists>t'. handleDataBlock L (I (cl_reader L) (cl_writer L) (cl_buffer L)) t = Some (Ok (int n), t') \<and>
      map content (ca_cols t') = map content (ca_cols s) \<and> pd (cn_reader (ca_conn t')) = rest"
    if "ca_cols t = ds" "cn_revision (ca_conn t) = cn_revision (ca_conn s)" "\<not> cf_compression (cn_cfg (ca_conn t))"
      "pd (cn_reader (ca_conn t)) = (if cl_has L F_TempTables (cn_revision (ca_conn t)) then [0] else []) @ ?body @ rest"
    for t :: "('r, 'w, 'k, 'p, 'c) call" and rest
    using conn_column.handle_block [OF I L n k(2,1) _ _ that(3), of rest] that fit by (auto simp: table_image_def)
  ultimately show ?thesis
    using conn_column.insert_rows_ok [OF I n(1) all k(1)]
    by (intro conjI exI [of _ "s\<lparr>ca_cols := cs', ca_conn := (ca_conn s)\<lparr>cn_writer := w'\<rparr>\<rparr>"] exI [of _ ?body]) auto
qed

lemma list_lib_ok: "lib_ok list_lib id id"
  by (simp add: lib_ok_def list_reader_ok list_buffer_ok list_writer_ok del: le_enc.simps)
    (simp add: list_lib_def del: le_enc.simps)

text \<open>The columns of the example: a LowCardinality(String) with three rows and a UInt64.\<close>

type_synonym demo_col = "(str_col, string) lc_col + u64 data_col"

definition demo_column :: "byte list preader \<Rightarrow> byte list pwriter \<Rightarrow> pbuffer \<Rightarrow> (byte list, byte list, demo_col) column" where
  "demo_column P W B = sum_column (lc_column list_ctypes str_ops string_t P W B) (column_of list_ctypes (base_ops uint64_t) P W B)"

lemma demo_column_eq:
  "demo_column = (\<lambda>P W B. sum_column (lc_column list_ctypes str_ops string_t P W B) (column_of list_ctypes (base_ops uint64_t) P W B))"
  by (simp add: fun_eq_iff demo_column_def)

definition demo_call :: "byte list \<Rightarrow> demo_col list \<Rightarrow> (byte list, byte list, unit, nat, demo_col) call" where
  "demo_call bs cs = \<lparr> ca_conn = list_conn bs, ca_cols = cs, ca_rows = 0 \<rparr>"

lemma demo_calls [simp]:
  "ca_conn (demo_call bs cs) = list_conn bs" "ca_cols (demo_call bs cs) = cs"
  "cn_reader (list_conn bs) = bs" "cn_writer (list_conn bs) = []" "cn_revision (list_conn bs) = 54460"
  "\<not> cf_compression (cn_cfg (list_conn bs))"
  by (simp_all add: demo_call_def list_conn_def)

abbreviation demo_strs :: "(str_col, string) lc_col" where
  "demo_strs \<equiv> new_lc_col ((new_str_col ''s'')\<lparr>sc_data := [''a'', ''b'', ''a'']\<rparr>)"

abbreviation demo_nums :: "u64 data_col" where
  "demo_nums \<equiv> (new_data_col ''n'')\<lparr>dc_data := [7, 8, 9]\<rparr>"

lemma demo_strs_content: "lc_str.lcc_content demo_strs = [''a'', ''b'', ''a'']"
  by (simp add: lc_str.lcc_content_def lc_contents_def new_lc_col_def)

lemma demo_strs_ok: "lc_str.lcc_ok TYPE(byte list) TYPE(byte list) list_ctypes demo_strs"
proof -
  have d: "lc_dict_of [''a'', ''b'', ''a''] = [''a'', ''b'']" by (simp add: lc_dict_of_def lc_add_def)
  show ?thesis
    unfolding lc_str.lcc_ok_def demo_strs_content d
    by (simp add: string_dict_image str_image_def new_lc_col_def lc_type_def LowCardinality_Column.lc_name_def
        str_ops_def str_type_def lc_with_def string_t_def str_bytes_def new_str_col_def)
qed

lemma demo_nums_ok: "uint64_col.col.cc_ok TYPE(byte list) TYPE(byte list) list_ctypes demo_nums"
  unfolding uint64_col.col.cc_ok_def
  by (simp add: base_ops_def data_image_def word_layout_def base_type_def new_data_col_def)

theorem insert_select_block_witness:
  "\<exists>body s' t'. write_block list_lib (demo_column list_reader list_writer list_buffer) True 3
      (demo_call [] [Inl demo_strs, Inr demo_nums]) =
      Some (Ok (), s') \<and> cn_writer (ca_conn s') = [2, 0] @ body \<and>
    handleDataBlock list_lib (demo_column list_reader list_writer list_buffer)
      (demo_call ([0] @ body @ [5]) [Inl (new_lc_col (new_str_col ''s'')), Inr (new_data_col ''n'')]) = Some (Ok 3, t') \<and>
    cn_reader (ca_conn t') = [5]"
proof -
  let ?s = "demo_call [] [Inl demo_strs, Inr demo_nums]" and ?ds = "[Inl (new_lc_col (new_str_col ''s'')), Inr (new_data_col ''n'')]"
  note I = lc_u64.sum.conn_column_axioms [where 'r = "byte list" and 'w = "byte list", of list_ctypes, folded demo_column_eq]
  have fit: "list_all2 (\<lambda>d c. lc_u64.sc_ok TYPE(byte list) TYPE(byte list) list_ctypes c \<and> lc_u64.sc_ready d c \<and> length (lc_u64.sc_content c) = 3) ?ds (ca_cols ?s)"
    using demo_strs_ok demo_nums_ok by (simp add: lc_u64.sc_ok_def lc_u64.sc_content_def demo_strs_content uint64_col.col.cc_ready_def new_data_col_def)
  have n: "0 < (3::nat)" "(3::nat) \<le> 100000000" "ca_cols ?s \<noteq> []" "length (ca_cols ?s) \<le> 1000000" by simp_all
  have h: "head_image list_lib 54460 = [2, 0]" by (simp add: head_image_def)
  let ?I = "demo_column list_reader list_writer list_buffer"
  have "\<exists>s' body. write_block list_lib ?I True 3 ?s = Some (Ok (), s') \<and> cn_writer (ca_conn s') = [2, 0] @ body \<and>
     (\<forall>(t :: (byte list, byte list, unit, nat, demo_col) call) rest.
       if ca_cols t = ?ds \<and> cn_revision (ca_conn t) = 54460 \<and> \<not> cf_compression (cn_cfg (ca_conn t)) \<and> cn_reader (ca_conn t) = [0] @ body @ rest
       then \<exists>t'. handleDataBlock list_lib ?I t = Some (Ok 3, t') \<and>
         map lc_u64.sc_content (ca_cols t') = map lc_u64.sc_content (ca_cols ?s) \<and> cn_reader (ca_conn t') = rest
       else True)"
    using insert_select_block [OF I list_lib_ok n fit, of "[]"] by (simp add: h cong: if_cong)
  then obtain s' body where
    1: "write_block list_lib ?I True 3 ?s = Some (Ok (), s')" "cn_writer (ca_conn s') = [2, 0] @ body" and
    2: "\<forall>(t :: (byte list, byte list, unit, nat, demo_col) call) rest.
       if ca_cols t = ?ds \<and> cn_revision (ca_conn t) = 54460 \<and> \<not> cf_compression (cn_cfg (ca_conn t)) \<and> cn_reader (ca_conn t) = [0] @ body @ rest
       then \<exists>t'. handleDataBlock list_lib ?I t = Some (Ok 3, t') \<and>
         map lc_u64.sc_content (ca_cols t') = map lc_u64.sc_content (ca_cols ?s) \<and> cn_reader (ca_conn t') = rest
       else True" by blast
  from 2 [rule_format, of "demo_call ([0] @ body @ [5]) ?ds" "[5]"] 1 show ?thesis by auto
qed

section \<open>Select on a response\<close>

text \<open>The steps of \<open>Select\<close> that do not concern the columns.\<close>

definition flushes :: "('r, 'w, 'k, 'p) chlib \<Rightarrow> bool" where
  "flushes L \<longleftrightarrow> (\<forall>w. fst (cl_flush L w) = None)"

lemma flush_ok: "flushes L \<Longrightarrow> \<exists>w'. flush L s = Some (Ok (), s\<lparr>cn_writer := w'\<rparr>)"
  by (auto simp: flush_def flushes_def split: prod.splits option.splits) (metis fst_conv option.distinct(1))

definition sent :: "('r, 'w, 'k, 'p) conn \<Rightarrow> ('r, 'w, 'k, 'p) conn \<Rightarrow> bool" where
  "sent s s' \<longleftrightarrow> (\<exists>w p. s' = s\<lparr>cn_writer := w, cn_prefix := p\<rparr>)"

lemma send_query_ok:
  assumes "flushes L"
  shows "\<exists>s'. send_query L body s = Some (Ok (), s') \<and> sent s s'"
proof -
  obtain p where p: "encodePrefix L s = s\<lparr>cn_prefix := p\<rparr>"
    by (cases "cn_prefix s") (auto simp: encodePrefix_def intro: that [of "cn_prefix s"])
  let ?q = "make_query L body s"
  define s1 where "s1 = (s\<lparr>cn_prefix := p\<rparr>)\<lparr>cn_writer := chain_write (cl_writer L) (cl_query L ?q (cn_revision s) []) (cn_writer s)\<rparr>"
  define s2 where "s2 = s1\<lparr>cn_writer := chain_write (cl_writer L) (case p of Some b \<Rightarrow> b | None \<Rightarrow> []) (cn_writer s1)\<rparr>"
  obtain w where w: "flush L s2 = Some (Ok (), s2\<lparr>cn_writer := w\<rparr>)" using flush_ok [OF assms] by blast
  have "writeQuery L ?q s = flush L s2"
    by (simp add: writeQuery_def chainw_def p s1_def s2_def)
  then have "send_query L body s = Some (Ok (), s2\<lparr>cn_writer := w\<rparr>)"
    by (simp add: send_query_def w)
  moreover have "sent s (s2\<lparr>cn_writer := w\<rparr>)"
    by (cases s) (simp add: sent_def s2_def s1_def)
  ultimately show ?thesis by blast
qed

lemma select_step:
  fixes s :: "('r, 'w, 'k, 'p, 'c) call"
  assumes L: "lib_ok L pd out" and k: "k < 2 ^ 64" "pd (cn_reader (ca_conn s)) = uvarint k @ rest" and c: "cn_ctx (ca_conn s) = []"
  shows "\<exists>r. select_body L I s = select_packet L I (cl_code L (word_of_nat k)) (s\<lparr>ca_conn := (ca_conn s)\<lparr>cn_reader := r\<rparr>\<rparr>) \<and> pd r = rest"
proof -
  from yieldsD [OF rd_uvarint_yields [OF lib_readerD [OF L] k(1)] k(2)] obtain r where
    r: "rd_uvarint (cl_reader L) (cn_reader (ca_conn s)) = (Ok (word_of_nat k), r)" "pd r = rest" by blast
  have "check_ctx L (ca_conn s) = Some (Ok (), ca_conn s)"
    using c by (simp add: check_ctx_def ctx_done_def ibind_def)
  moreover have "read_code L m (ca_conn s) = Some (Ok (cl_code L (word_of_nat k)), (ca_conn s)\<lparr>cn_reader := r\<rparr>)" for m
    using r(1) by (simp add: read_code_def on_reader_def lift_rdm_def ibind_def iwrap_def)
  ultimately have "select_body L I s = select_packet L I (cl_code L (word_of_nat k)) (s\<lparr>ca_conn := (ca_conn s)\<lparr>cn_reader := r\<rparr>\<rparr>)"
    by (simp add: select_body_def on_conn_def ibind_def)
  with r(2) show ?thesis by blast
qed

lemma iloop_select_data:
  fixes s :: "('r, 'w, 'k, 'p, 'c) call"
  assumes "select_body L I s = select_packet L I SC_Data s1" and "handleDataBlock L I s1 = Some (Ok n, s2)"
  shows "iloop (select_body L I) s = iloop (select_body L I) (s2\<lparr>ca_rows := ca_rows s2 + n\<rparr>)"
  by (rule iloop_continue) (simp add: assms select_packet_def goon_def)

context conn_column
begin

text \<open>One round of the loop on a data packet.\<close>

lemma loop_data:
  fixes L :: "('r, 'w, 'k, 'p) chlib" and t :: "('r, 'w, 'k, 'p, 'c) call"
  assumes L: "lib_ok L pd out" and k: "length cs = length (ca_cols t)" "length cs \<le> 1000000" "cs \<noteq> []" and n: "n \<le> 100000000"
    and cols: "breads pd (cn_revision (ca_conn t)) (block_columns L (cif L) (int n) 0 (length cs) :: (('r, 'w, 'k, 'p, 'c) call, unit) io)
      bs (ca_cols t) () ds'"
    and dk: "dk < 2 ^ 64" "cl_code L (word_of_nat dk) = SC_Data"
    and t: "pd (cn_reader (ca_conn t)) = uvarint dk @ table_image L (cn_revision (ca_conn t)) @
        info_image L (cn_revision (ca_conn t)) @ uvarint (length cs) @ uvarint n @ bs @ rest"
      "\<not> cf_compression (cn_cfg (ca_conn t))" "cn_ctx (ca_conn t) = []"
  shows "\<exists>r. iloop (select_body L (cif L)) t = iloop (select_body L (cif L))
      (t\<lparr>ca_conn := (ca_conn t)\<lparr>cn_reader := r\<rparr>, ca_cols := ds', ca_rows := ca_rows t + int n\<rparr>) \<and> pd r = rest"
proof -
  from select_step [OF L dk(1) t(1,3), of "cif L"] obtain r1 where
    1: "select_body L (cif L) t = select_packet L (cif L) SC_Data (t\<lparr>ca_conn := (ca_conn t)\<lparr>cn_reader := r1\<rparr>\<rparr>)"
      "pd r1 = table_image L (cn_revision (ca_conn t)) @ info_image L (cn_revision (ca_conn t)) @ uvarint (length cs) @ uvarint n @ bs @ rest"
    unfolding dk(2) by blast
  let ?t = "t\<lparr>ca_conn := (ca_conn t)\<lparr>cn_reader := r1\<rparr>\<rparr>"
  have "\<exists>r. handleDataBlock L (cif L) ?t = Some (Ok (int n), ?t\<lparr>ca_conn := (ca_conn ?t)\<lparr>cn_reader := r\<rparr>, ca_cols := ds'\<rparr>) \<and> pd r = rest"
    by (rule handle_frame [OF L _ k(2,3) n]) (use k(1) cols 1(2) t(2) in simp_all)
  then obtain r where 2: "handleDataBlock L (cif L) ?t = Some (Ok (int n), t\<lparr>ca_conn := (ca_conn t)\<lparr>cn_reader := r\<rparr>, ca_cols := ds'\<rparr>)"
    "pd r = rest" by auto
  from iloop_select_data [OF 1(1) 2(1)] 2(2) show ?thesis by auto
qed

lemma loop_response:
  fixes L :: "('r, 'w, 'k, 'p) chlib" and t :: "('r, 'w, 'k, 'p, 'c) call"
  assumes L: "lib_ok L pd out" and n: "0 < n" "n \<le> 100000000" and k: "cs \<noteq> []" "length cs \<le> 1000000"
    and fit: "list_all2 (\<lambda>d c. ok c \<and> ready d c \<and> length (content c) = n) (ca_cols t) cs"
    and codes: "dk < 2 ^ 64" "cl_code L (word_of_nat dk) = SC_Data" "ek < 2 ^ 64" "cl_code L (word_of_nat ek) = SC_EndOfStream"
    and t: "pd (cn_reader (ca_conn t)) = response L (cn_revision (ca_conn t)) dk ek (int n) cs @ rest"
      "\<not> cf_compression (cn_cfg (ca_conn t))" "cn_ctx (ca_conn t) = []"
  shows "\<exists>r ds'. iloop (select_body L (cif L)) t =
      Some (Ok (), t\<lparr>ca_conn := (ca_conn t)\<lparr>cn_reader := r\<rparr>, ca_cols := ds', ca_rows := ca_rows t + int n\<rparr>) \<and>
      map content ds' = map content cs \<and> pd r = rest"
proof -
  let ?v = "cn_revision (ca_conn t)"
  have len: "length (ca_cols t) = length cs" using fit by (rule list_all2_lengthD)
  have ok: "list_all ok cs" using fit by (auto simp: list_all2_conv_all_nth list_all_length)
  have h: "breads pd ?v (block_columns L (cif L) (int 0) 0 (length cs) :: (('r, 'w, 'k, 'p, 'c) call, unit) io)
      (concat (map (start_image L (cif L) ?v) cs)) (ca_cols t) () (ca_cols t)"
    using breads_header_columns [OF L ok len, of ?v "[]"] by simp
  from loop_data [OF L len [symmetric] k(2,1) _ h codes(1,2), of "uvarint dk @ table_image L ?v @ block_image L ?v (int n) cs @ uvarint ek @ rest"]
  obtain r1 where 1: "iloop (select_body L (cif L)) t = iloop (select_body L (cif L))
      (t\<lparr>ca_conn := (ca_conn t)\<lparr>cn_reader := r1\<rparr>, ca_cols := ca_cols t, ca_rows := ca_rows t\<rparr>)"
      "pd r1 = uvarint dk @ table_image L ?v @ block_image L ?v (int n) cs @ uvarint ek @ rest"
    using t by (auto simp: response_def header_image_def)
  let ?t1 = "t\<lparr>ca_conn := (ca_conn t)\<lparr>cn_reader := r1\<rparr>, ca_cols := ca_cols t, ca_rows := ca_rows t\<rparr>"
  obtain ds' where ds': "breads pd ?v (block_columns L (cif L) (int n) 0 (length cs) :: (('r, 'w, 'k, 'p, 'c) call, unit) io)
      (concat (map (column_image L ?v) cs)) (ca_cols t) () ds'" "map content ds' = map content cs"
    using breads_block_columns [OF L n(1) fit, of ?v "[]"] len by auto
  have "\<exists>r. iloop (select_body L (cif L)) ?t1 = iloop (select_body L (cif L))
      (?t1\<lparr>ca_conn := (ca_conn ?t1)\<lparr>cn_reader := r\<rparr>, ca_cols := ds', ca_rows := ca_rows ?t1 + int n\<rparr>) \<and> pd r = uvarint ek @ rest"
    by (rule loop_data [OF L _ k(2,1) n(2) _ codes(1,2)]) (use len ds'(1) 1(2) t in \<open>simp_all add: block_image_def\<close>)
  then obtain r2 where 2: "iloop (select_body L (cif L)) ?t1 = iloop (select_body L (cif L))
      (t\<lparr>ca_conn := (ca_conn t)\<lparr>cn_reader := r2\<rparr>, ca_cols := ds', ca_rows := ca_rows t + int n\<rparr>)" "pd r2 = uvarint ek @ rest" by auto
  let ?t2 = "t\<lparr>ca_conn := (ca_conn t)\<lparr>cn_reader := r2\<rparr>, ca_cols := ds', ca_rows := ca_rows t + int n\<rparr>"
  obtain r3 where 3: "select_body L (cif L) ?t2 = select_packet L (cif L) SC_EndOfStream (?t2\<lparr>ca_conn := (ca_conn ?t2)\<lparr>cn_reader := r3\<rparr>\<rparr>)" "pd r3 = rest"
    using select_step [OF L codes(3), of ?t2 rest "cif L"] 2(2) t(3) codes(4) by auto
  have "iloop (select_body L (cif L)) ?t2 = Some (Ok (), ?t2\<lparr>ca_conn := (ca_conn ?t2)\<lparr>cn_reader := r3\<rparr>\<rparr>)"
    by (rule iloop_return) (simp add: 3(1) select_packet_def)
  with 1(1) 2(1) 3(2) ds'(2) show ?thesis by (intro exI [of _ r3] exI [of _ ds']) simp
qed

end

text \<open>
  C6.
  \<open>Select\<close> on a ready connection, bound to columns of the configurations the server sends: on a
  response of a header block, a block of \<open>n\<close> rows and the end of the stream it returns without an
  error, reports \<open>n\<close> rows, leaves every column with the contents the server sent, has read exactly
  the response, and leaves the connection ready.
\<close>

theorem select_response:
  fixes L :: "('r, 'w, 'k, 'p) chlib" and t :: "('r, 'w, 'k, 'p, 'c) call"
  assumes I: "conn_column I ok ready content st img" and L: "lib_ok L pd out" "flushes L"
    and n: "0 < n" "n \<le> 100000000" and k: "cs \<noteq> []" "length cs \<le> 1000000"
    and fit: "list_all2 (\<lambda>d c. ok c \<and> ready d c \<and> length (content c) = n) (ca_cols t) cs"
    and codes: "dk < 2 ^ 64" "ek < 2 ^ 64" "cl_code L (word_of_nat dk) = SC_Data" "cl_code L (word_of_nat ek) = SC_EndOfStream"
    and t: "cn_state (ca_conn t) = StateReady" "cn_ctx (ca_conn t) = []" "\<not> cf_compression (cn_cfg (ca_conn t))"
      "pd (cn_reader (ca_conn t)) = conn_column.response I st img L (cn_revision (ca_conn t)) dk ek (int n) cs @ rest"
  shows "\<exists>t'. Select L (I (cl_reader L) (cl_writer L) (cl_buffer L)) body t = Some (Ok (), t') \<and> ca_rows t' = int n \<and>
    map content (ca_cols t') = map content cs \<and> pd (cn_reader (ca_conn t')) = rest \<and> cn_state (ca_conn t') = StateReady"
proof -
  let ?I = "I (cl_reader L) (cl_writer L) (cl_buffer L)"
  define t1 where "t1 = t\<lparr>ca_rows := 0, ca_conn := (ca_conn t)\<lparr>cn_state := StateBusy\<rparr>\<rparr>"
  obtain c where c: "send_query L body (ca_conn t1) = Some (Ok (), c)" "sent (ca_conn t1) c" using send_query_ok [OF L(2)] by blast
  have "\<exists>r ds'. iloop (select_body L ?I) (t1\<lparr>ca_conn := c\<rparr>) =
      Some (Ok (), (t1\<lparr>ca_conn := c\<rparr>)\<lparr>ca_conn := (ca_conn (t1\<lparr>ca_conn := c\<rparr>))\<lparr>cn_reader := r\<rparr>, ca_cols := ds',
        ca_rows := ca_rows (t1\<lparr>ca_conn := c\<rparr>) + int n\<rparr>) \<and> map content ds' = map content cs \<and> pd r = rest"
    by (rule conn_column.loop_response [OF I L(1) n k _ codes(1,3,2,4)]) (use fit t c(2) in \<open>auto simp: t1_def sent_def\<close>)
  then obtain r ds' where
    l: "iloop (select_body L ?I) (t1\<lparr>ca_conn := c\<rparr>) = Some (Ok (), t1\<lparr>ca_conn := c\<lparr>cn_reader := r\<rparr>, ca_cols := ds', ca_rows := int n\<rparr>)"
      "map content ds' = map content cs" "pd r = rest" by (auto simp: t1_def)
  have "ca_with_lock (iseq (on_conn (send_query L body)) (iloop (select_body L ?I))) (t\<lparr>ca_rows := 0\<rparr>) =
      Some (Ok (), t1\<lparr>ca_conn := conn_unlock (c\<lparr>cn_reader := r\<rparr>), ca_cols := ds', ca_rows := int n\<rparr>)"
    using t(1) c(1) l(1) by (simp add: ca_with_lock_def on_conn_def conn_lock_def t1_def ibind_def ifinally_def)
  with l(2,3) show ?thesis by (simp add: Select_def conn_unlock_def unlock_state_def)
qed

theorem select_response_witness:
  "\<exists>t'. Select list_lib (column_of list_ctypes (base_ops uint8_t) list_reader list_writer list_buffer) ''SELECT c FROM t''
     \<lparr> ca_conn = list_conn ([1, 0, 1, 0, 2, 255, 255, 255, 255, 0, 1, 0, 1, 99, 5, 85, 73, 110, 116, 56, 0] @
         [1, 0, 1, 0, 2, 255, 255, 255, 255, 0, 1, 2, 1, 99, 5, 85, 73, 110, 116, 56, 0, 7, 9] @ [5]),
       ca_cols = [new_data_col ''c''], ca_rows = 0 \<rparr> = Some (Ok (), t') \<and>
     ca_rows t' = 2 \<and> map dc_data (ca_cols t') = [[7, 9]] \<and> cn_reader (ca_conn t') = [] \<and> cn_state (ca_conn t') = StateReady"
proof -
  let ?c = "(new_data_col ''c'')\<lparr>dc_data := [7, 9 :: byte]\<rparr>"
  note I = uint8_col.col.plain.conn_column_axioms [of list_ctypes]
  have u: "uint8_col.col.cc_ok TYPE(byte list) TYPE(byte list) list_ctypes ?c"
    unfolding uint8_col.col.cc_ok_def
    by (simp add: base_ops_def data_image_def word_layout_def base_type_def new_data_col_def)
  have f: "flushes list_lib" by (simp add: flushes_def)
  have m: "unat (- 1 :: u32) = 4294967295" by (simp add: unsigned_minus_1_eq_mask mask_eq_exp_minus_1)
  have "conn_column.response (column_of list_ctypes (base_ops uint8_t)) (\<lambda>_. []) (\<lambda>c. data_image uint8_t (dc_data c)) list_lib 54460 1 5 (int 2) [?c] =
      [1, 0, 1, 0, 2, 255, 255, 255, 255, 0, 1, 0, 1, 99, 5, 85, 73, 110, 116, 56, 0] @
      [1, 0, 1, 0, 2, 255, 255, 255, 255, 0, 1, 2, 1, 99, 5, 85, 73, 110, 116, 56, 0, 7, 9] @ [5]"
    unfolding conn_column.response_def [OF I] conn_column.header_image_def [OF I] conn_column.block_image_def [OF I]
      conn_column.column_image_def [OF I]
    by (simp add: table_image_def info_image_def start_image_def str_wire_def m le_enc_numeral
        column_of_def base_ops_def base_type_def new_data_col_def word_layout_def str_bytes_def)
  then show ?thesis
    using select_response [OF I list_lib_ok f, where n = 2 and cs = "[?c]" and dk = 1 and ek = 5 and rest = "[]" and body = "''SELECT c FROM t''"
      and t = "\<lparr> ca_conn = list_conn ([1, 0, 1, 0, 2, 255, 255, 255, 255, 0, 1, 0, 1, 99, 5, 85, 73, 110, 116, 56, 0] @
         [1, 0, 1, 0, 2, 255, 255, 255, 255, 0, 1, 2, 1, 99, 5, 85, 73, 110, 116, 56, 0, 7, 9] @ [5]),
       ca_cols = [new_data_col ''c''], ca_rows = 0 \<rparr>"] u
    by (simp add: uint8_col.col.cc_ready_def new_data_col_def list_code_def)
      (simp add: list_conn_def)
qed

end
