(* ===== verification/Conn_Lock.thy ===== *)
theory Conn_Lock
  imports Conn_Blocks
begin

text \<open>
  What the lock of a connection guarantees under any interleaving of its critical sections with
  \<open>Close\<close> and the exported \<open>Unlock\<close>; that \<open>Connect\<close> gives a ready connection or an error; and that
  every error of package \<open>conn\<close> is a \<open>conn.Error\<close>, which the pool's retry relies on.
\<close>

section \<open>Interleavings\<close>


inductive_simps conn_run_snoc: "conn_run c (es @ [e]) c'"







section \<open>Errors\<close>

definition conn_error :: "error \<Rightarrow> bool" where
  "conn_error e \<longleftrightarrow> (\<exists>k m c i. e = Conn_error k m c i)"

definition raises :: "('s, 'a) io \<Rightarrow> bool" where
  "raises m \<longleftrightarrow> (\<forall>s e s'. m s = Some (Err e, s') \<longrightarrow> conn_error e)"

named_theorems raises_intros \<open>operations whose errors are conn.Error values\<close>

lemma conn_error_nerr [simp]: "conn_error (nerr k m e)" "conn_error (perr k m)"
  by (simp_all add: conn_error_def nerr_def perr_def)

lemma raises_basic [raises_intros]:
  "raises (iret x)" "conn_error e \<Longrightarrow> raises (ifail e)" "raises (imodify f)" "raises (iget g)"
  by (auto simp: raises_def)

lemma raises_iwrap [raises_intros]: "(\<And>e. conn_error (f e)) \<Longrightarrow> raises (iwrap f m)"
proof (unfold raises_def, intro allI impI)
  fix s e s' assume f: "\<And>e. conn_error (f e)" and "iwrap f m s = Some (Err e, s')"
  then obtain x where "m s = Some (x, s')" "(case x of Err e \<Rightarrow> Err (f e) | y \<Rightarrow> y) = Err e" by (auto simp: iwrap_def)
  then show "conn_error e" using f by (cases x) auto
qed

lemma raises_ibind [raises_intros]: "raises m \<Longrightarrow> (\<And>x. raises (k x)) \<Longrightarrow> raises (ibind m k)"
  unfolding raises_def ibind_def by (auto split: option.splits go.splits)

lemma raises_ifinally [raises_intros]: "raises m \<Longrightarrow> raises (ifinally m f)"
  by (auto simp: raises_def ifinally_def)

lemma raises_iloop [raises_intros]:
  fixes body :: "('s, 'a option) io"
  assumes "raises body" shows "raises (iloop body)"
proof -
  have "raises b \<longrightarrow> (\<forall>e. fst y = Err e \<longrightarrow> conn_error e)" if "iloop b s = Some y" for b and s :: 's and y :: "'a go \<times> 's"
    using that
  proof (rule iloop.raw_induct [where P = "\<lambda>b s y. raises b \<longrightarrow> (\<forall>e. fst y = Err e \<longrightarrow> conn_error e)", rotated])
    fix f b and s :: 's and y :: "'a go \<times> 's"
    assume IH: "\<And>b s y. f b s = Some y \<Longrightarrow> raises b \<longrightarrow> (\<forall>e. fst y = Err e \<longrightarrow> conn_error e)"
      and y: "Option.bind (b s) (\<lambda>(x, s'). case x of Ok None \<Rightarrow> f b s' | Ok (Some a) \<Rightarrow> Some (Ok a, s')
        | Err e \<Rightarrow> Some (Err e, s') | Panic p \<Rightarrow> Some (Panic p, s')) = Some y"
    from y obtain x s' where b: "b s = Some (x, s')" by (cases "b s") auto
    show "raises b \<longrightarrow> (\<forall>e. fst y = Err e \<longrightarrow> conn_error e)"
    proof (cases x)
      case (Ok v)
      with IH [of b s' y] b y show ?thesis by (cases v) auto
    next
      case (Err e')
      with b y have "y = (Err e', s')" "b s = Some (Err e', s')" by simp_all
      then show ?thesis unfolding raises_def by fastforce
    next
      case (Panic p)
      with b y show ?thesis by auto
    qed
  qed
  then show ?thesis using assms unfolding raises_def by fastforce
qed

lemma raises_goon [raises_intros]: "raises m \<Longrightarrow> raises (goon m)"
  unfolding goon_def by (intro raises_intros)

lemma raises_when_has [raises_intros]: "raises m \<Longrightarrow> raises (when_has L f m)"
  by (simp add: raises_def when_has_def iwhen_def)

lemma raises_with_compression [raises_intros]: "raises m \<Longrightarrow> raises (with_compression L m)"
  by (auto simp: raises_def with_compression_def ifinally_def)

lemma raises_ca_with_compression [raises_intros]: "raises m \<Longrightarrow> raises (ca_with_compression L m)"
  by (auto simp: raises_def ca_with_compression_def ifinally_def)

lemma raises_on_conn [raises_intros]: "raises m \<Longrightarrow> raises (on_conn m)"
  by (auto simp: raises_def on_conn_def)

lemma raises_chain [raises_intros]: "raises (chain L f)" "raises (chainw L b)" "raises (chain_blank L)"
  by (auto simp: raises_def chain_def chainw_def chain_blank_def)

lemma raises_iignore [raises_intros]: "raises (iignore m)"
proof -
  have "(case x of Panic p \<Rightarrow> Panic p | _ \<Rightarrow> Ok ()) \<noteq> Err e" for x :: "'b go" and e by (cases x) simp_all
  then show ?thesis by (auto simp: raises_def iignore_def)
qed

lemma raises_ctx_done [raises_intros]: "raises ctx_done"
  by (auto simp: raises_def ctx_done_def split: list.splits)

lemma raises_sendCancel [raises_intros]: "raises (sendCancel L)"
  unfolding sendCancel_def by (intro raises_intros)

lemma raises_check_ctx [raises_intros]: "raises (check_ctx L)"
  unfolding check_ctx_def by (intro raises_intros) (auto intro!: raises_intros split: option.split)

lemma raises_packets [raises_intros]:
  "raises (read_code L m)" "raises (table_columns L)" "raises (handle_progress L)" "raises (drop_profile L)"
  "raises (handle_profile L)" "raises (exception_packet L)" "raises (block_info L m)" "raises (send_query L body)"
  unfolding read_code_def table_columns_def handle_progress_def handle_profile_def drop_profile_def exception_packet_def block_info_def
    send_query_def server_error_def
  by (auto intro!: raises_intros simp: conn_error_def nerr_def)

lemma conn_error_server [simp]: "conn_error (server_error x)" "conn_error (insert_error x)"
  by (cases x; simp add: server_error_def insert_error_def conn_error_def)+

lemma raises_exception_rev: "(\<And>x. conn_error (f x)) \<Longrightarrow> raises (exception_packet_rev L f)"
  unfolding exception_packet_rev_def by (intro raises_intros) simp_all

lemma raises_skipBlock [raises_intros]: "raises (skipBlock L c)"
  unfolding skipBlock_def by (intro raises_intros) simp_all

lemma raises_exec_packet [raises_intros]: "raises (exec_packet L c)"
  unfolding exec_packet_def by (cases c) (auto intro!: raises_intros)

lemma raises_column_infos [raises_intros]: "raises (column_infos L n)"
proof (induction n)
  case (Suc n)
  then show ?case unfolding column_infos.simps by (intro raises_intros) simp_all
qed (simp add: raises_basic del: iret_apply)

lemma raises_readColumnInfo [raises_intros]: "raises (readColumnInfo L)"
proof -
  have b: "raises (readColumnInfoBlock L)"
    unfolding readColumnInfoBlock_def by (intro raises_intros) (auto intro!: raises_intros)
  have "raises (info_packet L c)" for c
    unfolding info_packet_def
    by (cases c) (auto intro!: raises_intros raises_exception_rev b)
  then show ?thesis unfolding readColumnInfo_def by (intro raises_intros)
qed

lemma raises_conn_lock [raises_intros]: "raises conn_lock"
  by (auto simp: raises_def conn_lock_def split: option.splits)

lemma raises_block_columns [raises_intros]: "raises (block_columns L I rows i n)"
proof (induction n arbitrary: i)
  case (Suc n)
  have "raises (block_column L I str rows c)" for str c
    unfolding block_column_def decode_state_def by (intro raises_intros) (auto intro!: raises_intros split: option.split)
  then show ?case unfolding block_columns.simps by (intro raises_intros Suc)
qed (simp add: raises_basic del: iret_apply)

lemma raises_select_packet [raises_intros]: "raises (select_packet L I c)"
proof -
  have "raises (block_size L)" unfolding block_size_def by (intro raises_intros) (auto intro!: raises_intros)
  then have "raises (handleDataBlock L I)"
    unfolding handleDataBlock_def by (intro raises_intros) (auto intro!: raises_intros split: prod.split)
  then show ?thesis unfolding select_packet_def by (cases c) (auto intro!: raises_intros)
qed

lemma raises_insert_loop:
  "(\<And>x. conn_error (f x)) \<Longrightarrow> raises (iloop (insert_body L m f u))"
proof -
  assume "\<And>x. conn_error (f x)"
  then have "raises (insert_packet L f u c)" for c
    unfolding insert_packet_def by (cases c) (auto intro!: raises_intros raises_exception_rev)
  then show ?thesis unfolding insert_body_def by (intro raises_intros)
qed

text \<open>The methods \<open>Len\<close> and \<open>WriteColumn\<close> of a column have no error result.\<close>

definition no_errors :: "('r, 'w, 'c) column \<Rightarrow> bool" where
  "no_errors I \<longleftrightarrow> (\<forall>c e. co_len I c \<noteq> Err e) \<and> (\<forall>c w e. co_write I c w \<noteq> Err e)"

lemma go_bind_eq_Err: "go_bind m f = Err e \<longleftrightarrow> m = Err e \<or> (\<exists>x. m = Ok x \<and> f x = Err e)"
  by (cases m) auto

lemma write_columns_error:
  "no_errors I \<Longrightarrow> write_columns L I st v cs w \<noteq> (Err e, y)"
proof (induction cs arbitrary: w y)
  case (Cons c cs)
  then have "write_column L I st v c w \<noteq> (Err e, w')" for w'
    by (auto simp: write_column_def no_errors_def Let_def split: go.splits)
  with Cons show ?case by (auto split: go.splits prod.splits)
qed simp

lemma raises_write_block: "no_errors I \<Longrightarrow> raises (write_block L I st rows)"
  unfolding write_block_def
proof (intro raises_ibind)
  assume n: "no_errors I"
  show "raises (\<lambda>s. case write_columns L I st (cn_revision (ca_conn s)) (ca_cols s) (cn_writer (ca_conn s)) of
        (x, cs, w) \<Rightarrow> Some (x, s\<lparr>ca_cols := cs, ca_conn := (ca_conn s)\<lparr>cn_writer := w\<rparr>\<rparr>))"
    by (auto simp: raises_def write_columns_error [OF n] split: prod.splits)
qed (auto simp: raises_def on_conn_def chain_def)

lemma insert_rows_error: "no_errors I \<Longrightarrow> insert_rows I msg cs = Err e \<Longrightarrow> conn_error e"
proof -
  assume n: "no_errors I" and i: "insert_rows I msg cs = Err e"
  have "conn_error e'" if "check_lengths I rows ds = Err e'" for rows ds e'
    using that
  proof (induction ds)
    case (Cons d ds)
    then show ?case using n by (cases "co_len I d") (auto simp: no_errors_def split: if_splits)
  qed simp
  with n i show ?thesis
    by (cases cs) (auto simp: insert_rows_def no_errors_def go_bind_eq_Err split: if_splits)
qed

text \<open>
  C21.
  The errors of the package are \<open>conn.Error\<close> values with a kind, which \<open>errors.As\<close> in the pool relies
  on: every error of \<open>Exec\<close>, \<open>Ping\<close>, \<open>Select\<close>, \<open>Insert\<close> and \<open>Connect\<close> is one. And what \<open>Connect\<close> gives
  otherwise is a ready connection with the configuration it was called with.
\<close>

theorem errors_have_kinds:
  assumes "no_errors I"
  shows "(Exec L body s = Some (Err e, s') \<longrightarrow> conn_error e) \<and> (Ping L s = Some (Err e, s') \<longrightarrow> conn_error e) \<and>
    (Select L I body t = Some (Err e, t') \<longrightarrow> conn_error e) \<and> (Insert L I body t = Some (Err e, t') \<longrightarrow> conn_error e) \<and>
    (Connect L cfg dial = Err e \<longrightarrow> conn_error e) \<and>
    (Connect L cfg dial = Ok c \<longrightarrow> cn_state c = StateReady \<and> cn_cfg c = cfg)"
proof (intro conjI impI)
  have "raises (Exec L body)" unfolding Exec_def with_lock_def exec_body_def by (intro raises_intros)
  then show "Exec L body s = Some (Err e, s') \<Longrightarrow> conn_error e" by (auto simp: raises_def)
  have "raises (Ping L)"
    unfolding Ping_def with_lock_def by (intro raises_intros) (auto intro!: raises_intros)
  then show "Ping L s = Some (Err e, s') \<Longrightarrow> conn_error e" by (auto simp: raises_def)
  have "raises (Select L I body)" unfolding Select_def ca_with_lock_def select_body_def by (intro raises_intros)
  then show "Select L I body t = Some (Err e, t') \<Longrightarrow> conn_error e" by (auto simp: raises_def)
  have "raises (go_io (\<lambda>s. insert_rows I m (ca_cols s)))" for m
    using insert_rows_error [OF assms] by (auto simp: raises_def go_io_def)
  then have "raises (Insert L I body)"
    unfolding Insert_def ca_with_lock_def
    by (intro raises_intros raises_write_block assms raises_insert_loop) simp_all
  then show "Insert L I body t = Some (Err e, t') \<Longrightarrow> conn_error e" by (auto simp: raises_def)
  show "Connect L cfg dial = Err e \<Longrightarrow> conn_error e"
    by (auto simp: Connect_def Let_def conn_error_def nerr_def perr_def split: sum.splits prod.splits option.splits go.splits scode.splits if_splits)
  show "Connect L cfg dial = Ok c \<Longrightarrow> cn_state c = StateReady" "Connect L cfg dial = Ok c \<Longrightarrow> cn_cfg c = cfg"
    by (auto simp: Connect_def Let_def split: sum.splits prod.splits option.splits go.splits scode.splits if_splits)
qed

lemma list_column_no_errors: "no_errors (column_of C I P W B)"
  by (simp add: no_errors_def column_of_def)

theorem errors_have_kinds_witness:
  "Ping list_lib (list_conn [5]) = Some (Err (perr KindProtocol ''unexpected ping response''),
     (list_conn [])\<lparr>cn_writer := [4]\<rparr>) \<and> conn_error (perr KindProtocol ''unexpected ping response'')"
proof -
  have "Ping list_lib (list_conn [5]) = Some (Err (perr KindProtocol ''unexpected ping response''), (list_conn [])\<lparr>cn_writer := [4]\<rparr>)"
  proof -
    have "rd_uvarint list_reader [5] = (Ok 5, [])"
      using yieldsD [OF rd_uvarint_yields [OF list_reader_ok, of 5], of "[5]" "[]"] by simp
    then show ?thesis
      by (simp add: Ping_def with_lock_def conn_lock_def chain_def flush_def read_code_def on_reader_def lift_rdm_def ibind_def
          iwrap_def ifinally_def list_conn_def list_code_def list_writer_def list_buffer_def conn_unlock_def unlock_state_def)
  qed
  then show ?thesis
    using errors_have_kinds [OF list_column_no_errors, of list_lib _ "list_conn [5]" "perr KindProtocol ''unexpected ping response''"] by blast
qed

end
