(* ===== verification/Conn_Stream.thy ===== *)
theory Conn_Stream
  imports Conn_Lock
begin

text \<open>
  \<^verbatim>\<open>conn/stream.go\<close>: \<open>SelectStream\<close> and \<open>InsertStream\<close>. A stream keeps the connection locked from its
  creation to its \<open>Close\<close>; the context of the call is that of the connection state.
\<close>

section \<open>SelectStream\<close>

text \<open>
  A release function is a closure: it changes the connection and whatever else it has captured, a
  state \<open>'x\<close>, and returns or panics with a message.
\<close>

type_synonym ('r, 'w, 'k, 'p, 'x) release = "('r, 'w, 'k, 'p) conn \<times> 'x \<Rightarrow> string option \<times> ('r, 'w, 'k, 'p) conn \<times> 'x"

definition outcome :: "string option \<Rightarrow> unit go" where
  "outcome p = (case p of None \<Rightarrow> Ok () | Some m \<Rightarrow> Panic m)"

lemma outcome_simps [simp]: "outcome None = Ok ()" "outcome (Some m) = Panic m"
  by (simp_all add: outcome_def)

text \<open>\<open>release: c.unlock\<close>\<close>

definition release_conn :: "('r, 'w, 'k, 'p, 'x) release" where
  "release_conn = (\<lambda>(c, r). (None, conn_unlock c, r))"

text \<open>
  The fields of the struct: \<open>c\<close> and \<open>cols\<close> are the connection and the columns of \<open>ss_call\<close>, whose row
  count is \<open>blockRows\<close>.
\<close>

record ('r, 'w, 'k, 'p, 'c, 'x) sstream =
  ss_call :: "('r, 'w, 'k, 'p, 'c) call"
  ss_bound :: bool
  ss_done :: bool
  ss_closed :: bool
  ss_err :: "error option"
  ss_release :: "('r, 'w, 'k, 'p, 'x) release option"
  ss_blockCols :: int

definition new_sstream :: "('r, 'w, 'k, 'p) conn \<Rightarrow> ('r, 'w, 'k, 'p, 'c, 'x) sstream" where
  "new_sstream s = \<lparr> ss_call = \<lparr> ca_conn = s, ca_cols = [], ca_rows = 0 \<rparr>, ss_bound = False, ss_done = False,
     ss_closed = False, ss_err = None, ss_release = Some release_conn, ss_blockCols = 0 \<rparr>"

definition unlock_on_error :: "(('r, 'w, 'k, 'p) conn, 'a) io \<Rightarrow> (('r, 'w, 'k, 'p) conn, 'a) io" where
  "unlock_on_error m = (\<lambda>s. map_option (\<lambda>(x, s'). (x, case x of Err e \<Rightarrow> conn_unlock s' | _ \<Rightarrow> s')) (m s))"

definition SelectStream :: "('r, 'w, 'k, 'p) chlib \<Rightarrow> string \<Rightarrow> (('r, 'w, 'k, 'p) conn, ('r, 'w, 'k, 'p, 'c, 'x) sstream) io" where
  "SelectStream L body = iseq conn_lock (iseq (unlock_on_error (send_query L body)) (iget new_sstream))"

definition ss_Bind :: "'c list \<Rightarrow> ('r, 'w, 'k, 'p, 'c, 'x) sstream \<Rightarrow> ('r, 'w, 'k, 'p, 'c, 'x) sstream" where
  "ss_Bind cols s = s\<lparr>ss_call := (ss_call s)\<lparr>ca_cols := cols\<rparr>, ss_bound := True\<rparr>"

definition on_call :: "(('r, 'w, 'k, 'p, 'c) call, 'a) io \<Rightarrow> (('r, 'w, 'k, 'p, 'c, 'x) sstream, 'a) io" where
  "on_call m = (\<lambda>s. map_option (\<lambda>(x, c). (x, s\<lparr>ss_call := c\<rparr>)) (m (ss_call s)))"

definition str_skip :: "('r, 'w, 'k, 'p) chlib \<Rightarrow> 'r \<Rightarrow> unit go \<times> 'r" where
  "str_skip L = rbind (rd_str (cl_reader L)) (\<lambda>_. rret ())"

definition stream_start :: "('r, 'w, 'k, 'p) chlib \<Rightarrow> string \<Rightarrow> (('r, 'w, 'k, 'p) conn, unit) io" where
  "stream_start L what =
     iseq (iwrap (nerr KindProtocol (what @ '' name'')) (rd (str_skip L)))
     (iseq (iwrap (nerr KindProtocol (what @ '' type'')) (rd (str_skip L)))
     (when_has L F_CustomSerialization
        (iseq (iwrap (nerr KindProtocol (what @ '' custom serialization'')) (rd (rd_bool (cl_reader L)))) (iret ()))))"

fun stream_skip_columns :: "('r, 'w, 'k, 'p) chlib \<Rightarrow> nat \<Rightarrow> (('r, 'w, 'k, 'p) conn, unit) io" where
  "stream_skip_columns L 0 = iret ()"
| "stream_skip_columns L (Suc n) = iseq (stream_start L ''read skip column'') (stream_skip_columns L n)"

fun stream_columns :: "('r, 'w, 'k, 'p) chlib \<Rightarrow> ('r, 'w, 'c) column \<Rightarrow> int \<Rightarrow> nat \<Rightarrow> nat \<Rightarrow> (('r, 'w, 'k, 'p, 'c) call, unit) io" where
  "stream_columns L I rows i 0 = iret ()"
| "stream_columns L I rows i (Suc n) =
     iseq (on_conn (stream_start L ''read column''))
     (ibind (iget (\<lambda>s. ca_cols s ! i)) (\<lambda>c.
      ibind (on_conn (iwrap (nerr KindProtocol ''decode column'') (rd (co_decode I c rows)))) (\<lambda>c'.
      iseq (imodify (\<lambda>s. s\<lparr>ca_cols := (ca_cols s)[i := c']\<rparr>))
           (stream_columns L I rows (Suc i) n))))"

definition stream_block :: "('r, 'w, 'k, 'p) chlib \<Rightarrow> ('r, 'w, 'c) column \<Rightarrow> (('r, 'w, 'k, 'p, 'c, 'x) sstream, bool option) io" where
  "stream_block L I =
     iseq (on_call (on_conn (when_has L F_TempTables (iwrap (nerr KindProtocol ''read temp table name'') (rd (str_skip L))))))
     (iseq (on_call (on_conn (block_info L ''decode block info'')))
     (ibind (on_call (on_conn (block_size L))) (\<lambda>(cols, rows).
      if rows = 0 then goon (on_call (on_conn (stream_skip_columns L (nat cols))))
      else ibind (iget (\<lambda>s. length (ca_cols (ss_call s)))) (\<lambda>n.
        if int n \<noteq> cols then ifail (perr KindProtocol ''column count mismatch'')
        else iseq (on_call (stream_columns L I rows 0 n))
            (iseq (imodify (\<lambda>s. s\<lparr>ss_blockCols := cols, ss_call := (ss_call s)\<lparr>ca_rows := ca_rows (ss_call s) + rows\<rparr>\<rparr>))
                  (iret (Some True)))))))"

text \<open>\<open>cancel\<close>: the cancel packet, then everything up to the end of the stream or an error.\<close>

definition drain_packet :: "('r, 'w, 'k, 'p) chlib \<Rightarrow> scode \<Rightarrow> (('r, 'w, 'k, 'p) conn, unit option) io" where
  "drain_packet L code = (case code of
       SC_EndOfStream \<Rightarrow> iret (Some ())
     | SC_Data \<Rightarrow> goon (skipBlock L SC_Data)
     | SC_Progress \<Rightarrow> goon (on_revision (cl_progress L))
     | SC_Profile \<Rightarrow> goon (on_revision (cl_profile L))
     | SC_Exception \<Rightarrow> goon (on_revision (cl_exception L))
     | SC_ProfileEvents \<Rightarrow> goon (skipBlock L SC_ProfileEvents)
     | SC_Log \<Rightarrow> goon (skipBlock L SC_ProfileEvents)
     | SC_Totals \<Rightarrow> goon (skipBlock L SC_Totals)
     | SC_Extremes \<Rightarrow> goon (skipBlock L SC_Totals)
     | SC_TableColumns \<Rightarrow> goon (on_revision (cl_table_columns L))
     | _ \<Rightarrow> iret None)"

definition drain :: "('r, 'w, 'k, 'p) chlib \<Rightarrow> (('r, 'w, 'k, 'p) conn, unit) io" where
  "drain L = iseq (sendCancel L) (iignore (iloop (ibind (read_code L ''read server code'') (drain_packet L))))"

definition ss_check_ctx :: "('r, 'w, 'k, 'p) chlib \<Rightarrow> (('r, 'w, 'k, 'p) conn, unit) io" where
  "ss_check_ctx L = ibind ctx_done (\<lambda>d. case d of
       None \<Rightarrow> iret ()
     | Some e \<Rightarrow> iseq (drain L) (ifail (nerr KindInternal ''context canceled'' e)))"

definition next_packet :: "('r, 'w, 'k, 'p) chlib \<Rightarrow> ('r, 'w, 'c) column \<Rightarrow> scode \<Rightarrow> (('r, 'w, 'k, 'p, 'c, 'x) sstream, bool option) io" where
  "next_packet L I code = (case code of
       SC_Data \<Rightarrow> stream_block L I
     | SC_EndOfStream \<Rightarrow> iseq (imodify (\<lambda>s. s\<lparr>ss_done := True\<rparr>)) (iret (Some False))
     | SC_Exception \<Rightarrow> on_call (on_conn (exception_packet L))
     | SC_Progress \<Rightarrow> goon (on_call (on_conn (handle_progress L)))
     | SC_Profile \<Rightarrow> goon (on_call (on_conn (handle_profile L)))
     | SC_ProfileEvents \<Rightarrow> goon (on_call (on_conn (skipBlock L SC_ProfileEvents)))
     | SC_Log \<Rightarrow> goon (on_call (on_conn (skipBlock L SC_Log)))
     | SC_Totals \<Rightarrow> goon (on_call (on_conn (skipBlock L SC_Totals)))
     | SC_Extremes \<Rightarrow> goon (on_call (on_conn (skipBlock L SC_Totals)))
     | SC_TableColumns \<Rightarrow> goon (on_call (on_conn (table_columns L)))
     | _ \<Rightarrow> iret None)"

definition next_body :: "('r, 'w, 'k, 'p) chlib \<Rightarrow> ('r, 'w, 'c) column \<Rightarrow> (('r, 'w, 'k, 'p, 'c, 'x) sstream, bool option) io" where
  "next_body L I = iseq (on_call (on_conn (ss_check_ctx L)))
     (ibind (on_call (on_conn (read_code L ''read server code''))) (next_packet L I))"

text \<open>Every error of the loop is stored: \<open>s.err = ...; s.done = true; return false\<close>.\<close>

definition store_error :: "(('r, 'w, 'k, 'p, 'c, 'x) sstream, bool) io \<Rightarrow> (('r, 'w, 'k, 'p, 'c, 'x) sstream, bool) io" where
  "store_error m = (\<lambda>s. map_option (\<lambda>(x, s'). case x of
       Err e \<Rightarrow> (Ok False, s'\<lparr>ss_err := Some e, ss_done := True\<rparr>)
     | y \<Rightarrow> (y, s')) (m s))"

definition Next :: "('r, 'w, 'k, 'p) chlib \<Rightarrow> ('r, 'w, 'c) column \<Rightarrow> (('r, 'w, 'k, 'p, 'c, 'x) sstream, bool) io" where
  "Next L I = (\<lambda>s.
     if ss_closed s \<or> ss_done s then Some (Ok False, s)
     else if \<not> ss_bound s
          then Some (Ok False, s\<lparr>ss_err := Some (perr KindProtocol ''Bind must be called before Next''), ss_done := True\<rparr>)
          else store_error (iloop (next_body L I)) s)"

definition ss_Cancel :: "('r, 'w, 'k, 'p) chlib \<Rightarrow> (('r, 'w, 'k, 'p, 'c, 'x) sstream, unit) io" where
  "ss_Cancel L = (\<lambda>s.
     if ss_closed s \<or> ss_done s then Some (Ok (), s)
     else iseq (on_call (on_conn (drain L))) (imodify (\<lambda>s. s\<lparr>ss_done := True\<rparr>)) s)"

text \<open>The methods that call the release function act on what it has captured too.\<close>

definition ss_Release :: "('r, 'w, 'k, 'p, 'c, 'x) sstream \<times> 'x \<Rightarrow> string option \<times> ('r, 'w, 'k, 'p, 'c, 'x) sstream \<times> 'x" where
  "ss_Release = (\<lambda>(s, r). case ss_release s of
       None \<Rightarrow> (None, s, r)
     | Some f \<Rightarrow> (case f (ca_conn (ss_call s), r) of (p, c, r') \<Rightarrow> (p, s\<lparr>ss_call := (ss_call s)\<lparr>ca_conn := c\<rparr>\<rparr>, r')))"

definition ss_SetRelease :: "('r, 'w, 'k, 'p, 'x) release \<Rightarrow> ('r, 'w, 'k, 'p, 'c, 'x) sstream \<Rightarrow> ('r, 'w, 'k, 'p, 'c, 'x) sstream" where
  "ss_SetRelease f s = s\<lparr>ss_release := Some f\<rparr>"

definition ss_Close :: "('r, 'w, 'k, 'p) chlib \<Rightarrow> (('r, 'w, 'k, 'p, 'c, 'x) sstream \<times> 'x, unit) io" where
  "ss_Close L = (\<lambda>(s, r).
     if ss_closed s then Some (Ok (), s, r)
     else map_option (\<lambda>(x, s). if is_panic x then (x, s, r) else apfst outcome (ss_Release (s, r)))
       ((if ss_done s then iret () else on_call (on_conn (drain L))) (s\<lparr>ss_closed := True\<rparr>)))"

section \<open>InsertStream\<close>

record ('r, 'w, 'k, 'p, 'c, 'x) istream =
  is_call :: "('r, 'w, 'k, 'p, 'c) call"
  is_bound :: bool
  is_closed :: bool
  is_release :: "('r, 'w, 'k, 'p, 'x) release option"

definition new_istream :: "('r, 'w, 'k, 'p) conn \<Rightarrow> ('r, 'w, 'k, 'p, 'c, 'x) istream" where
  "new_istream s = \<lparr> is_call = \<lparr> ca_conn = s, ca_cols = [], ca_rows = 0 \<rparr>, is_bound = False, is_closed = False,
     is_release = Some release_conn \<rparr>"

definition InsertStream :: "('r, 'w, 'k, 'p) chlib \<Rightarrow> string \<Rightarrow> (('r, 'w, 'k, 'p) conn, ('r, 'w, 'k, 'p, 'c, 'x) istream) io" where
  "InsertStream L body = iseq conn_lock (iseq (unlock_on_error (send_query L body))
     (iseq (unlock_on_error (readColumnInfo L)) (iget new_istream)))"

definition is_Bind :: "'c list \<Rightarrow> ('r, 'w, 'k, 'p, 'c, 'x) istream \<Rightarrow> ('r, 'w, 'k, 'p, 'c, 'x) istream" where
  "is_Bind cols s = s\<lparr>is_call := (is_call s)\<lparr>ca_cols := cols\<rparr>, is_bound := True\<rparr>"

definition on_icall :: "(('r, 'w, 'k, 'p, 'c) call, 'a) io \<Rightarrow> (('r, 'w, 'k, 'p, 'c, 'x) istream, 'a) io" where
  "on_icall m = (\<lambda>s. map_option (\<lambda>(x, c). (x, s\<lparr>is_call := c\<rparr>)) (m (is_call s)))"

definition is_Append :: "('r, 'w, 'k, 'p) chlib \<Rightarrow> ('r, 'w, 'c) column \<Rightarrow> (('r, 'w, 'k, 'p, 'c, 'x) istream, unit) io" where
  "is_Append L I = (\<lambda>s.
     if is_closed s then Some (Err (perr KindInternal ''stream is closed''), s)
     else if \<not> is_bound s then Some (Err (perr KindProtocol ''Bind must be called before Append''), s)
     else on_icall (ibind (go_io (\<lambda>t. insert_rows I ''no data to append'' (ca_cols t))) (\<lambda>rows.
            iseq (write_block L I False rows)
                 (iwrap (nerr KindNetwork ''flush append block'') (on_conn (flush L))))) s)"

definition is_releaseFn :: "('r, 'w, 'k, 'p, 'c, 'x) istream \<times> 'x \<Rightarrow> string option \<times> ('r, 'w, 'k, 'p, 'c, 'x) istream \<times> 'x" where
  "is_releaseFn = (\<lambda>(s, r). case is_release s of
       None \<Rightarrow> (None, s, r)
     | Some f \<Rightarrow> (case f (ca_conn (is_call s), r) of (p, c, r') \<Rightarrow> (p, s\<lparr>is_call := (is_call s)\<lparr>ca_conn := c\<rparr>\<rparr>, r')))"

definition is_SetRelease :: "('r, 'w, 'k, 'p, 'x) release \<Rightarrow> ('r, 'w, 'k, 'p, 'c, 'x) istream \<Rightarrow> ('r, 'w, 'k, 'p, 'c, 'x) istream" where
  "is_SetRelease f s = s\<lparr>is_release := Some f\<rparr>"

definition close_error :: "string \<times> int \<Rightarrow> error" where
  "close_error = (\<lambda>(m, c). Conn_error KindServer (m @ '' (code)'') c None)"

text \<open>Every return after the first guard calls the release function; a panic does not.\<close>

definition is_Close :: "('r, 'w, 'k, 'p) chlib \<Rightarrow> (('r, 'w, 'k, 'p, 'c, 'x) istream \<times> 'x, unit) io" where
  "is_Close L = (\<lambda>(s, r).
     if is_closed s then Some (Ok (), s, r)
     else map_option (\<lambda>(x, s). if is_panic x then (x, s, r)
          else (case is_releaseFn (s, r) of (p, sr) \<Rightarrow> (if p = None then x else outcome p, sr)))
       (on_icall (iseq (on_conn (chain_blank L))
         (iseq (iwrap (nerr KindNetwork ''flush end-of-data'') (on_conn (flush L)))
               (on_conn (iloop (insert_body L ''read insert response'' close_error ''unexpected server code in insert close'')))))
         (s\<lparr>is_closed := True\<rparr>)))"

section \<open>Streams return\<close>

definition stream_frame :: "('r, 'w, 'k, 'p, 'c, 'x) sstream \<Rightarrow> ('r, 'w, 'k, 'p, 'c, 'x) sstream \<Rightarrow> bool" where
  "stream_frame s s' \<longleftrightarrow> call_frame (ss_call s) (ss_call s') \<and> ss_closed s' = ss_closed s \<and> ss_release s' = ss_release s"

abbreviation stream_calm :: "('r \<Rightarrow> nat) \<Rightarrow> (('r, 'w, 'k, 'p, 'c, 'x) sstream, 'a) io \<Rightarrow> bool" where
  "stream_calm \<mu> m \<equiv> calm (\<lambda>s. \<mu> (cn_reader (ca_conn (ss_call s)))) stream_frame m"

named_theorems stream_intros \<open>operations that return and keep the stream's connection\<close>

lemma call_frame_refl [simp]: "call_frame s s"
  by (simp add: call_frame_def)

lemma stream_frame_reflp: "reflp stream_frame"
  by (simp add: reflp_def stream_frame_def)

lemma stream_frame_trans: "transp stream_frame"
  by (auto simp: transp_def stream_frame_def dest: transpD [OF call_frame_trans])

lemmas [stream_intros] = calm_iret [OF stream_frame_reflp] calm_ifail [OF stream_frame_reflp] calm_iget [OF stream_frame_reflp]
  calm_ibind [OF stream_frame_trans] calm_iwrap

lemma stream_goon [stream_intros]: "stream_calm \<mu> m \<Longrightarrow> stream_calm \<mu> (goon m)"
  unfolding goon_def by (intro stream_intros)

lemma stream_imodify:
  "(\<And>s. stream_frame s (f s) \<and> ca_conn (ss_call (f s)) = ca_conn (ss_call s)) \<Longrightarrow> stream_calm \<mu> (imodify f)"
  by (rule calm_imodify) auto

lemma stream_on_call:
  assumes "call_calm \<mu> m"
  shows "stream_calm \<mu> (on_call m :: (('r, 'w, 'k, 'p, 'c, 'x) sstream, 'a) io)"
  unfolding calm_def
proof
  fix s :: "('r, 'w, 'k, 'p, 'c, 'x) sstream"
  from calmD [OF assms, of "ss_call s"] obtain x c where "m (ss_call s) = Some (x, c)" "call_frame (ss_call s) c"
      "\<mu> (cn_reader (ca_conn c)) \<le> \<mu> (cn_reader (ca_conn (ss_call s)))" by auto
  then show "\<exists>x s'. on_call m s = Some (x, s') \<and> stream_frame s s' \<and>
      \<mu> (cn_reader (ca_conn (ss_call s'))) \<le> \<mu> (cn_reader (ca_conn (ss_call s)))"
    by (auto simp: on_call_def stream_frame_def)
qed

lemma stream_on_conn: "conn_calm \<mu> m \<Longrightarrow> stream_calm \<mu> (on_call (on_conn m))"
  by (intro stream_on_call call_on_conn)

lemma quiet_str_skip: "net_ok L \<mu> \<Longrightarrow> quiet \<mu> (str_skip L)"
  unfolding str_skip_def by (intro quiet_intros net_quiet)

lemma cc_stream_start: "net_ok L \<mu> \<Longrightarrow> conn_calm \<mu> (stream_start L what)"
  unfolding stream_start_def by (intro calm_intros cc_rd quiet_str_skip net_quiet)

lemma cc_stream_skip_columns: "net_ok L \<mu> \<Longrightarrow> conn_calm \<mu> (stream_skip_columns L n)"
proof (induction n)
  case (Suc n)
  then show ?case unfolding stream_skip_columns.simps by (intro calm_intros cc_stream_start)
qed (simp add: cc_iret del: iret_apply)

lemma call_stream_columns:
  assumes "net_ok L \<mu>" and "column_quiet I \<mu>"
  shows "call_calm \<mu> (stream_columns L I rows i n)"
proof (induction n arbitrary: i)
  case (Suc n)
  have "quiet \<mu> (co_decode I c rows)" for c using assms(2) by (simp add: column_quiet_def)
  then show ?case
    unfolding stream_columns.simps
    by (intro call_intros call_on_conn calm_intros cc_rd cc_stream_start assms call_imodify Suc) (simp_all add: call_frame_def)
qed (simp add: calm_iret [OF call_frame_reflp] del: iret_apply)

lemma cc_drain [calm_intros]:
  fixes L :: "('r, 'w, 'k, 'p) chlib"
  assumes "net_ok L \<mu>" shows "conn_calm \<mu> (drain L :: (('r, 'w, 'k, 'p) conn, unit) io)"
proof -
  have "conn_calm \<mu> (drain_packet L c :: (('r, 'w, 'k, 'p) conn, unit option) io)" for c
    unfolding drain_packet_def
    by (cases c) (auto intro!: calm_intros cc_skipBlock cc_on_revision net_quiet assms)
  then show ?thesis unfolding drain_def by (intro calm_intros cc_packet_loop assms)
qed

lemma cc_ss_check_ctx:
  assumes "net_ok L \<mu>" shows "conn_calm \<mu> (ss_check_ctx L)"
  unfolding ss_check_ctx_def by (intro calm_intros) (auto intro!: calm_intros assms split: option.split)

lemma stream_block_calm:
  assumes "net_ok L \<mu>" and "column_quiet I \<mu>"
  shows "stream_calm \<mu> (stream_block L I)"
  unfolding stream_block_def
  by (auto intro!: stream_intros stream_on_call call_on_conn calm_intros cc_rd quiet_str_skip cc_block_info cc_block_size
      cc_stream_skip_columns call_stream_columns assms stream_imodify split: prod.split simp: stream_frame_def call_frame_def)

lemma next_packet_calm:
  assumes "net_ok L \<mu>" and "column_quiet I \<mu>"
  shows "stream_calm \<mu> (next_packet L I c)"
  unfolding next_packet_def
  by (cases c) (auto intro!: stream_intros stream_on_conn stream_block_calm cc_packets cc_skipBlock assms stream_imodify
      simp: stream_frame_def)

lemma shrinks_on_call:
  "shrinks (\<lambda>s. \<mu> (cn_reader (ca_conn s))) m \<Longrightarrow> shrinks (\<lambda>s. \<mu> (cn_reader (ca_conn (ss_call s)))) (on_call m)"
  by (auto simp: shrinks_def on_call_def)

lemma shrinks_code: "net_ok L \<mu> \<Longrightarrow> shrinks (\<lambda>s. \<mu> (cn_reader s)) (read_code L m)"
  using shrinks_read_code [of L \<mu> iret m] by (simp add: ibind_iret_right cc_iret)

lemma next_loop_calm:
  assumes "net_ok L \<mu>" and "column_quiet I \<mu>"
  shows "stream_calm \<mu> (iloop (next_body L I))"
  unfolding next_body_def
proof (rule calm_iloop [OF stream_frame_trans])
  note c = cc_read_code [OF assms(1)] cc_ss_check_ctx [OF assms(1)]
  show "stream_calm \<mu> (iseq (on_call (on_conn (ss_check_ctx L)))
     (ibind (on_call (on_conn (read_code L ''read server code''))) (next_packet L I)))"
    by (intro stream_intros stream_on_conn c next_packet_calm assms)
  show "shrinks (\<lambda>s. \<mu> (cn_reader (ca_conn (ss_call s)))) (iseq (on_call (on_conn (ss_check_ctx L)))
     (ibind (on_call (on_conn (read_code L ''read server code''))) (next_packet L I)))"
    by (rule shrinks_after [where R = stream_frame])
      (intro stream_intros stream_on_conn c next_packet_calm assms shrinks_bind [where R = stream_frame] shrinks_on_call shrinks_on_conn
        shrinks_code)+
qed

lemma iignore_no_error:
  fixes m :: "('s, 'a) io" shows "iignore m s \<noteq> Some (Err e, s')"
proof
  assume "iignore m s = Some (Err e, s')"
  then obtain x :: "'a go" where "(case x of Panic p \<Rightarrow> Panic p | _ \<Rightarrow> Ok ()) = (Err e :: unit go)" by (auto simp: iignore_def)
  then show False by (cases x) simp_all
qed

lemma drain_no_error: "drain L s \<noteq> Some (Err e, s')"
  by (auto simp: drain_def sendCancel_def chain_def ibind_def iignore_no_error split: option.splits go.splits)

text \<open>What a loop returns, its last round returned.\<close>

lemma iloop_result:
  "iloop b s = Some (Ok a, s') \<Longrightarrow> \<exists>s0. b s0 = Some (Ok (Some a), s')"
  for b :: "('s, 'a option) io"
proof -
  have "\<forall>a s'. y = (Ok a, s') \<longrightarrow> (\<exists>s0. b s0 = Some (Ok (Some a), s'))" if "iloop b s = Some y" for b and s :: 's and y :: "'a go \<times> 's"
    using that
  proof (rule iloop.raw_induct [where P = "\<lambda>b s y. \<forall>a s'. y = (Ok a, s') \<longrightarrow> (\<exists>s0. b s0 = Some (Ok (Some a), s'))", rotated])
    fix f b and s :: 's and y :: "'a go \<times> 's"
    assume IH: "\<And>b s y. f b s = Some y \<Longrightarrow> \<forall>a s'. y = (Ok a, s') \<longrightarrow> (\<exists>s0. b s0 = Some (Ok (Some a), s'))"
      and y: "Option.bind (b s) (\<lambda>(x, s'). case x of Ok None \<Rightarrow> f b s' | Ok (Some a) \<Rightarrow> Some (Ok a, s')
        | Err e \<Rightarrow> Some (Err e, s') | Panic p \<Rightarrow> Some (Panic p, s')) = Some y"
    from y obtain x s' where b: "b s = Some (x, s')" by (cases "b s") auto
    show "\<forall>a s'. y = (Ok a, s') \<longrightarrow> (\<exists>s0. b s0 = Some (Ok (Some a), s'))"
    proof (cases x)
      case (Ok v)
      with IH [of b s' y] b y show ?thesis by (cases v) auto
    qed (use b y in auto)
  qed
  then show "iloop b s = Some (Ok a, s') \<Longrightarrow> \<exists>s0. b s0 = Some (Ok (Some a), s')" by blast
qed

lemma next_packet_False:
  fixes s :: "('r, 'w, 'k, 'p, 'c, 'x) sstream"
  shows "next_packet L I c s = Some (Ok (Some False), s') \<Longrightarrow> ss_done s'"
proof -
  have g: "goon m s \<noteq> Some (Ok (Some b), s')" for m :: "(('r, 'w, 'k, 'p, 'c, 'x) sstream, 'z) io" and b :: bool and s s'
    by (auto simp: goon_def ibind_def split: option.splits go.splits)
  have o: "on_call (on_conn (exception_packet L)) s \<noteq> Some (Ok b, s')" for b :: "bool option" and s s' :: "('r, 'w, 'k, 'p, 'c, 'x) sstream"
    by (auto simp: on_call_def on_conn_def exception_packet_def ibind_def split: option.splits go.splits)
  have b: "stream_block L I s \<noteq> Some (Ok (Some False), s')" for s s' :: "('r, 'w, 'k, 'p, 'c, 'x) sstream"
    unfolding stream_block_def
    by (auto simp: ibind_def g split: option.splits go.splits prod.splits if_splits)
  show "next_packet L I c s = Some (Ok (Some False), s') \<Longrightarrow> ss_done s'"
    unfolding next_packet_def using b by (cases c) (auto simp: g o)
qed

lemma next_loop_False:
  assumes "iloop (next_body L I) s = Some (Ok False, s')" shows "ss_done s'"
proof -
  from iloop_result [OF assms] obtain s0 where "next_body L I s0 = Some (Ok (Some False), s')" by blast
  then obtain c s1 where "next_packet L I c s1 = Some (Ok (Some False), s')"
    by (auto simp: next_body_def ibind_def split: option.splits go.splits)
  then show ?thesis by (rule next_packet_False)
qed

text \<open>\<open>Close\<close> of an open stream: the rest of the response, then one call of the release function.\<close>

lemma ss_Close_open:
  fixes s :: "('r, 'w, 'k, 'p, 'c, 'x) sstream"
  assumes "net_ok L \<mu>" and "\<not> ss_closed s"
  obtains x s1 where "ss_Close L (s, r) = Some (if is_panic x then (x, s1, r) else apfst outcome (ss_Release (s1, r)))"
    and "ss_closed s1" and "ss_release s1 = ss_release s" and "ss_done s \<Longrightarrow> \<not> is_panic x"
proof -
  have c: "stream_calm \<mu> (if ss_done s then iret () else on_call (on_conn (drain L)) :: (('r, 'w, 'k, 'p, 'c, 'x) sstream, unit) io)"
    by (auto intro!: stream_intros stream_on_conn cc_drain assms)
  obtain x s1 where 1: "(if ss_done s then iret () else on_call (on_conn (drain L))) (s\<lparr>ss_closed := True\<rparr>) = Some (x, s1)"
      "stream_frame (s\<lparr>ss_closed := True\<rparr>) s1"
    using calmD [OF c, of "s\<lparr>ss_closed := True\<rparr>"] by blast
  show thesis
  proof (rule that)
    show "ss_Close L (s, r) = Some (if is_panic x then (x, s1, r) else apfst outcome (ss_Release (s1, r)))"
      using assms(2) 1(1) by (simp add: ss_Close_def del: iret_apply)
    show "ss_closed s1" "ss_release s1 = ss_release s" using 1(2) by (simp_all add: stream_frame_def)
    show "\<not> is_panic x" if "ss_done s" using 1(1) that by auto
  qed
qed

lemma ss_Close_closed: "ss_closed s \<Longrightarrow> ss_Close L (s, r) = Some (Ok (), s, r)"
  by (simp add: ss_Close_def)

lemma ss_Close_returns:
  fixes s :: "('r, 'w, 'k, 'p, 'c, 'x) sstream"
  assumes "net_ok L \<mu>"
  shows "\<exists>x s' r'. ss_Close L (s, r) = Some (x, s', r') \<and>
      (if is_panic x then True
       else x = Ok () \<and> ss_closed s' \<and> ss_Close L (s', r') = Some (Ok (), s', r') \<and>
         (if ss_release s = Some release_conn \<and> \<not> ss_closed s then cn_state (ca_conn (ss_call s')) = StateReady \<and> r' = r else True))"
proof (cases "ss_closed s")
  case False
  obtain x s1 where 1: "ss_Close L (s, r) = Some (if is_panic x then (x, s1, r) else apfst outcome (ss_Release (s1, r)))"
    "ss_closed s1" "ss_release s1 = ss_release s"
    using ss_Close_open [OF assms False, of r] by metis
  obtain p s2 r2 where 2: "ss_Release (s1, r) = (p, s2, r2)" by (metis prod.exhaust)
  have "ss_closed s2" using 1(2) 2 by (auto simp: ss_Release_def split: option.splits prod.splits)
  moreover have "cn_state (ca_conn (ss_call s2)) = StateReady \<and> r2 = r" if "ss_release s = Some release_conn"
    using 2 that 1(3) by (auto simp: ss_Release_def release_conn_def conn_unlock_def unlock_state_def)
  ultimately show ?thesis using 1(1) 2 ss_Close_closed [of s2 L r2] by (cases p) auto
qed (simp add: ss_Close_closed)

text \<open>
  C11.
  Reading a stream makes progress and ends. Whatever the peer sends, \<open>Next\<close> returns, keeps the
  connection locked, and when it answers false the stream is done, after which (and after \<open>Close\<close>)
  it answers false at once without touching the connection. \<open>Close\<close> returns too: unless the
  library panics while the rest is drained, it reports no error, closes the stream and gives the
  connection back ready, and a second \<open>Close\<close> does nothing.
\<close>

theorem select_stream_returns:
  fixes s :: "('r, 'w, 'k, 'p, 'c, 'x) sstream"
  assumes "net_ok L \<mu>" and "column_quiet I \<mu>"
  shows "(\<exists>b s'. Next L I s = Some (b, s') \<and> cn_state (ca_conn (ss_call s')) = cn_state (ca_conn (ss_call s)) \<and>
      (if ss_closed s \<or> ss_done s then b = Ok False \<and> s' = s else if b = Ok True then True else ss_done s' \<or> is_panic b)) \<and>
    (\<exists>x s' r'. ss_Close L (s, r) = Some (x, s', r') \<and>
      (if is_panic x then True
       else x = Ok () \<and> ss_closed s' \<and> ss_Close L (s', r') = Some (Ok (), s', r') \<and>
         (if ss_release s = Some release_conn \<and> \<not> ss_closed s then cn_state (ca_conn (ss_call s')) = StateReady \<and> r' = r else True)))"
proof (intro conjI)
  show "\<exists>b s'. Next L I s = Some (b, s') \<and> cn_state (ca_conn (ss_call s')) = cn_state (ca_conn (ss_call s)) \<and>
      (if ss_closed s \<or> ss_done s then b = Ok False \<and> s' = s else if b = Ok True then True else ss_done s' \<or> is_panic b)"
  proof (cases "ss_closed s \<or> ss_done s \<or> \<not> ss_bound s")
    case True
    then show ?thesis by (auto simp: Next_def)
  next
    case False
    obtain x s1 where l: "iloop (next_body L I) s = Some (x, s1)" "stream_frame s s1"
      using calmD [OF next_loop_calm [OF assms], of s] by blast
    have st: "cn_state (ca_conn (ss_call s1)) = cn_state (ca_conn (ss_call s))"
      using l(2) by (simp add: stream_frame_def call_frame_def conn_frame_def)
    show ?thesis
    proof (cases x)
      case (Ok b)
      have "\<not> b \<Longrightarrow> ss_done s1" using next_loop_False [of L I s s1] l(1) Ok by simp
      with False l(1) Ok st show ?thesis by (cases b) (auto simp: Next_def store_error_def)
    qed (use False l(1) st in \<open>auto simp: Next_def store_error_def\<close>)
  qed
qed (rule ss_Close_returns [OF assms(1)])

theorem select_stream_returns_witness:
  "\<exists>b s'. Next list_lib (column_of list_ctypes (base_ops uint8_t) list_reader list_writer list_buffer)
      ((new_sstream ((list_conn [3])\<lparr>cn_state := StateBusy\<rparr>))\<lparr>ss_bound := True\<rparr> :: (byte list, byte list, unit, nat, byte data_col, unit) sstream) = Some (b, s') \<and>
    cn_state (ca_conn (ss_call s')) = StateBusy"
  using select_stream_returns [OF list_lib_net list_column_quiet,
    of list_ctypes "(new_sstream ((list_conn [3])\<lparr>cn_state := StateBusy\<rparr>))\<lparr>ss_bound := True\<rparr> :: (byte list, byte list, unit, nat, byte data_col, unit) sstream",
    THEN conjunct1]
  by (elim exE conjE) (rule exI, rule exI, rule conjI, assumption, simp add: new_sstream_def)

section \<open>Streams and column states\<close>

definition set_reader :: "'r \<Rightarrow> ('r, 'w, 'k, 'p, 'c, 'x) sstream \<Rightarrow> ('r, 'w, 'k, 'p, 'c, 'x) sstream" where
  "set_reader r s = s\<lparr>ss_call := (ss_call s)\<lparr>ca_conn := (ca_conn (ss_call s))\<lparr>cn_reader := r\<rparr>\<rparr>\<rparr>"

lemma set_reader_simps [simp]:
  "set_reader r (set_reader r' s) = set_reader r s" "cn_reader (ca_conn (ss_call (set_reader r s))) = r"
  "cn_revision (ca_conn (ss_call (set_reader r s))) = cn_revision (ca_conn (ss_call s))"
  "ca_cols (ss_call (set_reader r s)) = ca_cols (ss_call s)" "cn_ctx (ca_conn (ss_call (set_reader r s))) = cn_ctx (ca_conn (ss_call s))"
  by (simp_all add: set_reader_def)

lemma stream_creads:
  fixes s :: "('r, 'w, 'k, 'p, 'c, 'x) sstream"
  assumes "creads pd v m bs x" and "pd (cn_reader (ca_conn (ss_call s))) = bs @ rest" and "cn_revision (ca_conn (ss_call s)) = v"
  shows "\<exists>r. on_call (on_conn m) s = Some (Ok x, set_reader r s) \<and> pd r = rest"
  using creadsD [OF assms] by (auto simp: on_call_def on_conn_def set_reader_def)

lemma str_skip_yields: "reader_ok (cl_reader L) pd \<Longrightarrow> length s < 2 ^ 63 \<Longrightarrow> yields pd (str_skip L) (str_wire s) ()"
  unfolding str_skip_def str_wire_def by (rule yields_bind_rret [where f = "\<lambda>_. ()"]) (rule rd_str_yields)

lemma creads_stream_start:
  fixes L :: "('r, 'w, 'k, 'p) chlib"
  assumes L: "lib_ok L pd out" and n: "length (co_name J c) < 2 ^ 63" "length (co_type J c) < 2 ^ 63"
  shows "creads pd v (stream_start L what :: (('r, 'w, 'k, 'p) conn, unit) io) (start_image L J v c) ()"
proof -
  note R = lib_readerD [OF L]
  have b: "creads pd v (iseq (iwrap f3 (rd (rd_bool (cl_reader L)))) (iret ()) :: (('r, 'w, 'k, 'p) conn, unit) io) [0] ()" for f3
    by (rule creads_bind [OF creads_iwrap [OF creads_rd [OF rd_bool_yields [OF R, of False]]] creads_iret]) simp
  note n1 = creads_iwrap [OF creads_rd [OF str_skip_yields [OF R n(1)]]]
  note n2 = creads_iwrap [OF creads_rd [OF str_skip_yields [OF R n(2)]]]
  show ?thesis
    unfolding start_image_def stream_start_def
    by (rule creads_seq [OF n1], rule creads_seq [OF n2], rule creads_when_has [OF b refl]) (rule refl)+
qed

text \<open>A data packet up to the first column.\<close>

lemma stream_block_first:
  fixes L :: "('r, 'w, 'k, 'p) chlib" and s :: "('r, 'w, 'k, 'p, 'c, 'x) sstream"
  assumes L: "lib_ok L pd out" and n: "0 < n" "n \<le> 100000000" and cols: "ca_cols (ss_call s) = [d]"
    and nm: "length (co_name J c) < 2 ^ 63" "length (co_type J c) < 2 ^ 63"
    and s: "pd (cn_reader (ca_conn (ss_call s))) = table_image L v @ info_image L v @ uvarint 1 @ uvarint n @ start_image L J v c @ rest"
      "cn_revision (ca_conn (ss_call s)) = v"
    and bad: "\<And>r. pd r = rest \<Longrightarrow> \<exists>r'. co_decode I d (int n) r = (Err e, r')"
  shows "\<exists>r. stream_block L I s = Some (Err (nerr KindProtocol ''decode column'' e), set_reader r s)"
proof -
  note R = lib_readerD [OF L]
  have name: "creads pd v (when_has L F_TempTables (iwrap f (rd (str_skip L))) :: (('r, 'w, 'k, 'p) conn, unit) io) (table_image L v) ()" for f
    using str_skip_yields [OF R, of "[]"] unfolding table_image_def
    by (intro creads_when_has [OF creads_iwrap [OF creads_rd] refl]) (simp add: str_wire_def str_bytes_def)
  from stream_creads [OF name s] obtain r1 where
    1: "on_call (on_conn (when_has L F_TempTables (iwrap (nerr KindProtocol ''read temp table name'') (rd (str_skip L))))) s = Some (Ok (), set_reader r1 s)"
      "pd r1 = info_image L v @ uvarint 1 @ uvarint n @ start_image L J v c @ rest" by blast
  from stream_creads [OF creads_block_info [OF L], where s = "set_reader r1 s" and rest = "uvarint 1 @ uvarint n @ start_image L J v c @ rest" and v = v] 1(2) s(2) obtain r2 where
    2: "on_call (on_conn (block_info L ''decode block info'')) (set_reader r1 s) = Some (Ok (), set_reader r2 s)"
      "pd r2 = uvarint 1 @ uvarint n @ start_image L J v c @ rest" by auto
  from stream_creads [OF creads_block_size [OF L, of 1 n], where s = "set_reader r2 s" and rest = "start_image L J v c @ rest" and v = v] 2(2) s(2) n(2) obtain r3 where
    3: "on_call (on_conn (block_size L)) (set_reader r2 s) = Some (Ok (1, int n), set_reader r3 s)" "pd r3 = start_image L J v c @ rest" by auto
  from creadsD [OF creads_stream_start [OF L nm, where what = "''read column''" and v = v], where s = "ca_conn (ss_call (set_reader r3 s))" and rest = rest] 3(2) s(2) obtain r4 where
    4: "stream_start L ''read column'' (ca_conn (ss_call (set_reader r3 s))) = Some (Ok (), (ca_conn (ss_call (set_reader r3 s)))\<lparr>cn_reader := r4\<rparr>)"
      "pd r4 = rest" by auto
  from bad [OF 4(2)] obtain r5 where 5: "co_decode I d (int n) r4 = (Err e, r5)" by blast
  have "stream_columns L I (int n) 0 1 (ss_call (set_reader r3 s)) = Some (Err (nerr KindProtocol ''decode column'' e), ss_call (set_reader r5 s))"
    using 4(1) 5 cols by (simp add: on_conn_def ibind_def iwrap_def on_reader_def lift_rdm_def set_reader_def)
  then have "on_call (stream_columns L I (int n) 0 1) (set_reader r3 s) = Some (Err (nerr KindProtocol ''decode column'' e), set_reader r5 s)"
    by (simp add: on_call_def set_reader_def)
  with 1(1) 2(1) 3(1) n(1) cols show ?thesis
    by (intro exI [of _ r5]) (simp add: stream_block_def ibind_def del: stream_columns.simps)
qed

text \<open>
  C27.
  Streams do not exchange column states: \<open>Next\<close> on a block with a LowCardinality(String) column, as
  a server (or \<open>Insert\<close>) sends it and \<open>Select\<close> reads it, takes the eight bytes of the state for the
  dictionary's flags, fails with a missing-keys error, and ends the stream.
\<close>

theorem stream_lowcardinality:
  fixes L :: "('r, 'w, 'k, 'p) chlib" and s :: "('r, 'w, 'k, 'p, (str_col, string) lc_col, 'x) sstream"
  assumes L: "lib_ok L pd out" and n: "0 < n" "n \<le> 100000000" and cols: "ca_cols (ss_call s) = [d]"
    and nm: "length (lc_name (str_ops :: ('r, 'w, _, _) of_ops) c) < 2 ^ 63" "length (lc_type (str_ops :: ('r, 'w, _, _) of_ops) C c) < 2 ^ 63"
    and codes: "dk < 2 ^ 64" "cl_code L (word_of_nat dk) = SC_Data"
    and s: "ss_bound s" "\<not> ss_closed s" "\<not> ss_done s" "cn_ctx (ca_conn (ss_call s)) = []" "cn_revision (ca_conn (ss_call s)) = v"
      "pd (cn_reader (ca_conn (ss_call s))) = uvarint dk @ table_image L v @ info_image L v @ uvarint 1 @ uvarint n @
        start_image L (lc_column C str_ops string_t (cl_reader L) (cl_writer L) (cl_buffer L)) v c @ le_enc 8 1 @ rest"
  shows "\<exists>s'. Next L (lc_column C str_ops string_t (cl_reader L) (cl_writer L) (cl_buffer L)) s = Some (Ok False, s') \<and> ss_done s' \<and>
    ss_err s' = Some (nerr KindProtocol ''decode column'' (Errorf ''low cardinality missing additional keys bit''))"
proof -
  let ?I = "lc_column C str_ops string_t (cl_reader L) (cl_writer L) (cl_buffer L) :: ('r, 'w, (str_col, string) lc_col) column"
  note R = lib_readerD [OF L]
  have dec: "\<exists>r'. co_decode ?I d (int n) r = (Err (Errorf ''low cardinality missing additional keys bit''), r')" if "pd r = le_enc 8 1 @ rest" for r
  proof -
    have "pd r = le_enc 8 (unat (1 :: u64)) @ rest" using that by simp
    from yieldsD [OF rd_int64_yields [OF R] this] obtain r1 where "rd_int64 (cl_reader L) r = (Ok 1, r1)" by blast
    then show ?thesis using n(1) by (simp add: lc_column_def lc_decode_def rlift_def)
  qed
  from yieldsD [OF rd_uvarint_yields [OF R codes(1)] s(6)] obtain r1 where
    1: "rd_uvarint (cl_reader L) (cn_reader (ca_conn (ss_call s))) = (Ok (word_of_nat dk), r1)"
      "pd r1 = table_image L v @ info_image L v @ uvarint 1 @ uvarint n @ start_image L ?I v c @ le_enc 8 1 @ rest" by blast
  have c: "on_call (on_conn (ss_check_ctx L)) s = Some (Ok (), s)"
    using s(4) by (simp add: on_call_def on_conn_def ss_check_ctx_def ctx_done_def ibind_def)
  have k: "on_call (on_conn (read_code L ''read server code'')) s = Some (Ok SC_Data, set_reader r1 s)"
    using 1(1) codes(2) by (simp add: on_call_def on_conn_def read_code_def on_reader_def lift_rdm_def ibind_def iwrap_def set_reader_def)
  have nm2: "length (co_name ?I c) < 2 ^ 63" "length (co_type ?I c) < 2 ^ 63" using nm by (simp_all add: lc_column_def)
  have "\<exists>r. stream_block L ?I (set_reader r1 s) = Some (Err (nerr KindProtocol ''decode column'' (Errorf ''low cardinality missing additional keys bit'')), set_reader r (set_reader r1 s))"
    by (rule stream_block_first [OF L n _ nm2]) (use cols 1(2) s(5) dec in simp_all)
  then obtain r where "next_body L ?I s = Some (Err (nerr KindProtocol ''decode column'' (Errorf ''low cardinality missing additional keys bit'')), set_reader r s)"
    using c k by (auto simp: next_body_def next_packet_def ibind_def)
  from iloop_Err [of "next_body L ?I" s, OF this] s(1-3) show ?thesis by (auto simp: Next_def store_error_def)
qed

theorem stream_lowcardinality_witness:
  "\<exists>s'. Next list_lib (lc_column list_ctypes str_ops string_t list_reader list_writer list_buffer)
      ((new_sstream (list_conn ([1, 0, 1, 0, 2, 255, 255, 255, 255, 0, 1, 1, 1, 99, 22] @ str_bytes ''LowCardinality(String)'' @ [0] @ le_enc 8 1)))
        \<lparr>ss_bound := True, ss_call := \<lparr> ca_conn = list_conn ([1, 0, 1, 0, 2, 255, 255, 255, 255, 0, 1, 1, 1, 99, 22] @
            str_bytes ''LowCardinality(String)'' @ [0] @ le_enc 8 1), ca_cols = [new_lc_col (new_str_col ''c'')], ca_rows = 0 \<rparr>\<rparr>) = Some (Ok False, s') \<and>
    ss_done s' \<and> ss_err s' = Some (nerr KindProtocol ''decode column'' (Errorf ''low cardinality missing additional keys bit''))"
proof -
  have m: "unat (- 1 :: u32) = 4294967295" by (simp add: unsigned_minus_1_eq_mask mask_eq_exp_minus_1)
  have t: "lc_type (str_ops :: (byte list, byte list, str_col, string) of_ops) list_ctypes (new_lc_col (new_str_col ''c'')) = ''LowCardinality(String)''"
    by (simp add: new_lc_col_def lc_type_def LowCardinality_Column.lc_name_def str_ops_def str_type_def lc_with_def new_str_col_def)
  have n: "lc_name (str_ops :: (byte list, byte list, str_col, string) of_ops) (new_lc_col (new_str_col ''c'')) = ''c''"
    by (simp add: new_lc_col_def LowCardinality_Column.lc_name_def str_ops_def new_str_col_def)
  show ?thesis
    by (rule stream_lowcardinality [OF list_lib_ok, where n = 1 and dk = 1 and v = 54460 and c = "new_lc_col (new_str_col ''c'')"
          and d = "new_lc_col (new_str_col ''c'')" and rest = "[]" and C = list_ctypes, unfolded list_lib_simps])
      (simp_all add: t n new_sstream_def list_conn_def list_code_def table_image_def info_image_def start_image_def lc_column_def
        str_wire_def str_bytes_def m le_enc_numeral)
qed

end
