(* ===== verification/Pool.thy ===== *)
theory Pool
  imports Conn_Stream
begin

text \<open>
  Package \<open>pool\<close> (\<^verbatim>\<open>pool/pool.go\<close>, \<^verbatim>\<open>pool/poolconn.go\<close>, \<^verbatim>\<open>pool/config.go\<close>): replicas, each with a
  puddle pool of connections, handed out in turn. Puddle is the record \<open>plib\<close>; its pools \<open>'q\<close> live
  in a heap, because a replica's pool is replaced while connections of the old one are still out.
  The operations run one after the other: the mutex and the goroutine of the health checks are
  the order in which they are called.
\<close>

section \<open>The library\<close>

text \<open>
  The environment \<open>'n\<close> is the network and the context of the call: it decides what \<open>pl_dial\<close> gives,
  under a deadline if there is one, and what closing a socket returns. A resource is a number, with
  the connection it holds; \<open>pl_acquire\<close> runs a constructor when it has no idle one, \<open>pl_destroy\<close> and
  \<open>pl_close\<close> run a destructor. \<open>pl_release\<close> and \<open>pl_destroy\<close> give the message of the panic, if there is
  one: puddle panics for a resource that is not out. \<open>Acquire\<close> of a puddle pool waits when it is full, and its \<open>Close\<close> until
  every resource is back: waiting for what no later step of this operation can bring is \<open>None\<close>.
  \<open>pl_stat\<close> counts total, idle and acquired resources.
\<close>

record ('r, 'w, 'k, 'p, 'q, 'n) plib =
  pl_conn :: "('r, 'w, 'k, 'p) chlib"
  pl_dial :: "int option \<Rightarrow> config \<Rightarrow> 'n \<Rightarrow> (error + ('r \<times> 'w \<times> string)) \<times> 'n"
  pl_hangup :: "('r, 'w, 'k, 'p) conn \<Rightarrow> 'n \<Rightarrow> error option \<times> 'n"
  pl_newPool :: "int \<Rightarrow> error + 'q"
  pl_acquire :: "('n \<Rightarrow> ('r, 'w, 'k, 'p) conn go \<times> 'n) \<Rightarrow> 'n \<times> 'q \<Rightarrow>
    ((nat \<times> ('r, 'w, 'k, 'p) conn) go \<times> 'n \<times> 'q) option"
  pl_release :: "nat \<Rightarrow> ('r, 'w, 'k, 'p) conn \<Rightarrow> 'q \<Rightarrow> string option \<times> 'q"
  pl_destroy :: "(('r, 'w, 'k, 'p) conn \<Rightarrow> 'n \<Rightarrow> 'n) \<Rightarrow> nat \<Rightarrow> ('r, 'w, 'k, 'p) conn \<Rightarrow> 'n \<times> 'q \<Rightarrow> string option \<times> 'n \<times> 'q"
  pl_close :: "(('r, 'w, 'k, 'p) conn \<Rightarrow> 'n \<Rightarrow> 'n) \<Rightarrow> 'n \<times> 'q \<Rightarrow> ('n \<times> 'q) option"
  pl_stat :: "'q \<Rightarrow> int \<times> int \<times> int"
  pl_closedPool :: error
  pl_canceled :: error
  pl_deadline :: error

text \<open>\<open>errors.Is\<close> and the \<open>Kind\<close> of the \<open>conn.Error\<close> that \<open>errors.As\<close> finds.\<close>

fun error_Is :: "error \<Rightarrow> error \<Rightarrow> bool" where
  "error_Is (Wrapf m e) t \<longleftrightarrow> Wrapf m e = t \<or> error_Is e t"
| "error_Is (Conn_error k m c (Some e)) t \<longleftrightarrow> Conn_error k m c (Some e) = t \<or> error_Is e t"
| "error_Is e t \<longleftrightarrow> e = t"

fun error_kind :: "error \<Rightarrow> kind option" where
  "error_kind (Conn_error k m c e) = Some k"
| "error_kind (Wrapf m e) = error_kind e"
| "error_kind _ = None"

section \<open>State\<close>

record pconfig =
  pg_addrs :: "string list"
  pg_config :: config
  pg_maxConns :: int
  pg_minConns :: int
  pg_maxIdle :: int
  pg_maxLifetime :: int
  pg_healthInterval :: int
  pg_healthTimeout :: int

text \<open>\<open>ap_p\<close> points into the heap of puddle pools.\<close>

record addr_pool =
  ap_addr :: string
  ap_dead :: bool
  ap_p :: nat

record ('q, 'n) pool =
  po_cfg :: pconfig
  po_subs :: "addr_pool list"
  po_rrIdx :: nat
  po_closed :: bool
  po_stopped :: bool
  po_pools :: "'q list"
  po_env :: 'n

record ('r, 'w, 'k, 'p) pconn =
  pc_conn :: "('r, 'w, 'k, 'p) conn"
  pc_addr :: string
  pc_pool :: nat
  pc_res :: nat

definition itry :: "('s, 'a) io \<Rightarrow> ('s, error + 'a) io" where
  "itry m = (\<lambda>s. map_option (\<lambda>(x, s'). (case x of Ok a \<Rightarrow> Ok (Inr a) | Err e \<Rightarrow> Ok (Inl e) | Panic p \<Rightarrow> Panic p, s')) (m s))"

definition igo :: "'a go \<Rightarrow> ('s, 'a) io" where
  "igo x = (\<lambda>s. Some (x, s))"

section \<open>Puddle pools\<close>

text \<open>\<open>_ = c.Close()\<close>\<close>

definition hang_up :: "('r, 'w, 'k, 'p, 'q, 'n) plib \<Rightarrow> ('r, 'w, 'k, 'p) conn \<Rightarrow> 'n \<Rightarrow> 'n" where
  "hang_up L c n = (if cn_state c = StateClosed then n else snd (pl_hangup L c n))"

definition sub_config :: "pconfig \<Rightarrow> string \<Rightarrow> config" where
  "sub_config g addr = (pg_config g)\<lparr>cf_addr := addr\<rparr>"

definition dial_connect :: "('r, 'w, 'k, 'p, 'q, 'n) plib \<Rightarrow> int option \<Rightarrow> config \<Rightarrow> 'n \<Rightarrow> ('r, 'w, 'k, 'p) conn go \<times> 'n" where
  "dial_connect L t cfg n = (let (d, n') = pl_dial L t cfg n in (Connect (pl_conn L) cfg d, n'))"

text \<open>\<open>int32(p.cfg.MaxConns)\<close> keeps the low 32 bits.\<close>

definition maxSize :: "pconfig \<Rightarrow> int" where
  "maxSize g = (let n = sint (word_of_int (pg_maxConns g) :: 32 word) in if n = 0 then 1000 else n)"

definition newSubPool :: "('r, 'w, 'k, 'p, 'q, 'n) plib \<Rightarrow> pconfig \<Rightarrow> error + 'q" where
  "newSubPool L g = pl_newPool L (maxSize g)"

definition sub_close :: "('r, 'w, 'k, 'p, 'q, 'n) plib \<Rightarrow> nat \<Rightarrow> (('q, 'n) pool, unit) io" where
  "sub_close L i = (\<lambda>s. let p = ap_p (po_subs s ! i)
     in map_option (\<lambda>(n, q). (Ok (), s\<lparr>po_env := n, po_pools := (po_pools s)[p := q]\<rparr>))
          (pl_close L (hang_up L) (po_env s, po_pools s ! p)))"

fun close_subs :: "('r, 'w, 'k, 'p, 'q, 'n) plib \<Rightarrow> nat list \<Rightarrow> (('q, 'n) pool, unit) io" where
  "close_subs L [] = iret ()"
| "close_subs L (i # js) = iseq (sub_close L i) (close_subs L js)"

definition close_all :: "('r, 'w, 'k, 'p, 'q, 'n) plib \<Rightarrow> (('q, 'n) pool, unit) io" where
  "close_all L = ibind (iget (\<lambda>s. [0..<length (po_subs s)])) (close_subs L)"

definition sub_acquire :: "('r, 'w, 'k, 'p, 'q, 'n) plib \<Rightarrow> nat \<Rightarrow> (('q, 'n) pool, ('r, 'w, 'k, 'p) pconn) io" where
  "sub_acquire L i = (\<lambda>s.
     let sp = po_subs s ! i; p = ap_p sp
     in map_option (\<lambda>(x, n, q). (case x of
            Ok (k, c) \<Rightarrow> Ok \<lparr> pc_conn = c, pc_addr = ap_addr sp, pc_pool = p, pc_res = k \<rparr>
          | Err e \<Rightarrow> Err e
          | Panic m \<Rightarrow> Panic m, s\<lparr>po_env := n, po_pools := (po_pools s)[p := q]\<rparr>))
        (pl_acquire L (dial_connect L None (sub_config (po_cfg s) (ap_addr sp))) (po_env s, po_pools s ! p)))"

definition pc_Release :: "('r, 'w, 'k, 'p, 'q, 'n) plib \<Rightarrow> ('r, 'w, 'k, 'p) pconn \<Rightarrow> ('q, 'n) pool \<Rightarrow> string option \<times> ('q, 'n) pool" where
  "pc_Release L pc s = (let (p, q) = pl_release L (pc_res pc) (pc_conn pc) (po_pools s ! pc_pool pc)
     in (p, s\<lparr>po_pools := (po_pools s)[pc_pool pc := q]\<rparr>))"

definition pc_Close :: "('r, 'w, 'k, 'p, 'q, 'n) plib \<Rightarrow> ('r, 'w, 'k, 'p) pconn \<Rightarrow> ('q, 'n) pool \<Rightarrow> string option \<times> ('q, 'n) pool" where
  "pc_Close L pc s = (let (p, n, q) = pl_destroy L (hang_up L) (pc_res pc) (pc_conn pc) (po_env s, po_pools s ! pc_pool pc)
     in (p, s\<lparr>po_env := n, po_pools := (po_pools s)[pc_pool pc := q]\<rparr>))"

section \<open>Creating and closing\<close>

fun new_subs :: "('r, 'w, 'k, 'p, 'q, 'n) plib \<Rightarrow> string list \<Rightarrow> (('q, 'n) pool, unit) io" where
  "new_subs L [] = iret ()"
| "new_subs L (addr # addrs) = ibind (iget (\<lambda>s. newSubPool L (po_cfg s))) (\<lambda>r. case r of
       Inl e \<Rightarrow> iseq (close_all L) (ifail (Wrapf ''pool'' e))
     | Inr q \<Rightarrow> iseq (imodify (\<lambda>s. s\<lparr>po_subs := po_subs s @ [\<lparr> ap_addr = addr, ap_dead = False, ap_p = length (po_pools s) \<rparr>],
         po_pools := po_pools s @ [q]\<rparr>)) (new_subs L addrs))"

definition pool_addrs :: "pconfig \<Rightarrow> string list" where
  "pool_addrs g = (if pg_addrs g = []
     then [if cf_addr (pg_config g) = [] then ''127.0.0.1:9000'' else cf_addr (pg_config g)]
     else pg_addrs g)"

definition New :: "('r, 'w, 'k, 'p, 'q, 'n) plib \<Rightarrow> pconfig \<Rightarrow> (('q, 'n) pool, unit) io" where
  "New L g = iseq (imodify (\<lambda>s. \<lparr> po_cfg = g, po_subs = [], po_rrIdx = 0, po_closed = False, po_stopped = False, po_pools = [],
     po_env = po_env s \<rparr>)) (new_subs L (pool_addrs g))"

definition pool_Close :: "('r, 'w, 'k, 'p, 'q, 'n) plib \<Rightarrow> (('q, 'n) pool, unit) io" where
  "pool_Close L = ibind (iget po_closed) (\<lambda>c. if c then iret ()
     else iseq (imodify (\<lambda>s. s\<lparr>po_closed := True, po_stopped := True\<rparr>)) (close_all L))"

section \<open>Acquire\<close>

definition live_subs :: "('q, 'n) pool \<Rightarrow> nat list" where
  "live_subs s = filter (\<lambda>i. \<not> ap_dead (po_subs s ! i)) [0..<length (po_subs s)]"

definition mark_dead :: "('r, 'w, 'k, 'p, 'q, 'n) plib \<Rightarrow> nat \<Rightarrow> (('q, 'n) pool, unit) io" where
  "mark_dead L i = ibind (iget (\<lambda>s. ap_dead (po_subs s ! i))) (\<lambda>d. if d then iret ()
     else iseq (imodify (\<lambda>s. s\<lparr>po_subs := (po_subs s)[i := (po_subs s ! i)\<lparr>ap_dead := True\<rparr>]\<rparr>)) (sub_close L i))"

fun acquire_loop :: "('r, 'w, 'k, 'p, 'q, 'n) plib \<Rightarrow> nat list \<Rightarrow> nat \<Rightarrow> nat \<Rightarrow> (('q, 'n) pool, ('r, 'w, 'k, 'p) pconn option) io" where
  "acquire_loop L live j 0 = iret None"
| "acquire_loop L live j (Suc k) =
     ibind (itry (sub_acquire L (live ! j))) (\<lambda>r. case r of
         Inr pc \<Rightarrow> iret (Some pc)
       | Inl err \<Rightarrow>
           if error_Is err (pl_closedPool L) then acquire_loop L live ((j + 1) mod length live) k
           else if error_Is err (pl_canceled L) \<or> error_Is err (pl_deadline L) then ifail (nerr KindInternal ''acquire'' err)
           else iseq (mark_dead L (live ! j)) (acquire_loop L live ((j + 1) mod length live) k))"

definition Acquire :: "('r, 'w, 'k, 'p, 'q, 'n) plib \<Rightarrow> (('q, 'n) pool, ('r, 'w, 'k, 'p) pconn) io" where
  "Acquire L = (\<lambda>s.
     let live = live_subs s; j = po_rrIdx s mod length live
     in if po_closed s then Some (Err (perr KindInternal ''pool is closed''), s)
        else if live = [] then Some (Err (perr KindInternal ''all replicas unreachable''), s)
        else ibind (acquire_loop L live j (length live)) (\<lambda>r. case r of
            Some pc \<Rightarrow> iret pc
          | None \<Rightarrow> ibind (iget (\<lambda>s. \<forall>a\<in>set (po_subs s). ap_dead a)) (\<lambda>allDead.
              ifail (perr KindInternal (if allDead then ''all replicas unreachable'' else ''no available connections''))))
          (s\<lparr>po_rrIdx := (j + 1) mod length live\<rparr>))"

section \<open>Exec, Select and Insert\<close>

text \<open>
  The three methods are the same code around an operation of the connection, which runs on the
  connection and the caller's data \<open>'d\<close>: what \<open>Select\<close> returns beside the error is part of it,
  and \<open>zero\<close> clears it where the code returns 0.
\<close>

definition on_pool :: "(('q, 'n) pool, 'a) io \<Rightarrow> (('q, 'n) pool \<times> 'd, 'a) io" where
  "on_pool m = (\<lambda>(s, d). map_option (\<lambda>(x, s'). (x, (s', d))) (m s))"

text \<open>A call that returns nothing, or panics.\<close>

definition may_panic :: "('s \<Rightarrow> string option \<times> 's) \<Rightarrow> ('s, unit) io" where
  "may_panic f = (\<lambda>s. case f s of (p, s') \<Rightarrow> Some (outcome p, s'))"

definition run_op :: "(('r, 'w, 'k, 'p) conn \<times> 'd, 'a) io \<Rightarrow> ('r, 'w, 'k, 'p) pconn \<Rightarrow>
    (('q, 'n) pool \<times> 'd, 'a go \<times> ('r, 'w, 'k, 'p) pconn) io" where
  "run_op f pc = (\<lambda>(s, d). map_option (\<lambda>(x, c, d'). (Ok (x, pc\<lparr>pc_conn := c\<rparr>), (s, d'))) (f (pc_conn pc, d)))"

definition retry :: "('r, 'w, 'k, 'p, 'q, 'n) plib \<Rightarrow> ('d \<Rightarrow> 'd) \<Rightarrow> (('r, 'w, 'k, 'p) conn \<times> 'd, 'a) io \<Rightarrow> error \<Rightarrow>
    (('q, 'n) pool \<times> 'd, 'a) io" where
  "retry L zero f e = ibind (itry (on_pool (Acquire L))) (\<lambda>r. case r of
       Inl _ \<Rightarrow> iseq (imodify (apsnd zero)) (ifail e)
     | Inr pc2 \<Rightarrow> ibind (run_op f pc2) (\<lambda>(x, pc2). iseq (on_pool (may_panic (pc_Release L pc2))) (igo x)))"

definition pooled :: "('r, 'w, 'k, 'p, 'q, 'n) plib \<Rightarrow> ('d \<Rightarrow> 'd) \<Rightarrow> (('r, 'w, 'k, 'p) conn \<times> 'd, 'a) io \<Rightarrow>
    (('q, 'n) pool \<times> 'd, 'a) io" where
  "pooled L zero f = ibind (itry (on_pool (Acquire L))) (\<lambda>r. case r of
       Inl e \<Rightarrow> iseq (imodify (apsnd zero)) (ifail e)
     | Inr pc \<Rightarrow> ibind (run_op f pc) (\<lambda>(x, pc). case x of
           Ok a \<Rightarrow> iseq (on_pool (may_panic (pc_Release L pc))) (iret a)
         | Err e \<Rightarrow> iseq (on_pool (may_panic (pc_Close L pc)))
             (if error_kind e = Some KindNetwork then retry L zero f e else ifail e)
         | Panic m \<Rightarrow> igo (Panic m)))"

definition pool_Exec :: "('r, 'w, 'k, 'p, 'q, 'n) plib \<Rightarrow> string \<Rightarrow> (('q, 'n) pool \<times> unit, unit) io" where
  "pool_Exec L body = pooled L id (\<lambda>(c, d). map_option (\<lambda>(x, c'). (x, (c', d))) (Exec (pl_conn L) body c))"

text \<open>The caller's data of \<open>Select\<close> and \<open>Insert\<close> are the columns and the row count.\<close>

definition on_cols :: "(('r, 'w, 'k, 'p, 'c) call, 'a) io \<Rightarrow> (('r, 'w, 'k, 'p) conn \<times> 'c list \<times> int, 'a) io" where
  "on_cols m = (\<lambda>(c, cols, rows). map_option (\<lambda>(x, t). (x, (ca_conn t, ca_cols t, ca_rows t)))
     (m \<lparr> ca_conn = c, ca_cols = cols, ca_rows = rows \<rparr>))"

definition pool_Select :: "('r, 'w, 'k, 'p, 'q, 'n) plib \<Rightarrow> ('r, 'w, 'c) column \<Rightarrow> string \<Rightarrow>
    (('q, 'n) pool \<times> 'c list \<times> int, unit) io" where
  "pool_Select L I body = pooled L (apsnd (\<lambda>_. 0)) (on_cols (Select (pl_conn L) I body))"

definition pool_Insert :: "('r, 'w, 'k, 'p, 'q, 'n) plib \<Rightarrow> ('r, 'w, 'c) column \<Rightarrow> string \<Rightarrow>
    (('q, 'n) pool \<times> 'c list \<times> int, unit) io" where
  "pool_Insert L I body = pooled L id (on_cols (Insert (pl_conn L) I body))"

section \<open>Streams\<close>

text \<open>
  The release function of a pooled stream has captured the pool connection, and acts on the pool of
  the moment at which the stream's \<open>Close\<close> calls it: \<open>ss_Close\<close> and \<open>is_Close\<close> run on the stream and the
  pool. \<open>pc_conn\<close> of the pool connection is given its state of that moment.
\<close>

definition with_conn :: "('r, 'w, 'k, 'p, 'q, 'n) plib \<Rightarrow> (('r, 'w, 'k, 'p) conn, 'a) io \<Rightarrow>
    (('q, 'n) pool, ('r, 'w, 'k, 'p) pconn \<times> 'a) io" where
  "with_conn L f = ibind (Acquire L) (\<lambda>pc s. case f (pc_conn pc) of
       None \<Rightarrow> None
     | Some (Ok a, c) \<Rightarrow> Some (Ok (pc\<lparr>pc_conn := c\<rparr>, a), s)
     | Some (Err e, c) \<Rightarrow> iseq (may_panic (pc_Release L (pc\<lparr>pc_conn := c\<rparr>))) (ifail e) s
     | Some (Panic m, c) \<Rightarrow> Some (Panic m, s))"

definition pool_release :: "('r, 'w, 'k, 'p, 'q, 'n) plib \<Rightarrow> ('r, 'w, 'k, 'p) pconn \<Rightarrow> ('r, 'w, 'k, 'p, ('q, 'n) pool) release" where
  "pool_release L pc = (\<lambda>(c, s).
     let c = conn_unlock c; (p, s) = pc_Release L (pc\<lparr>pc_conn := c\<rparr>) s in (p, c, s))"

definition pool_SelectStream :: "('r, 'w, 'k, 'p, 'q, 'n) plib \<Rightarrow> string \<Rightarrow>
    (('q, 'n) pool, ('r, 'w, 'k, 'p, 'c, ('q, 'n) pool) sstream) io" where
  "pool_SelectStream L body = ibind (with_conn L (SelectStream (pl_conn L) body)) (\<lambda>(pc, st).
     iret (ss_SetRelease (pool_release L pc) st))"

definition pool_InsertStream :: "('r, 'w, 'k, 'p, 'q, 'n) plib \<Rightarrow> string \<Rightarrow>
    (('q, 'n) pool, ('r, 'w, 'k, 'p, 'c, ('q, 'n) pool) istream) io" where
  "pool_InsertStream L body = ibind (with_conn L (InsertStream (pl_conn L) body)) (\<lambda>(pc, st).
     iret (is_SetRelease (pool_release L pc) st))"

section \<open>State and health checks\<close>

record conn_stats =
  st_Total :: int
  st_Idle :: int
  st_Active :: int
  st_Waiting :: int

record addr_state =
  as_Addr :: string
  as_state :: conn_stats
  as_Dead :: bool

definition sub_state :: "('r, 'w, 'k, 'p, 'q, 'n) plib \<Rightarrow> ('q, 'n) pool \<Rightarrow> addr_pool \<Rightarrow> conn_stats" where
  "sub_state L s a = (let (t, i, n) = pl_stat L (po_pools s ! ap_p a)
     in \<lparr> st_Total = t, st_Idle = i, st_Active = n, st_Waiting = 0 \<rparr>)"

definition add_state :: "conn_stats \<Rightarrow> conn_stats \<Rightarrow> conn_stats" where
  "add_state a b = \<lparr> st_Total = st_Total a + st_Total b, st_Idle = st_Idle a + st_Idle b,
     st_Active = st_Active a + st_Active b, st_Waiting = st_Waiting a \<rparr>"

definition pool_State :: "('r, 'w, 'k, 'p, 'q, 'n) plib \<Rightarrow> ('q, 'n) pool \<Rightarrow> conn_stats" where
  "pool_State L s = foldl (\<lambda>st a. add_state st (sub_state L s a))
     \<lparr> st_Total = 0, st_Idle = 0, st_Active = 0, st_Waiting = 0 \<rparr> (po_subs s)"

definition AddrStates :: "('r, 'w, 'k, 'p, 'q, 'n) plib \<Rightarrow> ('q, 'n) pool \<Rightarrow> addr_state list" where
  "AddrStates L s = map (\<lambda>a. \<lparr> as_Addr = ap_addr a, as_state = sub_state L s a, as_Dead = ap_dead a \<rparr>) (po_subs s)"

definition dead_subs :: "('q, 'n) pool \<Rightarrow> nat list" where
  "dead_subs s = filter (\<lambda>i. ap_dead (po_subs s ! i)) [0..<length (po_subs s)]"

definition health_timeout :: "pconfig \<Rightarrow> int" where
  "health_timeout g = (if pg_healthTimeout g = 0 then 5 * 10 ^ 9 else pg_healthTimeout g)"

definition check_dial :: "('r, 'w, 'k, 'p, 'q, 'n) plib \<Rightarrow> nat \<Rightarrow> (('q, 'n) pool, unit) io" where
  "check_dial L i = (\<lambda>s.
     let (x, n) = dial_connect L (Some (health_timeout (po_cfg s))) (sub_config (po_cfg s) (ap_addr (po_subs s ! i))) (po_env s)
     in Some (case x of
          Ok c \<Rightarrow> (Ok (), s\<lparr>po_env := hang_up L c n\<rparr>)
        | Err e \<Rightarrow> (Err e, s\<lparr>po_env := n\<rparr>)
        | Panic m \<Rightarrow> (Panic m, s\<lparr>po_env := n\<rparr>)))"

definition replace_sub :: "nat \<Rightarrow> 'q \<Rightarrow> ('q, 'n) pool \<Rightarrow> ('q, 'n) pool" where
  "replace_sub i q s = s\<lparr>po_subs := (po_subs s)[i := (po_subs s ! i)\<lparr>ap_p := length (po_pools s), ap_dead := False\<rparr>],
     po_pools := po_pools s @ [q]\<rparr>"

definition check_sub :: "('r, 'w, 'k, 'p, 'q, 'n) plib \<Rightarrow> nat \<Rightarrow> (('q, 'n) pool, unit) io" where
  "check_sub L i = ibind (itry (check_dial L i)) (\<lambda>r. case r of
       Inl e \<Rightarrow> iret ()
     | Inr _ \<Rightarrow> ibind (iget (\<lambda>s. newSubPool L (po_cfg s))) (\<lambda>r. case r of
           Inl e \<Rightarrow> iret ()
         | Inr q \<Rightarrow> iseq (sub_close L i) (imodify (replace_sub i q))))"

fun check_subs :: "('r, 'w, 'k, 'p, 'q, 'n) plib \<Rightarrow> nat list \<Rightarrow> (('q, 'n) pool, unit) io" where
  "check_subs L [] = iret ()"
| "check_subs L (i # js) = iseq (check_sub L i) (check_subs L js)"

definition checkHealth :: "('r, 'w, 'k, 'p, 'q, 'n) plib \<Rightarrow> (('q, 'n) pool, unit) io" where
  "checkHealth L = ibind (iget dead_subs) (check_subs L)"

text \<open>The channels that the loop receives from, in the order in which \<open>select\<close> picks them.\<close>

datatype hevent = Ev_Stop | Ev_Tick

fun healthLoop :: "('r, 'w, 'k, 'p, 'q, 'n) plib \<Rightarrow> hevent list \<Rightarrow> (('q, 'n) pool, unit) io" where
  "healthLoop L [] = iret ()"
| "healthLoop L (Ev_Stop # es) = iret ()"
| "healthLoop L (Ev_Tick # es) = iseq (checkHealth L) (healthLoop L es)"

end
