(* ===== verification/Insert_Stream.thy ===== *)
theory Insert_Stream
  imports Conn_Stream
begin

text \<open>
  The life of an \<open>InsertStream\<close> (\<^verbatim>\<open>conn/stream.go\<close>): it holds the connection from its creation to its
  \<open>Close\<close>, whatever happens between. And the blocks it sends, beside those of \<open>Insert\<close>.
\<close>

section \<open>The life of a stream\<close>

definition istream_frame :: "('r, 'w, 'k, 'p, 'c, 'x) istream \<Rightarrow> ('r, 'w, 'k, 'p, 'c, 'x) istream \<Rightarrow> bool" where
  "istream_frame s s' \<longleftrightarrow> call_frame (is_call s) (is_call s') \<and> is_bound s' = is_bound s \<and> is_closed s' = is_closed s \<and>
     is_release s' = is_release s"

lemma istream_frame_refl [simp]: "istream_frame s s"
  by (simp add: istream_frame_def)

lemma on_icall_returns:
  fixes s :: "('r, 'w, 'k, 'p, 'c, 'x) istream"
  assumes "call_calm \<mu> m"
  obtains x c where "m (is_call s) = Some (x, c)" and "on_icall m s = Some (x, s\<lparr>is_call := c\<rparr>)"
    and "istream_frame s (s\<lparr>is_call := c\<rparr>)"
proof -
  from calmD [OF assms, of "is_call s"] obtain x c where "m (is_call s) = Some (x, c)" "call_frame (is_call s) c" by auto
  then show thesis by (intro that [of x c]) (simp_all add: on_icall_def istream_frame_def)
qed

lemma conn_lock_ready:
  "conn_lock s = (if cn_state s = StateReady then Some (Ok (), s\<lparr>cn_state := StateBusy\<rparr>)
     else Some (Err (perr KindInternal ''connection is not ready''), s))"
  by (cases "cn_state s") (simp_all add: conn_lock_def)

lemma unlock_on_error_returns:
  fixes m :: "(('r, 'w, 'k, 'p) conn, 'a) io"
  assumes "conn_calm \<mu> m" and "cn_state s = StateBusy"
  obtains x s' where "unlock_on_error m s = Some (x, s')"
    and "if is_panic x then True else cn_state s' = (if \<exists>e. x = Err e then StateReady else StateBusy)"
proof -
  from calmD [OF assms(1), of s] obtain x s' where 1: "m s = Some (x, s')" "conn_frame s s'" by blast
  show thesis
    by (rule that) (use 1 assms(2) in \<open>auto simp: unlock_on_error_def conn_frame_def conn_unlock_def unlock_state_def split: go.splits\<close>)
qed

lemma InsertStream_returns:
  fixes s :: "('r, 'w, 'k, 'p) conn"
  assumes N: "net_ok L \<mu>"
  shows "\<exists>x s'. InsertStream L body s = Some (x :: ('r, 'w, 'k, 'p, 'c, 'x) istream go, s') \<and>
    (if cn_state s = StateReady
     then case x of Ok t \<Rightarrow> cn_state s' = StateBusy \<and> t = new_istream s' | Err e \<Rightarrow> cn_state s' = StateReady | Panic p \<Rightarrow> True
     else s' = s \<and> x = Err (perr KindInternal ''connection is not ready''))"
proof (cases "cn_state s = StateReady")
  case True
  let ?b = "s\<lparr>cn_state := StateBusy\<rparr>"
  obtain x s1 where 1: "unlock_on_error (send_query L body) ?b = Some (x, s1)"
      "if is_panic x then True else cn_state s1 = (if \<exists>e. x = Err e then StateReady else StateBusy)"
    by (rule unlock_on_error_returns [OF cc_send_query [of _ L body], where s = ?b]) simp_all
  show ?thesis
  proof (cases x)
    case (Ok u)
    then have "cn_state s1 = StateBusy" using 1(2) by simp
    from unlock_on_error_returns [OF cc_readColumnInfo [OF N] this] obtain y s2 where
      2: "unlock_on_error (readColumnInfo L) s1 = Some (y, s2)"
        "if is_panic y then True else cn_state s2 = (if \<exists>e. y = Err e then StateReady else StateBusy)" by blast
    show ?thesis
      by (cases y) (use True 1(1) 2 Ok in \<open>simp_all add: InsertStream_def conn_lock_ready\<close>)
  qed (use True 1 in \<open>simp_all add: InsertStream_def conn_lock_ready\<close>)
qed (simp add: InsertStream_def conn_lock_ready)

lemma is_Append_returns:
  "\<exists>x t'. is_Append L I t = Some (x, t') \<and> istream_frame t t' \<and>
    (if is_closed t \<or> \<not> is_bound t then t' = t \<and> (\<exists>e. x = Err e) else True)"
proof (cases "is_closed t \<or> \<not> is_bound t")
  case False
  have c: "call_calm (\<lambda>_. 0) (ibind (go_io (\<lambda>t. insert_rows I ''no data to append'' (ca_cols t))) (\<lambda>rows.
      iseq (write_block L I False rows) (iwrap (nerr KindNetwork ''flush append block'') (on_conn (flush L)))))"
    by (intro call_intros call_on_conn calm_intros)
  show ?thesis
    by (rule on_icall_returns [OF c, of t]) (use False in \<open>auto simp: is_Append_def\<close>)
qed (auto simp: is_Append_def)

text \<open>\<open>Close\<close> of an open stream: the end of the data and the response, then one call of the release function.\<close>

lemma is_Close_open:
  fixes t :: "('r, 'w, 'k, 'p, 'c, 'x) istream"
  assumes N: "net_ok L \<mu>" and "\<not> is_closed t"
  obtains x t1 where "is_Close L (t, r) = Some (if is_panic x then (x, t1, r)
      else (case is_releaseFn (t1, r) of (p, sr) \<Rightarrow> (if p = None then x else outcome p, sr)))"
    and "is_closed t1" and "is_release t1 = is_release t"
proof -
  have c: "call_calm \<mu> (iseq (on_conn (chain_blank L)) (iseq (iwrap (nerr KindNetwork ''flush end-of-data'') (on_conn (flush L)))
      (on_conn (iloop (insert_body L ''read insert response'' close_error ''unexpected server code in insert close'')))))"
    by (intro call_intros call_on_conn calm_intros cc_insert_loop N)
  obtain x c where 1: "on_icall (iseq (on_conn (chain_blank L)) (iseq (iwrap (nerr KindNetwork ''flush end-of-data'') (on_conn (flush L)))
      (on_conn (iloop (insert_body L ''read insert response'' close_error ''unexpected server code in insert close'')))))
      (t\<lparr>is_closed := True\<rparr>) = Some (x, t\<lparr>is_closed := True, is_call := c\<rparr>)"
    by (rule on_icall_returns [OF c, of "t\<lparr>is_closed := True\<rparr>"]) blast
  show thesis
    by (rule that [of x "t\<lparr>is_closed := True, is_call := c\<rparr>"])
      (simp_all only: is_Close_def assms(2) if_False 1 option.map prod.case, simp_all)
qed

lemma is_Close_closed: "is_closed t \<Longrightarrow> is_Close L (t, r) = Some (Ok (), t, r)"
  by (simp add: is_Close_def)

lemma is_Close_returns:
  fixes t :: "('r, 'w, 'k, 'p, 'c, 'x) istream"
  assumes N: "net_ok L \<mu>"
  shows "\<exists>x t' r'. is_Close L (t, r) = Some (x, t', r') \<and>
    (if is_closed t then x = Ok () \<and> t' = t \<and> r' = r
     else if is_panic x then True
     else is_closed t' \<and> is_Close L (t', r') = Some (Ok (), t', r') \<and>
       (if is_release t = Some release_conn then cn_state (ca_conn (is_call t')) = StateReady \<and> r' = r else True))"
proof (cases "is_closed t")
  case False
  obtain x t1 where 1: "is_Close L (t, r) = Some (if is_panic x then (x, t1, r)
      else (case is_releaseFn (t1, r) of (p, sr) \<Rightarrow> (if p = None then x else outcome p, sr)))"
    "is_closed t1" "is_release t1 = is_release t"
    by (rule is_Close_open [OF N False])
  obtain p t2 r2 where 2: "is_releaseFn (t1, r) = (p, t2, r2)" by (metis prod.exhaust)
  have "is_closed t2" using 1(2) 2 by (auto simp: is_releaseFn_def split: option.splits prod.splits)
  moreover have "cn_state (ca_conn (is_call t2)) = StateReady \<and> r2 = r" if "is_release t = Some release_conn"
    using 2 that 1(3) by (auto simp: is_releaseFn_def release_conn_def conn_unlock_def unlock_state_def)
  ultimately show ?thesis using False 1(1) 2 is_Close_closed [of t2 L r2] by auto
qed (simp add: is_Close_closed)

text \<open>
  C13.
  An \<open>InsertStream\<close> holds its connection exactly from its creation to its \<open>Close\<close>. Whatever the peer
  sends, every operation returns. Creating one on a ready connection locks it and gives an open stream
  whose release is \<open>unlock\<close>; if that fails the connection is ready again, and on any other connection
  it fails without a change. \<open>Append\<close> never unlocks: it keeps the state of the connection and of the
  stream, and before \<open>Bind\<close> or after \<open>Close\<close> it is an error without effect. \<open>Close\<close> of an open stream
  closes it and gives the connection back ready, also when the server answers with an exception or
  the connection breaks, unless the library panics; a second \<open>Close\<close> does nothing.
\<close>

theorem insert_stream_returns:
  fixes s :: "('r, 'w, 'k, 'p) conn" and t :: "('r, 'w, 'k, 'p, 'c, 'x) istream"
  assumes "net_ok L \<mu>"
  shows "(\<exists>x s'. InsertStream L body s = Some (x :: ('r, 'w, 'k, 'p, 'c, 'x) istream go, s') \<and>
      (if cn_state s = StateReady
       then case x of Ok t \<Rightarrow> cn_state s' = StateBusy \<and> ca_conn (is_call t) = s' \<and> \<not> is_closed t \<and> \<not> is_bound t \<and>
              is_release t = Some release_conn
            | Err e \<Rightarrow> cn_state s' = StateReady
            | Panic p \<Rightarrow> True
       else s' = s \<and> x = Err (perr KindInternal ''connection is not ready''))) \<and>
    (\<exists>x t'. is_Append L I t = Some (x, t') \<and> cn_state (ca_conn (is_call t')) = cn_state (ca_conn (is_call t)) \<and>
      is_closed t' = is_closed t \<and> is_release t' = is_release t \<and>
      (if is_closed t \<or> \<not> is_bound t then t' = t \<and> (\<exists>e. x = Err e) else True)) \<and>
    (\<exists>x t' r'. is_Close L (t, r) = Some (x, t', r') \<and>
      (if is_closed t then x = Ok () \<and> t' = t \<and> r' = r
       else if is_panic x then True
       else is_closed t' \<and> is_Close L (t', r') = Some (Ok (), t', r') \<and>
         (if is_release t = Some release_conn then cn_state (ca_conn (is_call t')) = StateReady \<and> r' = r else True)))"
proof (intro conjI)
  show "\<exists>x s'. InsertStream L body s = Some (x :: ('r, 'w, 'k, 'p, 'c, 'x) istream go, s') \<and>
      (if cn_state s = StateReady
       then case x of Ok t \<Rightarrow> cn_state s' = StateBusy \<and> ca_conn (is_call t) = s' \<and> \<not> is_closed t \<and> \<not> is_bound t \<and>
              is_release t = Some release_conn
            | Err e \<Rightarrow> cn_state s' = StateReady
            | Panic p \<Rightarrow> True
       else s' = s \<and> x = Err (perr KindInternal ''connection is not ready''))"
  proof -
    obtain x s' where 1: "InsertStream L body s = Some (x :: ('r, 'w, 'k, 'p, 'c, 'x) istream go, s')"
      "if cn_state s = StateReady
       then case x of Ok t \<Rightarrow> cn_state s' = StateBusy \<and> t = new_istream s' | Err e \<Rightarrow> cn_state s' = StateReady | Panic p \<Rightarrow> True
       else s' = s \<and> x = Err (perr KindInternal ''connection is not ready'')"
      using InsertStream_returns [OF assms, of body s] by blast
    show ?thesis
      by (intro exI [of _ x] exI [of _ s']) (use 1 in \<open>cases x; simp add: new_istream_def split: if_splits\<close>)
  qed
  show "\<exists>x t'. is_Append L I t = Some (x, t') \<and> cn_state (ca_conn (is_call t')) = cn_state (ca_conn (is_call t)) \<and>
      is_closed t' = is_closed t \<and> is_release t' = is_release t \<and>
      (if is_closed t \<or> \<not> is_bound t then t' = t \<and> (\<exists>e. x = Err e) else True)"
    using is_Append_returns [of L I t] by (auto simp: istream_frame_def call_frame_def conn_frame_def)
qed (rule is_Close_returns [OF assms])

theorem insert_stream_returns_witness:
  "\<exists>x s'. InsertStream list_lib ''INSERT INTO t VALUES'' (list_conn [5]) =
      Some (x :: (byte list, byte list, unit, nat, byte data_col, unit) istream go, s') \<and>
    (case x of Ok t \<Rightarrow> cn_state s' = StateBusy | Err e \<Rightarrow> cn_state s' = StateReady | Panic p \<Rightarrow> True)"
  using insert_stream_returns [OF list_lib_net, of "''INSERT INTO t VALUES''" "list_conn [5]"
      "column_of list_ctypes (base_ops uint8_t) list_reader list_writer list_buffer"
      "new_istream (list_conn []) :: (byte list, byte list, unit, nat, byte data_col, unit) istream", THEN conjunct1]
  by (elim exE conjE) (rule exI, rule exI, rule conjI, assumption, auto simp: list_conn_def split: go.splits)

section \<open>The blocks a stream sends\<close>

text \<open>
  \<open>Append\<close> writes a column as \<open>Insert\<close> would write it if the column had no state: the contract of
  such a column is that of the column itself, with an empty state.
\<close>

definition stateless :: "('r, 'w, 'c) column \<Rightarrow> ('r, 'w, 'c) column" where
  "stateless I = I\<lparr>co_encode_state := \<lambda>_. None, co_decode_state := \<lambda>_. None\<rparr>"

lemma write_columns_stateless: "write_columns L I False v cs w = write_columns L (stateless I) True v cs w"
proof -
  have "write_column L I False v c w = write_column L (stateless I) True v c w" for c w
  proof -
    have "column_start L (stateless I) v c = column_start L I v c"
      by (simp add: fun_eq_iff column_start_def stateless_def)
    then show ?thesis by (simp add: write_column_def stateless_def Let_def split: option.split)
  qed
  then show ?thesis
    by (induction cs arbitrary: w) (simp_all split: prod.split go.split)
qed

lemma write_block_stateless: "write_block L I False rows = write_block L (stateless I) True rows"
  by (simp add: write_block_def write_columns_stateless)

lemma stateless_start [simp]: "start_image L (stateless I) v c = start_image L I v c"
  by (simp add: start_image_def stateless_def)

lemma conn_column_stateless:
  assumes "conn_column I ok ready content st img"
  shows "conn_column (\<lambda>P W B. stateless (I P W B)) ok ready content (\<lambda>_. []) img"
  using assms unfolding conn_column_def stateless_def by simp

lemma concat_middle:
  "(concat (map (\<lambda>c. f c @ g c) xs) = concat (map (\<lambda>c. f c @ h c @ g c) xs)) = list_all (\<lambda>c. h c = []) xs"
    (is "(?a xs = ?b xs) = ?c xs")
proof -
  have l: "length (?b xs) = length (?a xs) + sum_list (map (\<lambda>c. length (h c)) xs)" for xs
    by (induction xs) simp_all
  have "?c xs" if "?a xs = ?b xs"
  proof -
    have "sum_list (map (\<lambda>c. length (h c)) xs) = 0"
      using arg_cong [OF that, of length] l [of xs] by linarith
    then show ?thesis by (simp add: list_all_iff)
  qed
  moreover have "?c xs \<Longrightarrow> ?a xs = ?b xs"
    by (induction xs) simp_all
  ultimately show ?thesis by (rule iffI)
qed

text \<open>
  C14.
  What \<open>Append\<close> sends, beside what \<open>Insert\<close> would send. Let the bound columns be in good order with
  the same positive number of rows. Then \<open>Append\<close> of an open stream chains the packet header, the
  block info, the counts of columns and rows, and for each column its name, type and data, flushes,
  and reports no error; a column's state is not among these bytes. So the block is the one \<open>Insert\<close>
  writes of the same columns exactly when no column has a state. A LowCardinality column has one.
\<close>

theorem insert_stream_block:
  fixes L :: "('r, 'w, 'k, 'p) chlib" and t :: "('r, 'w, 'k, 'p, 'c, 'x) istream"
  assumes I: "conn_column I ok ready content st img" and L: "lib_ok L pd out" "flushes L"
    and n: "0 < n" "n \<le> 100000000" and k: "ca_cols (is_call t) \<noteq> []" "length (ca_cols (is_call t)) \<le> 1000000"
    and cols: "list_all (\<lambda>c. ok c \<and> length (content c) = n) (ca_cols (is_call t))"
    and t: "is_bound t" "\<not> is_closed t" "cn_revision (ca_conn (is_call t)) = v"
  shows "\<exists>s1 s2. is_Append L (I (cl_reader L) (cl_writer L) (cl_buffer L)) t =
      Some (Ok (), t\<lparr>is_call := s1\<lparr>ca_conn := (ca_conn s1)\<lparr>cn_writer := snd (cl_flush L (cn_writer (ca_conn s1)))\<rparr>\<rparr>\<rparr>) \<and>
    out (cn_writer (ca_conn s1)) = out (cn_writer (ca_conn (is_call t))) @ head_image L v @ info_image L v @
      uvarint (length (ca_cols (is_call t))) @ uvarint n @
      concat (map (\<lambda>c. start_image L (I (cl_reader L) (cl_writer L) (cl_buffer L)) v c @ img c) (ca_cols (is_call t))) \<and>
    write_block L (I (cl_reader L) (cl_writer L) (cl_buffer L)) True (int n) (is_call t) = Some (Ok (), s2) \<and>
    (out (cn_writer (ca_conn s1)) = out (cn_writer (ca_conn s2))) = list_all (\<lambda>c. st c = []) (ca_cols (is_call t))"
proof -
  let ?I = "I (cl_reader L) (cl_writer L) (cl_buffer L)" and ?cs = "ca_cols (is_call t)"
  note J = conn_column_stateless [OF I]
  have ci: "conn_column.column_image I st img L v = (\<lambda>c. start_image L ?I v c @ st c @ img c)"
    by (simp add: fun_eq_iff conn_column.column_image_def [OF I])
  have cj: "conn_column.column_image (\<lambda>P W B. stateless (I P W B)) (\<lambda>_. []) img L v = (\<lambda>c. start_image L ?I v c @ img c)"
    by (simp add: fun_eq_iff conn_column.column_image_def [OF J])
  obtain s2 where 2: "write_block L ?I True (int n) (is_call t) = Some (Ok (), s2)"
    "out (cn_writer (ca_conn s2)) = out (cn_writer (ca_conn (is_call t))) @ head_image L v @ info_image L v @
      uvarint (length ?cs) @ uvarint n @ concat (map (\<lambda>c. start_image L ?I v c @ st c @ img c) ?cs)"
    using conn_column.write_block_out [OF I L(1) n cols k(2)] t(3)
    by (auto simp: conn_column.block_image_def [OF I] ci)
  obtain s1 where 1: "write_block L ?I False (int n) (is_call t) = Some (Ok (), s1)"
    "out (cn_writer (ca_conn s1)) = out (cn_writer (ca_conn (is_call t))) @ head_image L v @ info_image L v @
      uvarint (length ?cs) @ uvarint n @ concat (map (\<lambda>c. start_image L ?I v c @ img c) ?cs)"
    using conn_column.write_block_out [OF J L(1) n cols k(2)] t(3)
    by (auto simp: write_block_stateless conn_column.block_image_def [OF J] cj)
  have "flush L (ca_conn s1) = Some (Ok (), (ca_conn s1)\<lparr>cn_writer := snd (cl_flush L (cn_writer (ca_conn s1)))\<rparr>)"
    using L(2) by (auto simp: flush_def flushes_def split: prod.splits option.splits) (metis fst_conv option.distinct(1))
  moreover have "insert_rows ?I msg ?cs = Ok (int n)" for msg
    by (rule conn_column.insert_rows_ok [OF I n(1) cols k(1)])
  ultimately have "is_Append L ?I t =
      Some (Ok (), t\<lparr>is_call := s1\<lparr>ca_conn := (ca_conn s1)\<lparr>cn_writer := snd (cl_flush L (cn_writer (ca_conn s1)))\<rparr>\<rparr>\<rparr>)"
    using t(1,2) 1(1) by (simp add: is_Append_def on_icall_def go_io_def ibind_def iwrap_def on_conn_def)
  with 1(2) 2 show ?thesis by (intro exI [of _ s1] exI [of _ s2]) (simp add: concat_middle)
qed

theorem insert_stream_block_witness:
  "\<exists>s1 s2. is_Append list_lib (demo_column list_reader list_writer list_buffer)
      ((new_istream (list_conn []))\<lparr>is_call := demo_call [] [Inl demo_strs, Inr demo_nums], is_bound := True\<rparr>) = Some (Ok (), s1) \<and>
    write_block list_lib (demo_column list_reader list_writer list_buffer) True 3 (demo_call [] [Inl demo_strs, Inr demo_nums]) = Some (Ok (), s2) \<and>
    cn_writer (ca_conn (is_call s1)) \<noteq> cn_writer (ca_conn s2)"
proof -
  let ?t = "(new_istream (list_conn []))\<lparr>is_call := demo_call [] [Inl demo_strs, Inr demo_nums], is_bound := True\<rparr>"
  note I = lc_u64.sum.conn_column_axioms [where 'r = "byte list" and 'w = "byte list", of list_ctypes, folded demo_column_eq]
  have f: "flushes list_lib" by (simp add: flushes_def)
  have cols: "list_all (\<lambda>c. lc_u64.sc_ok TYPE(byte list) TYPE(byte list) list_ctypes c \<and> length (lc_u64.sc_content c) = 3) (ca_cols (is_call ?t))"
    using demo_strs_ok demo_nums_ok by (simp add: lc_u64.sc_ok_def lc_u64.sc_content_def demo_strs_content new_data_col_def)
  have "length (le_enc 8 (Suc 0)) = 8" by simp
  then have "le_enc 8 (Suc 0) \<noteq> []" by (simp only: list.size(3) neq0_conv flip: length_greater_0_conv)
  then show ?thesis
    using insert_stream_block [OF I list_lib_ok f _ _ _ _ cols, of 54460] by (auto simp: new_istream_def)
qed

end
