(* ===== verification/Pool_Props.thy ===== *)
theory Pool_Props
  imports Pool Insert_Stream
begin

text \<open>
  What the pool keeps of the connections it hands out, and which replica \<open>Acquire\<close> picks. The
  documented behaviour of a puddle pool is \<open>puddle_ok\<close>, over whether a pool is closed and the set of
  resources that are out.
\<close>

section \<open>Puddle\<close>

definition puddle_ok :: "('r, 'w, 'k, 'p, 'q, 'n) plib \<Rightarrow> ('q \<Rightarrow> bool) \<Rightarrow> ('q \<Rightarrow> nat set) \<Rightarrow> bool" where
  "puddle_ok L shut held \<longleftrightarrow>
     (\<forall>ctor n q x n' q'. pl_acquire L ctor (n, q) = Some (x, n', q') \<longrightarrow> shut q' = shut q \<and>
        (case x of Ok (k, c) \<Rightarrow> \<not> shut q \<and> k \<notin> held q \<and> held q' = insert k (held q) | _ \<Rightarrow> held q' = held q)) \<and>
     (\<forall>k c q. case pl_release L k c q of
        (None, q') \<Rightarrow> k \<in> held q \<and> held q' = held q - {k} \<and> shut q' = shut q | (Some p, q') \<Rightarrow> k \<notin> held q \<and> q' = q) \<and>
     (\<forall>d k c n q. case pl_destroy L d k c (n, q) of
        (None, n', q') \<Rightarrow> k \<in> held q \<and> held q' = held q - {k} \<and> shut q' = shut q | (Some p, n', q') \<Rightarrow> k \<notin> held q \<and> n' = n \<and> q' = q) \<and>
     (\<forall>d n q. case pl_close L d (n, q) of
        None \<Rightarrow> held q \<noteq> {} | Some (n', q') \<Rightarrow> held q = {} \<and> held q' = {} \<and> shut q') \<and>
     (\<forall>m. case pl_newPool L m of Inl e \<Rightarrow> m \<le> 0 | Inr q \<Rightarrow> 0 < m \<and> \<not> shut q \<and> held q = {})"

lemma puddle_acquire:
  assumes "puddle_ok L shut held" and e: "pl_acquire L ctor (n, q) = Some (x, n', q')"
  shows "shut q' = shut q"
    "x = Ok (k, c) \<Longrightarrow> \<not> shut q \<and> k \<notin> held q \<and> held q' = insert k (held q)"
    "(\<And>k c. x \<noteq> Ok (k, c)) \<Longrightarrow> held q' = held q"
proof -
  have "\<forall>ctor n q x n' q'. pl_acquire L ctor (n, q) = Some (x, n', q') \<longrightarrow> shut q' = shut q \<and>
      (case x of Ok (k, c) \<Rightarrow> \<not> shut q \<and> k \<notin> held q \<and> held q' = insert k (held q) | _ \<Rightarrow> held q' = held q)"
    using assms(1) unfolding puddle_ok_def by (rule conjunct1)
  from this [rule_format, OF e] have a: "shut q' = shut q \<and>
      (case x of Ok (k, c) \<Rightarrow> \<not> shut q \<and> k \<notin> held q \<and> held q' = insert k (held q) | _ \<Rightarrow> held q' = held q)" .
  then show "shut q' = shut q" by (rule conjunct1)
  show "x = Ok (k, c) \<Longrightarrow> \<not> shut q \<and> k \<notin> held q \<and> held q' = insert k (held q)" using a by simp
  show "(\<And>k c. x \<noteq> Ok (k, c)) \<Longrightarrow> held q' = held q" using a by (cases x) auto
qed

lemma puddle_release:
  assumes "puddle_ok L shut held" and k: "k \<in> held q"
  shows "\<exists>q'. pl_release L k c q = (None, q') \<and> held q' = held q - {k} \<and> shut q' = shut q"
proof -
  have "case pl_release L k c q of
      (None, q') \<Rightarrow> k \<in> held q \<and> held q' = held q - {k} \<and> shut q' = shut q | (Some p, q') \<Rightarrow> k \<notin> held q \<and> q' = q"
    by (rule assms(1) [unfolded puddle_ok_def, THEN conjunct2, THEN conjunct1, rule_format])
  with k show ?thesis by (auto split: prod.splits option.splits)
qed

lemma puddle_destroy:
  assumes "puddle_ok L shut held" and k: "k \<in> held q"
  shows "\<exists>n' q'. pl_destroy L d k c (n, q) = (None, n', q') \<and> held q' = held q - {k} \<and> shut q' = shut q"
proof -
  have "case pl_destroy L d k c (n, q) of
      (None, n', q') \<Rightarrow> k \<in> held q \<and> held q' = held q - {k} \<and> shut q' = shut q | (Some p, n', q') \<Rightarrow> k \<notin> held q \<and> n' = n \<and> q' = q"
    by (rule assms(1) [unfolded puddle_ok_def, THEN conjunct2, THEN conjunct2, THEN conjunct1, rule_format])
  with k show ?thesis by (auto split: prod.splits option.splits)
qed

lemma puddle_close:
  assumes "puddle_ok L shut held"
  shows "pl_close L d (n, q) = None \<Longrightarrow> held q \<noteq> {}"
    "pl_close L d (n, q) = Some (n', q') \<Longrightarrow> held q = {} \<and> held q' = {} \<and> shut q'"
proof -
  have a: "case pl_close L d (n, q) of None \<Rightarrow> held q \<noteq> {} | Some (n', q') \<Rightarrow> held q = {} \<and> held q' = {} \<and> shut q'"
    by (rule assms [unfolded puddle_ok_def, THEN conjunct2, THEN conjunct2, THEN conjunct2, THEN conjunct1, rule_format])
  show "pl_close L d (n, q) = None \<Longrightarrow> held q \<noteq> {}" using a by simp
  show "pl_close L d (n, q) = Some (n', q') \<Longrightarrow> held q = {} \<and> held q' = {} \<and> shut q'" using a by simp
qed

lemma puddle_new:
  assumes "puddle_ok L shut held"
  shows "pl_newPool L m = Inl e \<Longrightarrow> m \<le> 0" "pl_newPool L m = Inr q \<Longrightarrow> 0 < m \<and> \<not> shut q \<and> held q = {}"
proof -
  have a: "case pl_newPool L m of Inl e \<Rightarrow> m \<le> 0 | Inr q \<Rightarrow> 0 < m \<and> \<not> shut q \<and> held q = {}"
    by (rule assms [unfolded puddle_ok_def, THEN conjunct2, THEN conjunct2, THEN conjunct2, THEN conjunct2, rule_format])
  show "pl_newPool L m = Inl e \<Longrightarrow> m \<le> 0" "pl_newPool L m = Inr q \<Longrightarrow> 0 < m \<and> \<not> shut q \<and> held q = {}"
    using a by simp_all
qed

section \<open>The invariant and what is out\<close>

text \<open>Replicas have pools of their own, and a dead replica's is closed.\<close>

definition pool_inv :: "('q \<Rightarrow> bool) \<Rightarrow> ('q, 'n) pool \<Rightarrow> bool" where
  "pool_inv shut s \<longleftrightarrow> distinct (map ap_p (po_subs s)) \<and>
     (\<forall>a\<in>set (po_subs s). ap_p a < length (po_pools s) \<and> (ap_dead a \<longrightarrow> shut (po_pools s ! ap_p a)))"

definition out_of :: "('q \<Rightarrow> nat set) \<Rightarrow> 'q list \<Rightarrow> (nat \<times> nat) set" where
  "out_of held qs = {(i, k). i < length qs \<and> k \<in> held (qs ! i)}"

abbreviation outstanding :: "('q \<Rightarrow> nat set) \<Rightarrow> ('q, 'n) pool \<Rightarrow> (nat \<times> nat) set" where
  "outstanding held s \<equiv> out_of held (po_pools s)"

lemma nth_upd: "xs[p := x] ! i = (if i = p \<and> p < length xs then x else xs ! i)"
  by (cases "p < length xs"; cases "i = p") (simp_all add: list_update_beyond)

lemma out_of_mem: "(i, k) \<in> out_of held qs \<longleftrightarrow> i < length qs \<and> k \<in> held (qs ! i)"
  by (simp add: out_of_def)

lemma out_of_same: "held q = held (qs ! p) \<Longrightarrow> out_of held (qs[p := q]) = out_of held qs"
  by (auto simp: out_of_def nth_upd split: if_splits)

lemma out_of_insert:
  "p < length qs \<Longrightarrow> held q = insert k (held (qs ! p)) \<Longrightarrow> out_of held (qs[p := q]) = insert (p, k) (out_of held qs)"
  by (auto simp: out_of_def nth_upd split: if_splits)

lemma out_of_remove:
  assumes "p < length qs" and "held q = held (qs ! p) - {k}"
  shows "out_of held (qs[p := q]) = out_of held qs - {(p, k)}"
proof (rule set_eqI)
  fix x :: "nat \<times> nat"
  obtain i l where x: "x = (i, l)" by (cases x)
  show "x \<in> out_of held (qs[p := q]) \<longleftrightarrow> x \<in> out_of held qs - {(p, k)}"
    unfolding x using assms by (cases "i = p") (simp_all add: out_of_mem nth_upd)
qed

lemma out_of_append: "out_of held (qs @ [q]) = out_of held qs \<union> {length qs} \<times> held q"
  by (auto simp: out_of_def nth_append less_Suc_eq)

text \<open>An operation that returns keeps the invariant and what is out.\<close>

definition keeps :: "('q \<Rightarrow> bool) \<Rightarrow> ('q \<Rightarrow> nat set) \<Rightarrow> ('q, 'n) pool \<Rightarrow> ('q, 'n) pool \<Rightarrow> bool" where
  "keeps shut held s s' \<longleftrightarrow> pool_inv shut s' \<and> outstanding held s' = outstanding held s"

lemma inv_pools:
  assumes "pool_inv shut s" and "shut q = shut (po_pools s ! p) \<or> shut q"
  shows "pool_inv shut (s\<lparr>po_env := n, po_pools := (po_pools s)[p := q]\<rparr>)"
  using assms by (auto simp: pool_inv_def nth_upd)

lemma sub_acquire_cases:
  assumes P: "puddle_ok L shut held" and inv: "pool_inv shut s" and i: "i < length (po_subs s)"
    and e: "sub_acquire L i s = Some (x, s')"
  shows "pool_inv shut s' \<and> po_subs s' = po_subs s \<and> po_cfg s' = po_cfg s \<and> po_rrIdx s' = po_rrIdx s \<and>
    (case x of
      Ok pc \<Rightarrow> outstanding held s' = insert (pc_pool pc, pc_res pc) (outstanding held s) \<and>
        (pc_pool pc, pc_res pc) \<notin> outstanding held s \<and> pc_pool pc = ap_p (po_subs s ! i) \<and> pc_addr pc = ap_addr (po_subs s ! i)
    | _ \<Rightarrow> outstanding held s' = outstanding held s)"
proof -
  let ?p = "ap_p (po_subs s ! i)"
  have p: "?p < length (po_pools s)" using inv i by (auto simp: pool_inv_def)
  obtain y n q where a: "pl_acquire L (dial_connect L None (sub_config (po_cfg s) (ap_addr (po_subs s ! i)))) (po_env s, po_pools s ! ?p) = Some (y, n, q)"
    using e by (auto simp: sub_acquire_def Let_def)
  have s': "s' = s\<lparr>po_env := n, po_pools := (po_pools s)[?p := q]\<rparr>" using e a by (auto simp: sub_acquire_def Let_def)
  have inv': "pool_inv shut s'" unfolding s' using inv puddle_acquire(1) [OF P a] by (intro inv_pools) simp_all
  show ?thesis
  proof (cases "\<exists>k c. y = Ok (k, c)")
    case True
    then obtain k c where y: "y = Ok (k, c)" by blast
    have h: "k \<notin> held (po_pools s ! ?p)" "held q = insert k (held (po_pools s ! ?p))" using puddle_acquire(2) [OF P a y] by auto
    have x: "x = Ok \<lparr> pc_conn = c, pc_addr = ap_addr (po_subs s ! i), pc_pool = ?p, pc_res = k \<rparr>"
      using e a y by (auto simp: sub_acquire_def Let_def)
    show ?thesis
      using inv' x h(1) out_of_insert [OF p h(2)] by (simp add: s' out_of_def)
  next
    case False
    then have h: "held q = held (po_pools s ! ?p)" using puddle_acquire(3) [OF P a] by blast
    have "\<not> (\<exists>pc. x = Ok pc)" using e a False by (cases y) (auto simp: sub_acquire_def Let_def)
    then have "case x of Ok pc \<Rightarrow> (False :: bool) | _ \<Rightarrow> outstanding held s' = outstanding held s"
      using out_of_same [OF h] by (cases x) (auto simp: s')
    with inv' show ?thesis by (cases x) (auto simp: s')
  qed
qed

lemma sub_close_cases:
  assumes P: "puddle_ok L shut held" and e: "sub_close L i s = Some (x, s')"
  shows "x = Ok () \<and> (\<exists>n q. s' = s\<lparr>po_env := n, po_pools := (po_pools s)[ap_p (po_subs s ! i) := q]\<rparr> \<and>
    shut q \<and> held q = {} \<and> held (po_pools s ! ap_p (po_subs s ! i)) = {})"
  using e by (auto simp: sub_close_def Let_def dest!: puddle_close(2) [OF P] intro!: exI)

lemma sub_close_keeps:
  assumes "puddle_ok L shut held" and "pool_inv shut s" and "sub_close L i s = Some (x, s')"
  shows "keeps shut held s s' \<and> po_subs s' = po_subs s \<and> po_cfg s' = po_cfg s"
  using sub_close_cases [OF assms(1,3)] assms(2) by (auto simp: keeps_def inv_pools out_of_same)

lemma mark_dead_keeps:
  assumes P: "puddle_ok L shut held" and inv: "pool_inv shut s" and i: "i < length (po_subs s)"
    and e: "mark_dead L i s = Some (x, s')"
  shows "x = Ok () \<and> keeps shut held s s' \<and> length (po_subs s') = length (po_subs s)"
proof (cases "ap_dead (po_subs s ! i)")
  case False
  let ?p = "ap_p (po_subs s ! i)" and ?s = "s\<lparr>po_subs := (po_subs s)[i := (po_subs s ! i)\<lparr>ap_dead := True\<rparr>]\<rparr>"
  have "sub_close L i ?s = Some (x, s')" using e False by (simp add: mark_dead_def)
  from sub_close_cases [OF P this] obtain n q where
    c: "x = Ok ()" "s' = ?s\<lparr>po_env := n, po_pools := (po_pools s)[?p := q]\<rparr>" "shut q" "held q = {}" "held (po_pools s ! ?p) = {}"
    using i by auto
  have d: "map ap_p ((po_subs s)[i := (po_subs s ! i)\<lparr>ap_dead := True\<rparr>]) = map ap_p (po_subs s)"
    using i by (simp add: map_update list_update_same_conv)
  have "ap_p a < length (po_pools s) \<and> (ap_dead a \<longrightarrow> shut ((po_pools s)[?p := q] ! ap_p a))"
    if "a \<in> set ((po_subs s)[i := (po_subs s ! i)\<lparr>ap_dead := True\<rparr>])" for a
  proof -
    from that have "a \<in> insert ((po_subs s ! i)\<lparr>ap_dead := True\<rparr>) (set (po_subs s))"
      using set_update_subset_insert by fast
    then show ?thesis using inv c(3) i by (auto simp: pool_inv_def nth_upd)
  qed
  then have "pool_inv shut s'" using inv d by (simp add: pool_inv_def c(2))
  moreover have "outstanding held s' = outstanding held s" using c(4,5) by (simp add: c(2) out_of_same)
  ultimately show ?thesis using c(1) by (simp add: keeps_def c(2))
qed (use e inv in \<open>auto simp: mark_dead_def keeps_def\<close>)

lemma keeps_trans: "keeps shut held s s1 \<Longrightarrow> keeps shut held s1 s2 \<Longrightarrow> keeps shut held s s2"
  by (simp add: keeps_def)

section \<open>Acquire\<close>

text \<open>The loop of \<open>Acquire\<close> goes through the live replicas from its index on.\<close>

fun acquire_list :: "('r, 'w, 'k, 'p, 'q, 'n) plib \<Rightarrow> nat list \<Rightarrow> (('q, 'n) pool, ('r, 'w, 'k, 'p) pconn option) io" where
  "acquire_list L [] = iret None"
| "acquire_list L (i # js) =
     ibind (itry (sub_acquire L i)) (\<lambda>r. case r of
         Inr pc \<Rightarrow> iret (Some pc)
       | Inl err \<Rightarrow>
           if error_Is err (pl_closedPool L) then acquire_list L js
           else if error_Is err (pl_canceled L) \<or> error_Is err (pl_deadline L) then ifail (nerr KindInternal ''acquire'' err)
           else iseq (mark_dead L i) (acquire_list L js))"

lemma acquire_loop_list:
  "j < length live \<Longrightarrow>
    acquire_loop L live j k = acquire_list L (map (\<lambda>t. live ! ((j + t) mod length live)) [0..<k])"
proof (induction k arbitrary: j)
  case (Suc k)
  let ?n = "length live"
  have "(j + 1) mod ?n < ?n" by (rule mod_less_divisor [OF le_less_trans [OF le0 Suc.prems]])
  moreover have "((j + 1) mod ?n + t) mod ?n = (j + Suc t) mod ?n" for t by (simp add: mod_add_left_eq)
  ultimately have IH: "acquire_loop L live ((j + 1) mod ?n) k = acquire_list L (map (\<lambda>t. live ! ((j + Suc t) mod ?n)) [0..<k])"
    using Suc.IH [of "(j + 1) mod ?n"] by simp
  have "map (\<lambda>t. live ! ((j + t) mod ?n)) [0..<Suc k] = live ! j # map (\<lambda>t. live ! ((j + Suc t) mod ?n)) [0..<k]"
    using Suc.prems by (simp add: map_upt_Suc del: upt_Suc)
  then show ?case by (simp only: acquire_loop.simps acquire_list.simps IH)
qed simp

lemma acquire_loop_rotate:
  assumes "j < length live" shows "acquire_loop L live j (length live) = acquire_list L (rotate j live)"
proof -
  have "map (\<lambda>t. live ! ((j + t) mod length live)) [0..<length live] = rotate j live"
    by (rule nth_equalityI) (simp_all add: nth_rotate)
  with acquire_loop_list [OF assms] show ?thesis by metis
qed

lemma itry_cases:
  "itry m s = (case m s of None \<Rightarrow> None | Some (Ok a, s') \<Rightarrow> Some (Ok (Inr a), s') | Some (Err e, s') \<Rightarrow> Some (Ok (Inl e), s')
     | Some (Panic p, s') \<Rightarrow> Some (Panic p, s'))"
  by (auto simp: itry_def split: option.splits go.splits)

text \<open>What \<open>Acquire\<close> does to the invariant and to what is out.\<close>

definition acquired :: "('q \<Rightarrow> bool) \<Rightarrow> ('q \<Rightarrow> nat set) \<Rightarrow> ('q, 'n) pool \<Rightarrow> ('q, 'n) pool \<Rightarrow> ('r, 'w, 'k, 'p) pconn \<Rightarrow> bool" where
  "acquired shut held s s' pc \<longleftrightarrow> pool_inv shut s' \<and>
     outstanding held s' = insert (pc_pool pc, pc_res pc) (outstanding held s) \<and> (pc_pool pc, pc_res pc) \<notin> outstanding held s"

lemma acquire_list_counts:
  assumes P: "puddle_ok L shut held"
  shows "pool_inv shut s \<Longrightarrow> \<forall>i\<in>set js. i < length (po_subs s) \<Longrightarrow> acquire_list L js s = Some (x, s') \<Longrightarrow>
    (case x of Ok (Some pc) \<Rightarrow> acquired shut held s s' pc | _ \<Rightarrow> keeps shut held s s')"
proof (induction js arbitrary: s)
  case Nil
  then show ?case by (auto simp: keeps_def)
next
  case (Cons i js)
  obtain y s1 where a: "sub_acquire L i s = Some (y, s1)"
    using Cons.prems(3) by (cases "sub_acquire L i s") (auto simp: itry_cases ibind_def)
  note c = sub_acquire_cases [OF P Cons.prems(1) _ a]
  show ?case
  proof (cases y)
    case (Ok pc)
    with Cons.prems a have "x = Ok (Some pc)" "s' = s1" by (auto simp: itry_cases ibind_def)
    then show ?thesis using c Cons.prems(2) Ok by (auto simp: acquired_def)
  next
    case (Panic m)
    with Cons.prems a have "x = Panic m" "s' = s1" by (auto simp: itry_cases ibind_def)
    then show ?thesis using c Cons.prems(2) Panic by (simp add: keeps_def)
  next
    case (Err e)
    have k1: "keeps shut held s s1" and l1: "po_subs s1 = po_subs s" using c Cons.prems(2) Err by (simp_all add: keeps_def)
    have i1: "pool_inv shut s1" using k1 by (simp add: keeps_def)
    have it: "itry (sub_acquire L i) s = Some (Ok (Inl e), s1)" using a Err by (simp add: itry_cases)
    have rest: "case x of Ok (Some pc) \<Rightarrow> acquired shut held s s' pc | _ \<Rightarrow> keeps shut held s s'"
      if "acquire_list L js s2 = Some (x, s')" "keeps shut held s s2" "length (po_subs s2) = length (po_subs s)" for s2
    proof -
      have "case x of Ok (Some pc) \<Rightarrow> acquired shut held s2 s' pc | _ \<Rightarrow> keeps shut held s2 s'"
        using that Cons.prems(2) by (intro Cons.IH) (simp_all add: keeps_def)
      with that(2) show ?thesis by (auto simp: keeps_def acquired_def split: go.splits option.splits)
    qed
    consider "error_Is e (pl_closedPool L)" | "\<not> error_Is e (pl_closedPool L)" "error_Is e (pl_canceled L) \<or> error_Is e (pl_deadline L)"
      | "\<not> error_Is e (pl_closedPool L)" "\<not> (error_Is e (pl_canceled L) \<or> error_Is e (pl_deadline L))" by blast
    then show ?thesis
    proof cases
      case 1
      then have "acquire_list L js s1 = Some (x, s')" using Cons.prems(3) it by simp
      with k1 l1 show ?thesis by (intro rest [of s1]) simp_all
    next
      case 2
      then have "x = Err (nerr KindInternal ''acquire'' e)" "s' = s1" using Cons.prems(3) it by auto
      with k1 show ?thesis by simp
    next
      case 3
      then have b: "ibind (mark_dead L i) (\<lambda>_. acquire_list L js) s1 = Some (x, s')" using Cons.prems(3) it by simp
      then obtain z s2 where m: "mark_dead L i s1 = Some (z, s2)" by (cases "mark_dead L i s1") (auto simp: ibind_def)
      have "z = Ok () \<and> keeps shut held s1 s2 \<and> length (po_subs s2) = length (po_subs s1)"
        using mark_dead_keeps [OF P i1 _ m] Cons.prems(2) l1 by simp
      with b m k1 l1 show ?thesis by (intro rest [of s2]) (auto intro: keeps_trans)
    qed
  qed
qed

lemma live_subs_bound: "i \<in> set (live_subs s) \<Longrightarrow> i < length (po_subs s)"
  by (simp add: live_subs_def)

lemma inv_rrIdx [simp]: "pool_inv shut (s\<lparr>po_rrIdx := j\<rparr>) = pool_inv shut s"
  by (simp add: pool_inv_def)

lemma keeps_refl: "pool_inv shut s \<Longrightarrow> keeps shut held s s"
  by (simp add: keeps_def)

lemma acquire_counts:
  assumes P: "puddle_ok L shut held" and inv: "pool_inv shut s" and e: "Acquire L s = Some (x, s')"
  shows "case x of Ok pc \<Rightarrow> acquired shut held s s' pc | _ \<Rightarrow> keeps shut held s s'"
proof (cases "po_closed s \<or> live_subs s = []")
  case True
  with e inv show ?thesis by (auto simp: Acquire_def Let_def keeps_refl split: if_splits)
next
  case False
  let ?live = "live_subs s" and ?j = "po_rrIdx s mod length (live_subs s)"
  let ?s = "s\<lparr>po_rrIdx := (?j + 1) mod length ?live\<rparr>"
  have j: "?j < length ?live" using False by simp
  obtain y s1 where l: "acquire_list L (rotate ?j ?live) ?s = Some (y, s1)"
    using e False by (cases "acquire_list L (rotate ?j ?live) ?s")
      (auto simp: Acquire_def Let_def ibind_def acquire_loop_rotate [OF j])
  have "case y of Ok (Some pc) \<Rightarrow> acquired shut held ?s s1 pc | _ \<Rightarrow> keeps shut held ?s s1"
    using inv by (intro acquire_list_counts [OF P _ _ l]) (auto dest: live_subs_bound)
  moreover have "case y of Ok (Some pc) \<Rightarrow> x = Ok pc \<and> s' = s1 | Ok None \<Rightarrow> \<exists>e. x = Err e \<and> s' = s1
      | Err e \<Rightarrow> x = Err e \<and> s' = s1 | Panic p \<Rightarrow> x = Panic p \<and> s' = s1"
    using e False l by (auto simp: Acquire_def Let_def ibind_def acquire_loop_rotate [OF j] split: go.splits option.splits)
  ultimately show ?thesis by (auto simp: keeps_def acquired_def split: go.splits option.splits)
qed

section \<open>Connections come back\<close>

text \<open>Giving back, or destroying, what is out takes it off the account and does not panic.\<close>

definition given_back :: "('q \<Rightarrow> bool) \<Rightarrow> ('q \<Rightarrow> nat set) \<Rightarrow> ('r, 'w, 'k, 'p) pconn \<Rightarrow> ('q, 'n) pool \<Rightarrow> ('q, 'n) pool \<Rightarrow> bool" where
  "given_back shut held pc s s' \<longleftrightarrow> pool_inv shut s' \<and> length (po_pools s') = length (po_pools s) \<and>
     outstanding held s' = outstanding held s - {(pc_pool pc, pc_res pc)}"

lemma given_back_conn [simp]: "given_back shut held (pc\<lparr>pc_conn := c\<rparr>) = given_back shut held pc"
  by (simp add: fun_eq_iff given_back_def)

lemma acquired_conn [simp]: "acquired shut held s s' (pc\<lparr>pc_conn := c\<rparr>) = acquired shut held s s' pc"
  by (simp add: acquired_def)

lemma acquired_given_back: "acquired shut held s s1 pc \<Longrightarrow> given_back shut held pc s1 s2 \<Longrightarrow> keeps shut held s s2"
  by (simp add: acquired_def given_back_def keeps_def)

lemma acquired_out: "acquired shut held s s1 pc \<Longrightarrow> pool_inv shut s1 \<and> (pc_pool pc, pc_res pc) \<in> outstanding held s1"
  by (simp add: acquired_def)

lemma pc_gives_back:
  assumes P: "puddle_ok L shut held" and i: "pool_inv shut s" and o: "(pc_pool pc, pc_res pc) \<in> outstanding held s"
  shows "\<exists>s'. pc_Release L pc s = (None, s') \<and> given_back shut held pc s s'"
    and "\<exists>s'. pc_Close L pc s = (None, s') \<and> given_back shut held pc s s'"
proof -
  let ?p = "pc_pool pc" and ?k = "pc_res pc"
  have p: "?p < length (po_pools s)" and k: "?k \<in> held (po_pools s ! ?p)" using o by (simp_all add: out_of_mem)
  have g: "given_back shut held pc s (s\<lparr>po_env := n, po_pools := (po_pools s)[?p := q]\<rparr>)"
    if "held q = held (po_pools s ! ?p) - {?k}" "shut q = shut (po_pools s ! ?p)" for n q
    using that i out_of_remove [OF p that(1)] by (simp add: given_back_def inv_pools)
  obtain q where "pl_release L ?k (pc_conn pc) (po_pools s ! ?p) = (None, q)" "held q = held (po_pools s ! ?p) - {?k}"
      "shut q = shut (po_pools s ! ?p)"
    using puddle_release [OF P k, of "pc_conn pc"] by blast
  with g [of q "po_env s"] show "\<exists>s'. pc_Release L pc s = (None, s') \<and> given_back shut held pc s s'"
    by (simp add: pc_Release_def)
  obtain n q where "pl_destroy L (hang_up L) ?k (pc_conn pc) (po_env s, po_pools s ! ?p) = (None, n, q)"
      "held q = held (po_pools s ! ?p) - {?k}" "shut q = shut (po_pools s ! ?p)"
    using puddle_destroy [OF P k, of "hang_up L" "pc_conn pc" "po_env s"] by blast
  with g [of q n] show "\<exists>s'. pc_Close L pc s = (None, s') \<and> given_back shut held pc s s'"
    by (simp add: pc_Close_def)
qed

lemma pc_counts:
  assumes P: "puddle_ok L shut held" and a: "acquired shut held s s1 pc"
  obtains s2 s3 where "may_panic (pc_Release L (pc\<lparr>pc_conn := c\<rparr>)) s1 = Some (Ok (), s2)" "keeps shut held s s2"
    and "may_panic (pc_Close L (pc\<lparr>pc_conn := c\<rparr>)) s1 = Some (Ok (), s3)" "keeps shut held s s3"
  using pc_gives_back [OF P, of s1 "pc\<lparr>pc_conn := c\<rparr>"] acquired_out [OF a] acquired_given_back [OF a]
  by (fastforce simp: may_panic_def)

text \<open>What is not out cannot be given back.\<close>

lemma pc_Release_panics:
  assumes P: "puddle_ok L shut held" and o: "(pc_pool pc, pc_res pc) \<notin> outstanding held s" and p: "pc_pool pc < length (po_pools s)"
  shows "\<exists>m. pc_Release L pc s = (Some m, s)"
proof -
  have "pc_res pc \<notin> held (po_pools s ! pc_pool pc)" using o p by (simp add: out_of_mem)
  moreover have "case pl_release L (pc_res pc) (pc_conn pc) (po_pools s ! pc_pool pc) of
      (None, q') \<Rightarrow> pc_res pc \<in> held (po_pools s ! pc_pool pc) \<and> held q' = held (po_pools s ! pc_pool pc) - {pc_res pc} \<and>
        shut q' = shut (po_pools s ! pc_pool pc)
    | (Some m, q') \<Rightarrow> pc_res pc \<notin> held (po_pools s ! pc_pool pc) \<and> q' = po_pools s ! pc_pool pc"
    by (rule P [unfolded puddle_ok_def, THEN conjunct2, THEN conjunct1, rule_format])
  ultimately obtain m where "pl_release L (pc_res pc) (pc_conn pc) (po_pools s ! pc_pool pc) = (Some m, po_pools s ! pc_pool pc)"
    by (auto split: prod.splits option.splits)
  then show ?thesis by (simp add: pc_Release_def)
qed

lemma on_pool_apply: "on_pool m (s, d) = map_option (\<lambda>(x, s'). (x, (s', d))) (m s)"
  by (simp add: on_pool_def)

lemma itry_Acquire:
  assumes P: "puddle_ok L shut held" and inv: "pool_inv shut s" and e: "itry (on_pool (Acquire L)) (s, d) = Some (x, s', d')"
  shows "d' = d \<and> (case x of Ok (Inr pc) \<Rightarrow> acquired shut held s s' pc | _ \<Rightarrow> keeps shut held s s') \<and> (\<forall>e. x \<noteq> Err e)"
proof -
  obtain y s1 where a: "Acquire L s = Some (y, s1)" using e by (auto simp: itry_def on_pool_apply)
  from acquire_counts [OF P inv a] e a show ?thesis by (cases y) (auto simp: itry_cases on_pool_apply)
qed

lemma run_op_cases:
  assumes "run_op f pc (s, d) = Some (x, s', d')"
  obtains y c where "x = Ok (y, pc\<lparr>pc_conn := c\<rparr>)" "s' = s"
  using assms by (auto simp: run_op_def)

lemma ibind_Some:
  assumes "ibind m k s = Some (x, s')"
  obtains (Ok) a s1 where "m s = Some (Ok a, s1)" "k a s1 = Some (x, s')"
  | (Err) e where "m s = Some (Err e, s')" "x = Err e"
  | (Panic) p where "m s = Some (Panic p, s')" "x = Panic p"
  using assms by (auto simp: ibind_def split: option.splits go.splits)

text \<open>A panic of the operation, or of a constructor that \<open>Acquire\<close> runs.\<close>

definition own_panic :: "('r, 'w, 'k, 'p, 'q, 'n) plib \<Rightarrow> (('r, 'w, 'k, 'p) conn \<times> 'd, 'a) io \<Rightarrow> string \<Rightarrow> bool" where
  "own_panic L f m \<longleftrightarrow> (\<exists>s s'. Acquire L s = Some (Panic m, s')) \<or> (\<exists>c c'. f c = Some (Panic m, c'))"

definition settled :: "('q \<Rightarrow> bool) \<Rightarrow> ('q \<Rightarrow> nat set) \<Rightarrow> ('r, 'w, 'k, 'p, 'q, 'n) plib \<Rightarrow> (('r, 'w, 'k, 'p) conn \<times> 'd, 'a) io \<Rightarrow>
    ('q, 'n) pool \<Rightarrow> 'a go \<Rightarrow> ('q, 'n) pool \<Rightarrow> bool" where
  "settled shut held L f s x s' \<longleftrightarrow> (case x of Panic m \<Rightarrow> own_panic L f m | _ \<Rightarrow> keeps shut held s s')"

lemma settled_keeps: "settled shut held L f s x s' \<Longrightarrow> \<not> is_panic x \<Longrightarrow> keeps shut held s s'"
  by (cases x) (simp_all add: settled_def)

lemma itry_Acquire_panic: "itry (on_pool (Acquire L)) t = Some (Panic m, t') \<Longrightarrow> own_panic L f m"
  by (cases t) (auto simp: itry_cases on_pool_apply own_panic_def split: option.splits go.splits)

lemma retry_counts:
  assumes P: "puddle_ok L shut held" and inv: "pool_inv shut s" and e: "retry L zero f e1 (s, d) = Some (x, s', d')"
  shows "settled shut held L f s x s'"
proof -
  from e show ?thesis unfolding retry_def
  proof (cases rule: ibind_Some)
    case (Ok r t)
    obtain s1 where t: "t = (s1, d)" and c: "case r of Inr pc \<Rightarrow> acquired shut held s s1 pc | Inl _ \<Rightarrow> keeps shut held s s1"
      using itry_Acquire [OF P inv, of d "Ok r" "fst t" "snd t"] Ok(1) by (cases t) (auto split: sum.splits)
    show ?thesis
    proof (cases r)
      case (Inl e2)
      with Ok(2) c t show ?thesis by (auto simp: ibind_def settled_def)
    next
      case (Inr pc)
      with c have a: "acquired shut held s s1 pc" by simp
      obtain y cn t2 where r: "f (pc_conn pc, d) = Some (y, cn, t2)"
        "run_op f pc (s1, d) = Some (Ok (y, pc\<lparr>pc_conn := cn\<rparr>), s1, t2)"
        using Ok(2) Inr t by (auto simp: run_op_def ibind_def split: option.splits)
      obtain s2 where "may_panic (pc_Release L (pc\<lparr>pc_conn := cn\<rparr>)) s1 = Some (Ok (), s2)" "keeps shut held s s2"
        using pc_counts [OF P a, of cn] by metis
      with Ok(2) Inr t r have "x = y" "keeps shut held s s'" by (auto simp: igo_def on_pool_apply)
      with r(1) show ?thesis by (auto simp: settled_def own_panic_def split: go.split)
    qed
  next
    case (Panic p)
    then show ?thesis by (simp add: settled_def itry_Acquire_panic)
  next
    case (Err e2)
    with itry_Acquire [OF P inv, of d "Err e2" s' d'] show ?thesis by simp
  qed
qed

lemma pooled_counts:
  assumes P: "puddle_ok L shut held" and inv: "pool_inv shut s" and e: "pooled L zero f (s, d) = Some (x, s', d')"
  shows "settled shut held L f s x s'"
proof -
  from e show ?thesis unfolding pooled_def
  proof (cases rule: ibind_Some)
    case (Ok r t)
    obtain s1 where t: "t = (s1, d)" and c: "case r of Inr pc \<Rightarrow> acquired shut held s s1 pc | Inl _ \<Rightarrow> keeps shut held s s1"
      using itry_Acquire [OF P inv, of d "Ok r" "fst t" "snd t"] Ok(1) by (cases t) (auto split: sum.splits)
    show ?thesis
    proof (cases r)
      case (Inl e2)
      with Ok(2) c t show ?thesis by (auto simp: ibind_def settled_def)
    next
      case (Inr pc)
      with c have a: "acquired shut held s s1 pc" by simp
      obtain y cn t2 where r: "f (pc_conn pc, d) = Some (y, cn, t2)"
        "run_op f pc (s1, d) = Some (Ok (y, pc\<lparr>pc_conn := cn\<rparr>), s1, t2)"
        using Ok(2) Inr t by (auto simp: run_op_def ibind_def split: option.splits)
      obtain s2 s3 where k: "may_panic (pc_Release L (pc\<lparr>pc_conn := cn\<rparr>)) s1 = Some (Ok (), s2)" "keeps shut held s s2"
          "may_panic (pc_Close L (pc\<lparr>pc_conn := cn\<rparr>)) s1 = Some (Ok (), s3)" "keeps shut held s s3"
        by (rule pc_counts [OF P a, of cn])
      have b: "(case y of
           Ok a \<Rightarrow> iseq (on_pool (may_panic (pc_Release L (pc\<lparr>pc_conn := cn\<rparr>)))) (iret a)
         | Err e \<Rightarrow> iseq (on_pool (may_panic (pc_Close L (pc\<lparr>pc_conn := cn\<rparr>))))
             (if error_kind e = Some KindNetwork then retry L zero f e else ifail e)
         | Panic m \<Rightarrow> igo (Panic m)) (s1, t2) = Some (x, s', d')"
        using Ok(2) Inr t r(2) by simp
      show ?thesis
      proof (cases y)
        case (Ok v)
        with b k(1,2) show ?thesis by (auto simp: settled_def on_pool_apply)
      next
        case (Err e1)
        have i: "pool_inv shut s3" using k(4) by (simp add: keeps_def)
        from Err b k(3) have "if error_kind e1 = Some KindNetwork then retry L zero f e1 (s3, t2) = Some (x, s', d')
            else x = Err e1 \<and> s' = s3" by (auto simp: on_pool_apply split: if_splits)
        then show ?thesis
          using retry_counts [OF P i, of zero f e1 t2 x s' d'] k(4) keeps_trans [OF k(4), of s']
          by (cases "error_kind e1 = Some KindNetwork") (auto simp: settled_def split: go.splits)
      next
        case (Panic m)
        with b r(1) show ?thesis by (auto simp: igo_def settled_def own_panic_def)
      qed
    qed
  next
    case (Panic p)
    then show ?thesis by (simp add: settled_def itry_Acquire_panic)
  next
    case (Err e2)
    with itry_Acquire [OF P inv, of d "Err e2" s' d'] show ?thesis by simp
  qed
qed

section \<open>Which replica is picked\<close>

definition sub_pool :: "('q, 'n) pool \<Rightarrow> nat \<Rightarrow> 'q" where
  "sub_pool s i = po_pools s ! ap_p (po_subs s ! i)"

definition try_sub :: "('r, 'w, 'k, 'p, 'q, 'n) plib \<Rightarrow> ('q, 'n) pool \<Rightarrow> nat \<Rightarrow> 'n \<Rightarrow>
    ((nat \<times> ('r, 'w, 'k, 'p) conn) go \<times> 'n \<times> 'q) option" where
  "try_sub L s i n = pl_acquire L (dial_connect L None (sub_config (po_cfg s) (ap_addr (po_subs s ! i)))) (n, sub_pool s i)"

text \<open>A replica that gives a connection, and one that fails otherwise than by the caller's context.\<close>

definition sub_up :: "('r, 'w, 'k, 'p, 'q, 'n) plib \<Rightarrow> ('q, 'n) pool \<Rightarrow> nat \<Rightarrow> bool" where
  "sub_up L s i \<longleftrightarrow> (\<forall>n. \<exists>x n' q'. try_sub L s i n = Some (Ok x, n', q'))"

definition sub_down :: "('r, 'w, 'k, 'p, 'q, 'n) plib \<Rightarrow> ('q, 'n) pool \<Rightarrow> nat \<Rightarrow> bool" where
  "sub_down L s i \<longleftrightarrow> (\<forall>n. \<exists>e n' q'. try_sub L s i n = Some (Err e, n', q') \<and>
     \<not> error_Is e (pl_closedPool L) \<and> \<not> error_Is e (pl_canceled L) \<and> \<not> error_Is e (pl_deadline L))"

definition kill :: "nat list \<Rightarrow> addr_pool list \<Rightarrow> addr_pool list" where
  "kill js subs = map (\<lambda>i. if i \<in> set js then (subs ! i)\<lparr>ap_dead := True\<rparr> else subs ! i) [0..<length subs]"

lemma kill_Nil [simp]: "kill [] subs = subs"
  by (simp add: kill_def map_nth)

lemma kill_Cons:
  "i \<notin> set js \<Longrightarrow> i < length subs \<Longrightarrow> kill js (subs[i := (subs ! i)\<lparr>ap_dead := True\<rparr>]) = kill (i # js) subs"
  by (auto simp: kill_def nth_upd)

text \<open>The address of the first of a list of replicas.\<close>

definition first_addr :: "addr_pool list \<Rightarrow> nat list \<Rightarrow> string option" where
  "first_addr subs js = (case js of [] \<Rightarrow> None | i # _ \<Rightarrow> Some (ap_addr (subs ! i)))"

lemma first_addr_simps [simp]: "first_addr subs [] = None" "first_addr subs (i # js) = Some (ap_addr (subs ! i))"
  by (simp_all add: first_addr_def)

lemma first_addr_dead [simp]: "first_addr (subs[i := (subs ! i)\<lparr>ap_dead := True\<rparr>]) js = first_addr subs js"
  by (cases js) (simp_all add: nth_upd)

lemma down_step:
  assumes P: "puddle_ok L shut held" and i: "i < length (po_subs s)" "\<not> ap_dead (po_subs s ! i)"
    and p: "ap_p (po_subs s ! i) < length (po_pools s)" and d: "sub_down L s i"
  shows "held (sub_pool s i) \<noteq> {} \<Longrightarrow> acquire_list L (i # js) s = None"
    "held (sub_pool s i) = {} \<Longrightarrow> \<exists>n q. shut q \<and> acquire_list L (i # js) s =
       acquire_list L js (s\<lparr>po_subs := (po_subs s)[i := (po_subs s ! i)\<lparr>ap_dead := True\<rparr>], po_env := n,
         po_pools := (po_pools s)[ap_p (po_subs s ! i) := q]\<rparr>)"
proof -
  let ?p = "ap_p (po_subs s ! i)" and ?subs = "(po_subs s)[i := (po_subs s ! i)\<lparr>ap_dead := True\<rparr>]"
  obtain e n1 q1 where a: "try_sub L s i (po_env s) = Some (Err e, n1, q1)"
    and e: "\<not> error_Is e (pl_closedPool L)" "\<not> error_Is e (pl_canceled L)" "\<not> error_Is e (pl_deadline L)"
    using d unfolding sub_down_def by blast
  have h: "held q1 = held (sub_pool s i)"
    using puddle_acquire(3) [OF P a [unfolded try_sub_def]] by simp
  let ?s1 = "s\<lparr>po_env := n1, po_pools := (po_pools s)[?p := q1]\<rparr>"
  have s1: "itry (sub_acquire L i) s = Some (Ok (Inl e), ?s1)"
    using a by (simp add: itry_def sub_acquire_def try_sub_def sub_pool_def Let_def)
  have loop: "acquire_list L (i # js) s = ibind (sub_close L i) (\<lambda>_. acquire_list L js) (?s1\<lparr>po_subs := ?subs\<rparr>)"
    using s1 e i by (simp add: mark_dead_def ibind_assoc)
  have c: "sub_close L i (?s1\<lparr>po_subs := ?subs\<rparr>) = map_option (\<lambda>(n, q). (Ok (), s\<lparr>po_subs := ?subs, po_env := n, po_pools := (po_pools s)[?p := q]\<rparr>))
      (pl_close L (hang_up L) (n1, q1))"
    using i p by (auto simp: sub_close_def Let_def)
  show "held (sub_pool s i) \<noteq> {} \<Longrightarrow> acquire_list L (i # js) s = None"
    using puddle_close(2) [OF P, of "hang_up L" n1 q1] c loop h
    by (cases "pl_close L (hang_up L) (n1, q1)") (auto simp: ibind_def)
  show "held (sub_pool s i) = {} \<Longrightarrow> \<exists>n q. shut q \<and> acquire_list L (i # js) s =
       acquire_list L js (s\<lparr>po_subs := ?subs, po_env := n, po_pools := (po_pools s)[?p := q]\<rparr>)"
    using puddle_close [OF P, of "hang_up L" n1 q1] c loop h
    by (cases "pl_close L (hang_up L) (n1, q1)") (fastforce simp: ibind_def)+
qed

lemma acquire_list_order:
  assumes P: "puddle_ok L shut held"
  shows "pool_inv shut s \<Longrightarrow> distinct js \<Longrightarrow>
    \<forall>i\<in>set js. i < length (po_subs s) \<and> \<not> ap_dead (po_subs s ! i) \<and> (sub_up L s i \<or> sub_down L s i) \<Longrightarrow>
    (let ds = takeWhile (\<lambda>i. \<not> sub_up L s i) js
     in if \<exists>i\<in>set ds. held (sub_pool s i) \<noteq> {} then acquire_list L js s = None
        else \<exists>x s'. acquire_list L js s = Some (Ok x, s') \<and> po_subs s' = kill ds (po_subs s) \<and> po_rrIdx s' = po_rrIdx s \<and>
          map_option pc_addr x = first_addr (po_subs s) (dropWhile (\<lambda>i. \<not> sub_up L s i) js))"
proof (induction js arbitrary: s)
  case (Cons i js)
  let ?p = "ap_p (po_subs s ! i)"
  have p: "?p < length (po_pools s)" and i: "i < length (po_subs s)" "\<not> ap_dead (po_subs s ! i)"
    using Cons.prems(1,3) by (auto simp: pool_inv_def)
  show ?case
  proof (cases "sub_up L s i")
    case True
    then obtain k c n q where "try_sub L s i (po_env s) = Some (Ok (k, c), n, q)" unfolding sub_up_def by fast
    then have "sub_acquire L i s = Some (Ok \<lparr> pc_conn = c, pc_addr = ap_addr (po_subs s ! i), pc_pool = ?p, pc_res = k \<rparr>,
        s\<lparr>po_env := n, po_pools := (po_pools s)[?p := q]\<rparr>)"
      by (simp add: sub_acquire_def try_sub_def sub_pool_def Let_def)
    then show ?thesis using True by (simp add: itry_def)
  next
    case False
    then have d: "sub_down L s i" using Cons.prems(3) by simp
    show ?thesis
    proof (cases "held (sub_pool s i) = {}")
      case h: False
      with down_step(1) [OF P i p d h] False show ?thesis by (auto simp: Let_def)
    next
      case h: True
      let ?subs = "(po_subs s)[i := (po_subs s ! i)\<lparr>ap_dead := True\<rparr>]"
      obtain n q where q: "shut q" and l: "acquire_list L (i # js) s =
          acquire_list L js (s\<lparr>po_subs := ?subs, po_env := n, po_pools := (po_pools s)[?p := q]\<rparr>)"
        using down_step(2) [OF P i p d h] by blast
      let ?s = "s\<lparr>po_subs := ?subs, po_env := n, po_pools := (po_pools s)[?p := q]\<rparr>"
      have ne: "k \<noteq> i \<and> ap_p (po_subs s ! k) \<noteq> ?p" if "k \<in> set js" for k
      proof -
        have "k \<noteq> i" "k < length (po_subs s)" using Cons.prems(2,3) that by auto
        moreover have "distinct (map ap_p (po_subs s))" using Cons.prems(1) by (simp add: pool_inv_def)
        ultimately show ?thesis
          using nth_eq_iff_index_eq [of "map ap_p (po_subs s)" k i] i(1) by simp
      qed
      have same: "try_sub L ?s k = try_sub L s k \<and> sub_pool ?s k = sub_pool s k" if "k \<in> set js" for k
        using ne [OF that] by (simp add: fun_eq_iff try_sub_def sub_pool_def nth_upd)
      then have up: "sub_up L ?s k = sub_up L s k \<and> sub_down L ?s k = sub_down L s k" if "k \<in> set js" for k
        using that by (simp add: sub_up_def sub_down_def)
      have tw: "takeWhile (\<lambda>k. \<not> sub_up L ?s k) js = takeWhile (\<lambda>k. \<not> sub_up L s k) js"
        "dropWhile (\<lambda>k. \<not> sub_up L ?s k) js = dropWhile (\<lambda>k. \<not> sub_up L s k) js"
        using up by (auto intro: takeWhile_cong dropWhile_cong)
      have in_js: "k \<in> set js" if "k \<in> set (takeWhile f js)" for f k using that set_takeWhileD by fast
      have inv: "pool_inv shut ?s"
      proof -
        have "map ap_p ?subs = map ap_p (po_subs s)" using i(1) by (simp add: map_update list_update_same_conv)
        moreover have "ap_p a < length (po_pools s) \<and> (ap_dead a \<longrightarrow> shut ((po_pools s)[?p := q] ! ap_p a))" if "a \<in> set ?subs" for a
        proof -
          from that have "a \<in> insert ((po_subs s ! i)\<lparr>ap_dead := True\<rparr>) (set (po_subs s))"
            using set_update_subset_insert by fast
          then show ?thesis using Cons.prems(1) q p by (auto simp: pool_inv_def nth_upd)
        qed
        ultimately show ?thesis using Cons.prems(1) by (simp add: pool_inv_def)
      qed
      have "\<forall>k\<in>set js. k < length (po_subs ?s) \<and> \<not> ap_dead (po_subs ?s ! k) \<and> (sub_up L ?s k \<or> sub_down L ?s k)"
        using Cons.prems(3) up ne by (simp add: nth_upd)
      note IH = Cons.IH [OF inv _ this]
      have nd: "i \<notin> set (takeWhile (\<lambda>k. \<not> sub_up L s k) js)" using Cons.prems(2) in_js by auto
      show ?thesis
        using IH Cons.prems(2) False h l tw same in_js
        by (simp add: Let_def kill_Cons [OF nd i(1)] del: acquire_list.simps cong: if_cong)
    qed
  qed
qed simp

lemma try_sub_rrIdx [simp]: "sub_up L (s\<lparr>po_rrIdx := j\<rparr>) = sub_up L s" "sub_down L (s\<lparr>po_rrIdx := j\<rparr>) = sub_down L s"
  "sub_pool (s\<lparr>po_rrIdx := j\<rparr>) = sub_pool s"
  by (simp_all add: fun_eq_iff sub_up_def sub_down_def try_sub_def sub_pool_def)

lemma kill_live:
  assumes "set js = set (live_subs s)" shows "\<forall>a\<in>set (kill js (po_subs s)). ap_dead a"
proof
  fix a assume "a \<in> set (kill js (po_subs s))"
  then obtain i where i: "i < length (po_subs s)" and a: "a = (if i \<in> set js then (po_subs s ! i)\<lparr>ap_dead := True\<rparr> else po_subs s ! i)"
    unfolding kill_def by auto
  have "i \<in> set js \<longleftrightarrow> \<not> ap_dead (po_subs s ! i)" unfolding assms using i by (simp add: live_subs_def)
  with a show "ap_dead a" by simp
qed

text \<open>
  C10.
  \<open>Acquire\<close> tries the live replicas in turn, from the round-robin index on. With replicas that either
  answer or fail, it gives a connection to the first that answers, marks dead exactly those before
  it, and moves the index on by one; when none answers all become dead and it reports that. The
  exception: closing the pool of a failing replica waits for its connections that are in use, so
  \<open>Acquire\<close>, which holds the pool's mutex, hangs when such a replica has one.
\<close>

theorem acquire_order:
  assumes P: "puddle_ok L shut held" and inv: "pool_inv shut s" and op: "\<not> po_closed s" "live_subs s \<noteq> []"
    and net: "\<forall>i\<in>set (live_subs s). sub_up L s i \<or> sub_down L s i"
  shows "let n = length (live_subs s); js = rotate (po_rrIdx s mod n) (live_subs s);
      ds = takeWhile (\<lambda>i. \<not> sub_up L s i) js
    in if \<exists>i\<in>set ds. held (sub_pool s i) \<noteq> {} then Acquire L s = None
       else \<exists>x s'. Acquire L s = Some (x, s') \<and> po_subs s' = kill ds (po_subs s) \<and> po_rrIdx s' = (po_rrIdx s mod n + 1) mod n \<and>
         (case dropWhile (\<lambda>i. \<not> sub_up L s i) js of
            [] \<Rightarrow> x = Err (perr KindInternal ''all replicas unreachable'')
          | i # _ \<Rightarrow> \<exists>pc. x = Ok pc \<and> pc_addr pc = ap_addr (po_subs s ! i))"
proof -
  let ?live = "live_subs s" and ?n = "length (live_subs s)"
  let ?j = "po_rrIdx s mod ?n"
  let ?js = "rotate ?j ?live"
  let ?s = "s\<lparr>po_rrIdx := (?j + 1) mod ?n\<rparr>"
  let ?ds = "takeWhile (\<lambda>i. \<not> sub_up L s i) ?js" and ?us = "dropWhile (\<lambda>i. \<not> sub_up L s i) ?js"
  have j: "?j < ?n" using op by simp
  have acq: "Acquire L s = ibind (acquire_list L ?js) (\<lambda>r. case r of
            Some pc \<Rightarrow> iret pc
          | None \<Rightarrow> ibind (iget (\<lambda>s. \<forall>a\<in>set (po_subs s). ap_dead a)) (\<lambda>allDead.
              ifail (perr KindInternal (if allDead then ''all replicas unreachable'' else ''no available connections'')))) ?s"
    using op acquire_loop_rotate [OF j, of L] by (simp add: Acquire_def Let_def)
  have "distinct ?js" by (simp add: live_subs_def)
  moreover have "\<forall>i\<in>set ?js. i < length (po_subs ?s) \<and> \<not> ap_dead (po_subs ?s ! i) \<and> (sub_up L ?s i \<or> sub_down L ?s i)"
    using net by (auto simp: live_subs_def)
  ultimately have o: "if \<exists>i\<in>set ?ds. held (sub_pool s i) \<noteq> {} then acquire_list L ?js ?s = None
      else \<exists>x s'. acquire_list L ?js ?s = Some (Ok x, s') \<and> po_subs s' = kill ?ds (po_subs s) \<and> po_rrIdx s' = (?j + 1) mod ?n \<and>
        map_option pc_addr x = first_addr (po_subs s) ?us"
    using acquire_list_order [OF P, of ?s ?js] inv by (simp add: Let_def cong: if_cong)
  show ?thesis
  proof (cases "\<exists>i\<in>set ?ds. held (sub_pool s i) \<noteq> {}")
    case True
    then show ?thesis using o acq by (simp add: Let_def ibind_def)
  next
    case False
    then obtain x s' where x: "acquire_list L ?js ?s = Some (Ok x, s')" "po_subs s' = kill ?ds (po_subs s)" "po_rrIdx s' = (?j + 1) mod ?n"
        "map_option pc_addr x = first_addr (po_subs s) ?us"
      using o by auto
    show ?thesis
    proof (cases ?us)
      case Nil
      then have ds: "?ds = ?js" by (metis append_Nil2 takeWhile_dropWhile_id)
      have "\<forall>a\<in>set (po_subs s'). ap_dead a" unfolding x(2) ds by (rule kill_live) simp
      moreover have "x = None" using x(4) Nil by simp
      ultimately have "Acquire L s = Some (Err (perr KindInternal ''all replicas unreachable''), s')" using acq x(1) by simp
      with x(2,3) False show ?thesis unfolding Let_def Nil by auto
    next
      case (Cons i us)
      then obtain pc where "x = Some pc" "pc_addr pc = ap_addr (po_subs s ! i)" using x(4) by auto
      with x Cons False acq show ?thesis by (auto simp: Let_def)
    qed
  qed
qed

section \<open>Health checks\<close>

definition health_dial :: "('r, 'w, 'k, 'p, 'q, 'n) plib \<Rightarrow> pconfig \<Rightarrow> string \<Rightarrow> 'n \<Rightarrow> ('r, 'w, 'k, 'p) conn go \<times> 'n" where
  "health_dial L g addr = dial_connect L (Some (health_timeout g)) (sub_config g addr)"

text \<open>A server that lets a client in, and one that does not, whatever the moment.\<close>

definition answers :: "('r, 'w, 'k, 'p, 'q, 'n) plib \<Rightarrow> pconfig \<Rightarrow> string \<Rightarrow> bool" where
  "answers L g addr \<longleftrightarrow> (\<forall>n. \<exists>c n'. health_dial L g addr n = (Ok c, n'))"

definition refuses :: "('r, 'w, 'k, 'p, 'q, 'n) plib \<Rightarrow> pconfig \<Rightarrow> string \<Rightarrow> bool" where
  "refuses L g addr \<longleftrightarrow> (\<forall>n. \<exists>e n'. health_dial L g addr n = (Err e, n'))"

text \<open>The replicas \<open>R\<close> have new open pools and the others are as they were.\<close>

definition revived :: "('q \<Rightarrow> bool) \<Rightarrow> ('q \<Rightarrow> nat set) \<Rightarrow> nat set \<Rightarrow> ('q, 'n) pool \<Rightarrow> ('q, 'n) pool \<Rightarrow> bool" where
  "revived shut held R s s' \<longleftrightarrow> pool_inv shut s' \<and> po_cfg s' = po_cfg s \<and> po_closed s' = po_closed s \<and>
     length (po_subs s') = length (po_subs s) \<and>
     (\<forall>i<length (po_subs s). ap_addr (po_subs s' ! i) = ap_addr (po_subs s ! i) \<and>
        (if i \<in> R then \<not> ap_dead (po_subs s' ! i) \<and> \<not> shut (sub_pool s' i) \<and> held (sub_pool s' i) = {}
         else ap_dead (po_subs s' ! i) = ap_dead (po_subs s ! i) \<and> sub_pool s' i = sub_pool s i))"

lemma revived_refl: "pool_inv shut s \<Longrightarrow> revived shut held {} s s"
  by (simp add: revived_def)

lemma revived_trans: "revived shut held R s s1 \<Longrightarrow> revived shut held R' s1 s2 \<Longrightarrow> revived shut held (R \<union> R') s s2"
  by (auto simp: revived_def split: if_splits)

lemma check_sub_refuses:
  assumes "refuses L (po_cfg s) (ap_addr (po_subs s ! i))" and "pool_inv shut s"
  shows "\<exists>s'. check_sub L i s = Some (Ok (), s') \<and> revived shut held {} s s'"
proof -
  obtain e n where "health_dial L (po_cfg s) (ap_addr (po_subs s ! i)) (po_env s) = (Err e, n)"
    using assms(1) unfolding refuses_def by blast
  then have "check_sub L i s = Some (Ok (), s\<lparr>po_env := n\<rparr>)"
    by (simp add: check_sub_def check_dial_def health_dial_def itry_def)
  with assms(2) show ?thesis by (simp add: revived_def pool_inv_def sub_pool_def)
qed

lemma check_sub_answers:
  assumes P: "puddle_ok L shut held" and a: "answers L (po_cfg s) (ap_addr (po_subs s ! i))" and inv: "pool_inv shut s"
    and i: "i < length (po_subs s)" and h: "held (sub_pool s i) = {}" and m: "0 < maxSize (po_cfg s)"
  shows "\<exists>s'. check_sub L i s = Some (Ok (), s') \<and> revived shut held {i} s s'"
proof -
  let ?p = "ap_p (po_subs s ! i)"
  obtain c n where d: "health_dial L (po_cfg s) (ap_addr (po_subs s ! i)) (po_env s) = (Ok c, n)"
    using a unfolding answers_def by blast
  obtain q where q: "newSubPool L (po_cfg s) = Inr q" and new: "\<not> shut q" "held q = {}"
    using puddle_new [OF P, of "maxSize (po_cfg s)"] m
    by (cases "pl_newPool L (maxSize (po_cfg s))") (auto simp: newSubPool_def)
  obtain n1 q1 where c: "pl_close L (hang_up L) (hang_up L c n, sub_pool s i) = Some (n1, q1)"
    using puddle_close(1) [OF P] h by fastforce
  have shut: "shut q1" using puddle_close(2) [OF P c] by simp
  let ?s = "s\<lparr>po_env := n1, po_pools := (po_pools s)[?p := q1]\<rparr>"
  have e: "check_sub L i s = Some (Ok (), replace_sub i q ?s)"
    using d q c by (simp add: check_sub_def check_dial_def health_dial_def itry_def sub_close_def sub_pool_def Let_def)
  have inv1: "pool_inv shut ?s" using inv shut by (intro inv_pools) simp_all
  let ?a = "(po_subs s ! i)\<lparr>ap_p := length (po_pools s), ap_dead := False\<rparr>"
  have ps: "ap_p (po_subs s ! k) < length (po_pools s)" if "k < length (po_subs s)" for k
    using inv that by (auto simp: pool_inv_def)
  have subs: "po_subs (replace_sub i q ?s) = (po_subs s)[i := ?a]" "po_pools (replace_sub i q ?s) = (po_pools s)[?p := q1] @ [q]"
    by (simp_all add: replace_sub_def)
  have ne: "ap_p (po_subs s ! k) \<noteq> ?p" if "k < length (po_subs s)" "k \<noteq> i" for k
    using inv that i nth_eq_iff_index_eq [of "map ap_p (po_subs s)" k i] by (auto simp: pool_inv_def)
  have "length (po_pools s) \<notin> set (map ap_p (po_subs s))" using inv by (auto simp: pool_inv_def)
  then have "distinct ((map ap_p (po_subs s))[i := length (po_pools s)])"
    using inv by (intro distinct_list_update) (auto simp: pool_inv_def)
  then have "distinct (map ap_p ((po_subs s)[i := ?a]))" by (simp add: map_update)
  moreover have "ap_p b < length (po_pools s) + 1 \<and> (ap_dead b \<longrightarrow> shut (((po_pools s)[?p := q1] @ [q]) ! ap_p b))"
    if "b \<in> set ((po_subs s)[i := ?a])" for b
  proof -
    from that have "b = ?a \<or> b \<in> set (po_subs ?s)" using set_update_subset_insert [of "po_subs s" i ?a] by auto
    then show ?thesis using inv1 by (auto simp: pool_inv_def nth_append)
  qed
  ultimately have "pool_inv shut (replace_sub i q ?s)" by (simp add: pool_inv_def subs)
  moreover have "sub_pool (replace_sub i q ?s) i = q" using i by (simp add: sub_pool_def subs nth_append)
  moreover have "sub_pool (replace_sub i q ?s) k = sub_pool s k" if "k < length (po_subs s)" "k \<noteq> i" for k
    using that ps [OF that(1)] ne [OF that] by (simp add: sub_pool_def subs nth_append)
  ultimately have "revived shut held {i} s (replace_sub i q ?s)"
    using new i by (auto simp: revived_def subs nth_upd replace_sub_def)
  with e show ?thesis by blast
qed

lemma check_subs_revive:
  assumes P: "puddle_ok L shut held"
  shows "pool_inv shut s \<Longrightarrow> distinct js \<Longrightarrow> 0 < maxSize (po_cfg s) \<Longrightarrow>
    \<forall>i\<in>set js. i < length (po_subs s) \<and> held (sub_pool s i) = {} \<and>
      (answers L (po_cfg s) (ap_addr (po_subs s ! i)) \<or> refuses L (po_cfg s) (ap_addr (po_subs s ! i))) \<Longrightarrow>
    \<exists>s'. check_subs L js s = Some (Ok (), s') \<and>
      revived shut held {i\<in>set js. answers L (po_cfg s) (ap_addr (po_subs s ! i))} s s'"
proof (induction js arbitrary: s)
  case Nil
  then show ?case by (simp add: revived_refl)
next
  case (Cons i js)
  let ?ok = "\<lambda>k. answers L (po_cfg s) (ap_addr (po_subs s ! k))"
  let ?R = "if ?ok i then {i} else {}"
  obtain s1 where 1: "check_sub L i s = Some (Ok (), s1)" "revived shut held ?R s s1"
    using check_sub_answers [OF P _ Cons.prems(1), of i] check_sub_refuses [OF _ Cons.prems(1), of L i held] Cons.prems(3,4)
    by (cases "?ok i") auto
  have r: "pool_inv shut s1" "po_cfg s1 = po_cfg s" "length (po_subs s1) = length (po_subs s)"
    "\<And>k. k \<in> set js \<Longrightarrow> ap_addr (po_subs s1 ! k) = ap_addr (po_subs s ! k) \<and> sub_pool s1 k = sub_pool s k"
    using 1(2) Cons.prems(2,4) by (auto simp: revived_def split: if_splits)
  obtain s2 where 2: "check_subs L js s1 = Some (Ok (), s2)"
    "revived shut held {k\<in>set js. answers L (po_cfg s1) (ap_addr (po_subs s1 ! k))} s1 s2"
    using Cons.IH [OF r(1)] Cons.prems(2,3,4) r by auto
  have "{k\<in>set js. answers L (po_cfg s1) (ap_addr (po_subs s1 ! k))} = {k\<in>set js. ?ok k}" using r by auto
  with revived_trans [OF 1(2) 2(2)] have "revived shut held (?R \<union> {k\<in>set js. ?ok k}) s s2" by simp
  moreover have "?R \<union> {k\<in>set js. ?ok k} = {k\<in>set (i # js). ?ok k}" by auto
  ultimately show ?case using 1(1) 2(1) by auto
qed

text \<open>
  C23.
  A health check gives every dead replica whose server answers again a new, open pool and makes it
  live, and leaves the others alone. It does not look at whether the pool was closed: a check that
  \<open>select\<close> picks, or that still runs, after \<open>Close\<close> opens pools that a second \<open>Close\<close> will not close.
\<close>

theorem check_health:
  assumes P: "puddle_ok L shut held" and inv: "pool_inv shut s" and m: "0 < maxSize (po_cfg s)"
    and dead: "\<forall>i\<in>set (dead_subs s). held (sub_pool s i) = {} \<and>
      (answers L (po_cfg s) (ap_addr (po_subs s ! i)) \<or> refuses L (po_cfg s) (ap_addr (po_subs s ! i)))"
  shows "\<exists>s'. checkHealth L s = Some (Ok (), s') \<and>
    revived shut held {i\<in>set (dead_subs s). answers L (po_cfg s) (ap_addr (po_subs s ! i))} s s' \<and>
    (if po_closed s then pool_Close L s' = Some (Ok (), s') \<and> healthLoop L [Ev_Tick, Ev_Stop] s = Some (Ok (), s') else True)"
proof -
  have "distinct (dead_subs s)" "\<forall>i\<in>set (dead_subs s). i < length (po_subs s)" by (auto simp: dead_subs_def)
  then obtain s' where s': "check_subs L (dead_subs s) s = Some (Ok (), s')"
    "revived shut held {i\<in>set (dead_subs s). answers L (po_cfg s) (ap_addr (po_subs s ! i))} s s'"
    using check_subs_revive [OF P inv, of "dead_subs s"] m dead by auto
  then have c: "checkHealth L s = Some (Ok (), s')" by (simp add: checkHealth_def)
  moreover have "po_closed s \<Longrightarrow> pool_Close L s' = Some (Ok (), s')" using s'(2) by (simp add: pool_Close_def revived_def)
  moreover have "healthLoop L [Ev_Tick, Ev_Stop] s = Some (Ok (), s')" using c by simp
  ultimately show ?thesis using s'(2) by auto
qed

section \<open>Streams of a pool\<close>

text \<open>What a client does with a stream before it closes it.\<close>

inductive sstream_run :: "('r, 'w, 'k, 'p) chlib \<Rightarrow> ('r, 'w, 'c) column \<Rightarrow> ('r, 'w, 'k, 'p, 'c, 'x) sstream \<Rightarrow>
    ('r, 'w, 'k, 'p, 'c, 'x) sstream \<Rightarrow> bool" for L I st where
  sr_new: "sstream_run L I st st"
| sr_Bind: "sstream_run L I st s \<Longrightarrow> sstream_run L I st (ss_Bind cols s)"
| sr_Next: "sstream_run L I st s \<Longrightarrow> Next L I s = Some (b, s') \<Longrightarrow> sstream_run L I st s'"
| sr_Cancel: "sstream_run L I st s \<Longrightarrow> ss_Cancel L s = Some (x, s') \<Longrightarrow> sstream_run L I st s'"

inductive istream_run :: "('r, 'w, 'k, 'p) chlib \<Rightarrow> ('r, 'w, 'c) column \<Rightarrow> ('r, 'w, 'k, 'p, 'c, 'x) istream \<Rightarrow>
    ('r, 'w, 'k, 'p, 'c, 'x) istream \<Rightarrow> bool" for L I st where
  ir_new: "istream_run L I st st"
| ir_Bind: "istream_run L I st s \<Longrightarrow> istream_run L I st (is_Bind cols s)"
| ir_Append: "istream_run L I st s \<Longrightarrow> is_Append L I s = Some (x, s') \<Longrightarrow> istream_run L I st s'"

lemma Next_frame:
  assumes "net_ok L \<mu>" and "column_quiet I \<mu>" and "Next L I s = Some (b, s')"
  shows "ss_closed s' = ss_closed s \<and> ss_release s' = ss_release s"
proof (cases "ss_closed s \<or> ss_done s \<or> \<not> ss_bound s")
  case False
  obtain x s1 where "iloop (next_body L I) s = Some (x, s1)" "stream_frame s s1"
    using calmD [OF next_loop_calm [OF assms(1,2)], of s] by blast
  with False assms(3) show ?thesis by (cases x) (auto simp: Next_def store_error_def stream_frame_def)
qed (use assms(3) in \<open>auto simp: Next_def split: if_splits\<close>)

lemma Cancel_frame:
  assumes "net_ok L \<mu>" and "ss_Cancel L s = Some (x, s')"
  shows "ss_closed s' = ss_closed s \<and> ss_release s' = ss_release s"
proof (cases "ss_closed s \<or> ss_done s")
  case False
  obtain y s1 where "on_call (on_conn (drain L)) s = Some (y, s1)" "stream_frame s s1"
    using calmD [OF stream_on_conn [OF cc_drain [OF assms(1)]], of s] by blast
  with False assms(2) show ?thesis by (cases y) (auto simp: ss_Cancel_def ibind_def stream_frame_def)
qed (use assms(2) in \<open>auto simp: ss_Cancel_def split: if_splits\<close>)

lemma sstream_run_frame:
  assumes "net_ok L \<mu>" and "column_quiet I \<mu>" and "sstream_run L I st s"
  shows "ss_closed s = ss_closed st \<and> ss_release s = ss_release st"
  using assms(3) by induction (auto simp: ss_Bind_def dest: Next_frame [OF assms(1,2)] Cancel_frame [OF assms(1)])

lemma istream_run_frame: "istream_run L I st s \<Longrightarrow> is_closed s = is_closed st \<and> is_release s = is_release st"
proof (induction rule: istream_run.induct)
  case (ir_Append s x s')
  then show ?case using is_Append_returns [of L I s] by (auto simp: istream_frame_def)
qed (simp_all add: is_Bind_def)

text \<open>Opening a stream.\<close>

lemma with_conn_counts:
  assumes P: "puddle_ok L shut held" and inv: "pool_inv shut s" and e: "with_conn L f s = Some (x, s')"
  shows "case x of Ok (pc, a) \<Rightarrow> acquired shut held s s' pc \<and> (\<exists>c. f c = Some (Ok a, pc_conn pc)) | Err e \<Rightarrow> keeps shut held s s'
    | Panic m \<Rightarrow> Acquire L s = Some (Panic m, s') \<or> (\<exists>pc c. Acquire L s = Some (Ok pc, s') \<and> f (pc_conn pc) = Some (Panic m, c))"
proof -
  from e show ?thesis unfolding with_conn_def
  proof (cases rule: ibind_Some)
    case (Ok pc s1)
    have a: "acquired shut held s s1 pc" using acquire_counts [OF P inv Ok(1)] by simp
    obtain y c where f: "f (pc_conn pc) = Some (y, c)" using Ok(2) by (cases "f (pc_conn pc)") auto
    obtain s2 where k: "may_panic (pc_Release L (pc\<lparr>pc_conn := c\<rparr>)) s1 = Some (Ok (), s2)" "keeps shut held s s2"
      using pc_counts [OF P a, of c] by metis
    show ?thesis
    proof (cases y)
      case y: (Ok v)
      with Ok(2) f a show ?thesis by auto
    next
      case (Err e2)
      with Ok(2) f k show ?thesis by auto
    next
      case (Panic m)
      with Ok f show ?thesis by auto
    qed
  next
    case (Err e2)
    with acquire_counts [OF P inv Err(1)] show ?thesis by simp
  qed simp
qed

lemma SelectStream_new: "SelectStream L body c = Some (Ok st, c') \<Longrightarrow> st = new_sstream c'"
  by (auto simp: SelectStream_def unlock_on_error_def ibind_def split: option.splits go.splits)

lemma InsertStream_new: "InsertStream L body c = Some (Ok st, c') \<Longrightarrow> st = new_istream c'"
  by (auto simp: InsertStream_def unlock_on_error_def ibind_def split: option.splits go.splits)

text \<open>The release function of a pooled stream gives back what is out, whatever the pool does meanwhile.\<close>

lemma pool_release_gives_back:
  assumes "puddle_ok L shut held" and "pool_inv shut t" and "(pc_pool pc, pc_res pc) \<in> outstanding held t"
  shows "\<exists>t'. pool_release L pc (c, t) = (None, conn_unlock c, t') \<and> given_back shut held pc t t'"
  using pc_gives_back(1) [OF assms(1,2), of "pc\<lparr>pc_conn := conn_unlock c\<rparr>"] assms(3)
  by (auto simp: pool_release_def Let_def)

lemma pool_SelectStream_Close:
  assumes P: "puddle_ok L shut held" and N: "net_ok (pl_conn L) \<mu>" and t: "pool_inv shut t" "(pc_pool pc, pc_res pc) \<in> outstanding held t"
    and st: "\<not> ss_closed st" "ss_release st = Some (pool_release L pc)"
  shows "\<exists>y st' t'. ss_Close (pl_conn L) (st, t) = Some (y, st', t') \<and>
    (if is_panic y then t' = t \<and> \<not> ss_done st
     else y = Ok () \<and> given_back shut held pc t t' \<and> cn_state (ca_conn (ss_call st')) = StateReady \<and>
       (\<forall>t2. ss_Close (pl_conn L) (st', t2) = Some (Ok (), st', t2)))"
proof -
  obtain x s1 where 1: "ss_Close (pl_conn L) (st, t) = Some (if is_panic x then (x, s1, t) else apfst outcome (ss_Release (s1, t)))"
    "ss_closed s1" "ss_release s1 = ss_release st" "ss_done st \<Longrightarrow> \<not> is_panic x"
    by (rule ss_Close_open [OF N st(1), where r = t]) blast
  obtain t' where 2: "pool_release L pc (ca_conn (ss_call s1), t) = (None, conn_unlock (ca_conn (ss_call s1)), t')" "given_back shut held pc t t'"
    using pool_release_gives_back [OF P t] by blast
  then have "ss_Release (s1, t) = (None, s1\<lparr>ss_call := (ss_call s1)\<lparr>ca_conn := conn_unlock (ca_conn (ss_call s1))\<rparr>\<rparr>, t')"
    using 1(3) st(2) by (simp add: ss_Release_def)
  then show ?thesis using 1 2(2) by (cases "is_panic x") (auto simp: ss_Close_closed conn_unlock_def unlock_state_def)
qed

lemma pool_SelectStream_Release:
  assumes P: "puddle_ok L shut held" and N: "net_ok (pl_conn L) \<mu>" and t: "pool_inv shut t" "(pc_pool pc, pc_res pc) \<in> outstanding held t"
    and st: "\<not> ss_closed st" "ss_release st = Some (pool_release L pc)"
  shows "\<exists>st' t' m st2. ss_Release (st, t) = (None, st', t') \<and> given_back shut held pc t t' \<and>
    ss_Close (pl_conn L) (st', t') = Some (Panic m, st2, t')"
proof -
  obtain t' where 1: "pool_release L pc (ca_conn (ss_call st), t) = (None, conn_unlock (ca_conn (ss_call st)), t')" "given_back shut held pc t t'"
    using pool_release_gives_back [OF P t] by blast
  define st' where "st' = st\<lparr>ss_call := (ss_call st)\<lparr>ca_conn := conn_unlock (ca_conn (ss_call st))\<rparr>\<rparr>"
  have r: "ss_Release (st, t) = (None, st', t')" using 1(1) st(2) by (simp add: ss_Release_def st'_def)
  have "\<not> ss_closed st'" using st(1) by (simp add: st'_def)
  then obtain x s1 where 2: "ss_Close (pl_conn L) (st', t') = Some (if is_panic x then (x, s1, t') else apfst outcome (ss_Release (s1, t')))"
    "ss_release s1 = ss_release st'"
    by (rule ss_Close_open [OF N, where r = t']) blast
  have "pc_pool pc < length (po_pools t')" "(pc_pool pc, pc_res pc) \<notin> outstanding held t'"
    using 1(2) t(2) by (simp_all add: given_back_def out_of_mem)
  then obtain m where "pool_release L pc (ca_conn (ss_call s1), t') = (Some m, conn_unlock (ca_conn (ss_call s1)), t')"
    using pc_Release_panics [OF P, of "pc\<lparr>pc_conn := conn_unlock (ca_conn (ss_call s1))\<rparr>" t'] by (auto simp: pool_release_def Let_def)
  then have "\<exists>s2. ss_Release (s1, t') = (Some m, s2, t')" using 2(2) st(2) by (simp add: ss_Release_def st'_def)
  with 2(1) r 1(2) show ?thesis by (cases x) auto
qed

lemma pool_InsertStream_Close:
  assumes P: "puddle_ok L shut held" and N: "net_ok (pl_conn L) \<mu>" and t: "pool_inv shut t" "(pc_pool pc, pc_res pc) \<in> outstanding held t"
    and st: "\<not> is_closed st" "is_release st = Some (pool_release L pc)"
  shows "\<exists>y st' t'. is_Close (pl_conn L) (st, t) = Some (y, st', t') \<and>
    (if is_panic y then t' = t
     else given_back shut held pc t t' \<and> cn_state (ca_conn (is_call st')) = StateReady \<and>
       (\<forall>t2. is_Close (pl_conn L) (st', t2) = Some (Ok (), st', t2)))"
proof -
  obtain x s1 where 1: "is_Close (pl_conn L) (st, t) = Some (if is_panic x then (x, s1, t)
      else (case is_releaseFn (s1, t) of (p, sr) \<Rightarrow> (if p = None then x else outcome p, sr)))"
    "is_closed s1" "is_release s1 = is_release st"
    by (rule is_Close_open [OF N st(1), where r = t])
  obtain t' where 2: "pool_release L pc (ca_conn (is_call s1), t) = (None, conn_unlock (ca_conn (is_call s1)), t')" "given_back shut held pc t t'"
    using pool_release_gives_back [OF P t] by blast
  then have "is_releaseFn (s1, t) = (None, s1\<lparr>is_call := (is_call s1)\<lparr>ca_conn := conn_unlock (ca_conn (is_call s1))\<rparr>\<rparr>, t')"
    using 1(3) st(2) by (simp add: is_releaseFn_def)
  then show ?thesis using 1 2(2) by (cases "is_panic x") (auto simp: is_Close_closed conn_unlock_def unlock_state_def)
qed

text \<open>
  C9.
  The connections the pool hands out come back. \<open>Acquire\<close> takes exactly one that nobody has, or
  none with an error; \<open>Exec\<close>, \<open>Select\<close> and \<open>Insert\<close>, which may take two, have given back or destroyed
  all of them whenever they return, with whatever result, a panic apart; and the replicas keep pools
  of their own, closed for those that are dead. If they panic, it is a panic of the connection's
  operation or of \<open>Acquire\<close>: nothing is given back that is not out, for which puddle would panic.
\<close>

theorem pool_accounts:
  assumes P: "puddle_ok L shut held" and inv: "pool_inv shut s"
  shows "(Acquire L s = Some (x, s') \<longrightarrow> (case x of Ok pc \<Rightarrow> acquired shut held s s' pc | _ \<Rightarrow> keeps shut held s s')) \<and>
    (pool_Exec L body (s, ()) = Some (y, s', ()) \<and> \<not> is_panic y \<longrightarrow> keeps shut held s s') \<and>
    (pool_Select L I body (s, d) = Some (y, s', d') \<and> \<not> is_panic y \<longrightarrow> keeps shut held s s') \<and>
    (pool_Insert L I body (s, d) = Some (y, s', d') \<and> \<not> is_panic y \<longrightarrow> keeps shut held s s') \<and>
    (pool_Exec L body (s, ()) = Some (Panic m, s', ()) \<longrightarrow>
      (\<exists>s s'. Acquire L s = Some (Panic m, s')) \<or> (\<exists>c c'. Exec (pl_conn L) body c = Some (Panic m, c'))) \<and>
    (pool_Select L I body (s, d) = Some (Panic m, s', d') \<longrightarrow>
      (\<exists>s s'. Acquire L s = Some (Panic m, s')) \<or> (\<exists>c c'. Select (pl_conn L) I body c = Some (Panic m, c'))) \<and>
    (pool_Insert L I body (s, d) = Some (Panic m, s', d') \<longrightarrow>
      (\<exists>s s'. Acquire L s = Some (Panic m, s')) \<or> (\<exists>c c'. Insert (pl_conn L) I body c = Some (Panic m, c')))"
proof -
  note c = pooled_counts [OF P inv]
  have p: "own_panic L f m" if "pooled L zero f (s, e) = Some (Panic m, s', e')" for zero e e' and f :: "(_ \<times> 'x, unit) io"
    using c [OF that] by (simp add: settled_def)
  show ?thesis
    unfolding pool_Exec_def pool_Select_def pool_Insert_def
  proof (intro conjI impI)
    show "Acquire L s = Some (x, s') \<Longrightarrow> case x of Ok pc \<Rightarrow> acquired shut held s s' pc | _ \<Rightarrow> keeps shut held s s'"
      by (rule acquire_counts [OF P inv])
  qed ((elim conjE, erule (1) settled_keeps [OF c])+, (drule p, auto simp: own_panic_def on_cols_def)+)
qed

text \<open>
  C22.
  A stream opened through the pool, for reading or for inserting, holds one connection from its
  creation to its \<open>Close\<close>, however the client binds columns, reads, cancels or appends in between; a
  creation that fails holds none, and panics only if \<open>Acquire\<close> or the connection does. In any state of the pool in which that
  connection is still out, \<open>Close\<close> returns, unlocks it and gives exactly it back, and a second \<open>Close\<close>
  does nothing. If \<open>Close\<close> panics, nothing was given back: the library panicked before the release
  function was called, which a reading stream that was read to its end excludes. So the release
  function is called exactly once. The method \<open>Release\<close>, which calls it too, gives the connection
  back without closing the stream: the \<open>Close\<close> that follows releases a second time, and panics.
\<close>

theorem pool_stream_returns_connection:
  fixes L :: "('r, 'w, 'k, 'p, 'q, 'n) plib" and I :: "('r, 'w, 'c) column"
  assumes P: "puddle_ok L shut held" and inv: "pool_inv shut s" and net: "net_ok (pl_conn L) \<mu>" and col: "column_quiet I \<mu>"
  shows "(pool_SelectStream L body s = Some (x :: ('r, 'w, 'k, 'p, 'c, ('q, 'n) pool) sstream go, s1) \<longrightarrow> (case x of
      Ok st0 \<Rightarrow> \<exists>pc :: ('r, 'w, 'k, 'p) pconn. acquired shut held s s1 pc \<and>
        (\<forall>st t. sstream_run (pl_conn L) I st0 st \<and> pool_inv shut t \<and> (pc_pool pc, pc_res pc) \<in> outstanding held t \<longrightarrow>
          (\<exists>y st' t'. ss_Close (pl_conn L) (st, t) = Some (y, st', t') \<and>
            (if is_panic y then t' = t \<and> \<not> ss_done st
             else y = Ok () \<and> given_back shut held pc t t' \<and> cn_state (ca_conn (ss_call st')) = StateReady \<and>
               (\<forall>t2. ss_Close (pl_conn L) (st', t2) = Some (Ok (), st', t2)))) \<and>
          (\<exists>st' t' m st2. ss_Release (st, t) = (None, st', t') \<and> given_back shut held pc t t' \<and>
            ss_Close (pl_conn L) (st', t') = Some (Panic m, st2, t')))
    | Err e \<Rightarrow> keeps shut held s s1
    | Panic m \<Rightarrow> Acquire L s = Some (Panic m, s1) \<or> (\<exists>pc c. Acquire L s = Some (Ok pc, s1) \<and>
        SelectStream (pl_conn L) body (pc_conn pc) = Some (Panic m :: ('r, 'w, 'k, 'p, 'c, ('q, 'n) pool) sstream go, c)))) \<and>
    (pool_InsertStream L body s = Some (z :: ('r, 'w, 'k, 'p, 'c, ('q, 'n) pool) istream go, s1) \<longrightarrow> (case z of
      Ok st0 \<Rightarrow> \<exists>pc :: ('r, 'w, 'k, 'p) pconn. acquired shut held s s1 pc \<and>
        (\<forall>st t. istream_run (pl_conn L) I st0 st \<and> pool_inv shut t \<and> (pc_pool pc, pc_res pc) \<in> outstanding held t \<longrightarrow>
          (\<exists>y st' t'. is_Close (pl_conn L) (st, t) = Some (y, st', t') \<and>
            (if is_panic y then t' = t
             else given_back shut held pc t t' \<and> cn_state (ca_conn (is_call st')) = StateReady \<and>
               (\<forall>t2. is_Close (pl_conn L) (st', t2) = Some (Ok (), st', t2)))))
    | Err e \<Rightarrow> keeps shut held s s1
    | Panic m \<Rightarrow> Acquire L s = Some (Panic m, s1) \<or> (\<exists>pc c. Acquire L s = Some (Ok pc, s1) \<and>
        InsertStream (pl_conn L) body (pc_conn pc) = Some (Panic m :: ('r, 'w, 'k, 'p, 'c, ('q, 'n) pool) istream go, c))))"
    (is "(?ps \<longrightarrow> ?select x) \<and> (?pi \<longrightarrow> ?insert z)")
proof (intro conjI impI)
  assume ?ps
  then show "?select x" unfolding pool_SelectStream_def
  proof (cases rule: ibind_Some)
    case (Ok p t)
    obtain pc st0 where p: "p = (pc, st0)" by (cases p)
    obtain c where a: "acquired shut held s t pc" and n: "SelectStream (pl_conn L) body c = Some (Ok st0, pc_conn pc)"
      using with_conn_counts [OF P inv Ok(1)] p by auto
    have x: "x = Ok (ss_SetRelease (pool_release L pc) st0)" "s1 = t" using Ok(2) p by auto
    have open_st: "\<not> ss_closed st \<and> ss_release st = Some (pool_release L pc)"
      if "sstream_run (pl_conn L) I (ss_SetRelease (pool_release L pc) st0) st" for st
      using sstream_run_frame [OF net col that] SelectStream_new [OF n] by (simp add: ss_SetRelease_def new_sstream_def)
    then have close: "\<exists>y st' t'. ss_Close (pl_conn L) (st, t) = Some (y, st', t') \<and>
            (if is_panic y then t' = t \<and> \<not> ss_done st
             else y = Ok () \<and> given_back shut held pc t t' \<and> cn_state (ca_conn (ss_call st')) = StateReady \<and>
               (\<forall>t2. ss_Close (pl_conn L) (st', t2) = Some (Ok (), st', t2)))"
      if "sstream_run (pl_conn L) I (ss_SetRelease (pool_release L pc) st0) st \<and> pool_inv shut t \<and> (pc_pool pc, pc_res pc) \<in> outstanding held t" for st t
      using that pool_SelectStream_Close [OF P net] by blast
    have rel: "\<exists>st' t' m st2. ss_Release (st, t) = (None, st', t') \<and> given_back shut held pc t t' \<and>
            ss_Close (pl_conn L) (st', t') = Some (Panic m, st2, t')"
      if "sstream_run (pl_conn L) I (ss_SetRelease (pool_release L pc) st0) st \<and> pool_inv shut t \<and> (pc_pool pc, pc_res pc) \<in> outstanding held t" for st t
      using that open_st pool_SelectStream_Release [OF P net] by blast
    show ?thesis unfolding x go.case by (intro exI [of _ pc] conjI allI impI a) (rule close, assumption, rule rel)
  qed (use with_conn_counts [OF P inv] in fastforce)+
next
  assume ?pi
  then show "?insert z" unfolding pool_InsertStream_def
  proof (cases rule: ibind_Some)
    case (Ok p t)
    obtain pc st0 where p: "p = (pc, st0)" by (cases p)
    obtain c where a: "acquired shut held s t pc" and n: "InsertStream (pl_conn L) body c = Some (Ok st0, pc_conn pc)"
      using with_conn_counts [OF P inv Ok(1)] p by auto
    have x: "z = Ok (is_SetRelease (pool_release L pc) st0)" "s1 = t" using Ok(2) p by auto
    have "\<not> is_closed st \<and> is_release st = Some (pool_release L pc)"
      if "istream_run (pl_conn L) I (is_SetRelease (pool_release L pc) st0) st" for st
      using istream_run_frame [OF that] InsertStream_new [OF n] by (simp add: is_SetRelease_def new_istream_def)
    then have close: "\<exists>y st' t'. is_Close (pl_conn L) (st, t) = Some (y, st', t') \<and>
            (if is_panic y then t' = t
             else given_back shut held pc t t' \<and> cn_state (ca_conn (is_call st')) = StateReady \<and>
               (\<forall>t2. is_Close (pl_conn L) (st', t2) = Some (Ok (), st', t2)))"
      if "istream_run (pl_conn L) I (is_SetRelease (pool_release L pc) st0) st \<and> pool_inv shut t \<and> (pc_pool pc, pc_res pc) \<in> outstanding held t" for st t
      using that pool_InsertStream_Close [OF P net] by blast
    show ?thesis unfolding x go.case by (intro exI [of _ pc] conjI allI impI a) (rule close)
  qed (use with_conn_counts [OF P inv] in fastforce)+
qed

section \<open>A network and pools to run the model on\<close>

text \<open>
  Connections are kept in a list, a resource has a number larger than those that are out; dialling
  fails for the addresses \<open>bad\<close>, the other servers greet.
\<close>

record lpool =
  lp_shut :: bool
  lp_held :: "nat list"
  lp_idle :: "(byte list, byte list, unit, nat) conn list"

definition lp_take :: "(byte list, byte list, unit, nat) conn \<Rightarrow> lpool \<Rightarrow> (nat \<times> (byte list, byte list, unit, nat) conn) go \<times> lpool" where
  "lp_take c q = (let k = Suc (sum_list (lp_held q)) in (Ok (k, c), q\<lparr>lp_held := k # lp_held q\<rparr>))"

definition lp_acquire :: "(unit \<Rightarrow> (byte list, byte list, unit, nat) conn go \<times> unit) \<Rightarrow> unit \<times> lpool \<Rightarrow>
    ((nat \<times> (byte list, byte list, unit, nat) conn) go \<times> unit \<times> lpool) option" where
  "lp_acquire ctor = (\<lambda>(n, q).
     if lp_shut q then Some (Err (Ext_error ''closed pool''), n, q)
     else case lp_idle q of
       c # cs \<Rightarrow> (case lp_take c (q\<lparr>lp_idle := cs\<rparr>) of (x, q) \<Rightarrow> Some (x, n, q))
     | [] \<Rightarrow> (case ctor n of
         (Ok c, n) \<Rightarrow> (case lp_take c q of (x, q) \<Rightarrow> Some (x, n, q))
       | (Err e, n) \<Rightarrow> Some (Err e, n, q)
       | (Panic p, n) \<Rightarrow> Some (Panic p, n, q)))"

definition list_puddle :: "string list \<Rightarrow> (byte list, byte list, unit, nat, lpool, unit) plib" where
  "list_puddle bad = \<lparr>
     pl_conn = list_lib,
     pl_dial = (\<lambda>t cfg n. (if cf_addr cfg \<in> set bad then Inl (Ext_error ''connection refused'') else Inr ([0, 1], [], ''local''), n)),
     pl_hangup = (\<lambda>c n. (None, n)),
     pl_newPool = (\<lambda>m. if m \<le> 0 then Inl (Ext_error ''MaxSize must be >= 1'') else Inr \<lparr> lp_shut = False, lp_held = [], lp_idle = [] \<rparr>),
     pl_acquire = lp_acquire,
     pl_release = (\<lambda>k c q. if k \<in> set (lp_held q) then (None, q\<lparr>lp_held := removeAll k (lp_held q), lp_idle := lp_idle q @ [c]\<rparr>)
       else (Some ''tried to release resource that is not acquired'', q)),
     pl_destroy = (\<lambda>d k c (n, q). if k \<in> set (lp_held q) then (None, d c n, q\<lparr>lp_held := removeAll k (lp_held q)\<rparr>)
       else (Some ''tried to destroy resource that is not acquired'', n, q)),
     pl_close = (\<lambda>d (n, q). if lp_held q = [] then Some (fold d (lp_idle q) n, q\<lparr>lp_shut := True, lp_idle := []\<rparr>) else None),
     pl_stat = (\<lambda>q. (int (length (lp_held q) + length (lp_idle q)), int (length (lp_idle q)), int (length (lp_held q)))),
     pl_closedPool = Ext_error ''closed pool'', pl_canceled = Ext_error ''context canceled'',
     pl_deadline = Ext_error ''context deadline exceeded'' \<rparr>"

lemma list_puddle_simps [simp]:
  "pl_conn (list_puddle bad) = list_lib" "pl_acquire (list_puddle bad) = lp_acquire"
  "pl_hangup (list_puddle bad) c n = (None, n)"
  "pl_dial (list_puddle bad) t cfg n =
    (if cf_addr cfg \<in> set bad then Inl (Ext_error ''connection refused'') else Inr ([0, 1], [], ''local''), n)"
  "pl_closedPool (list_puddle bad) = Ext_error ''closed pool''" "pl_canceled (list_puddle bad) = Ext_error ''context canceled''"
  "pl_deadline (list_puddle bad) = Ext_error ''context deadline exceeded''"
  by (simp_all add: list_puddle_def)

lemma fresh_resource: "Suc (sum_list ks) \<notin> set ks" for ks :: "nat list"
proof
  assume "Suc (sum_list ks) \<in> set ks"
  then have "Suc (sum_list ks) \<le> sum_list ks" by (rule member_le_sum_list) simp
  then show False by simp
qed

lemma list_puddle_ok: "puddle_ok (list_puddle bad) lp_shut (\<lambda>q. set (lp_held q))"
proof -
  have "lp_shut q' = lp_shut q \<and> (case x of Ok (k, c) \<Rightarrow> \<not> lp_shut q \<and> k \<notin> set (lp_held q) \<and> set (lp_held q') = insert k (set (lp_held q))
      | _ \<Rightarrow> set (lp_held q') = set (lp_held q))" if "lp_acquire ctor (n, q) = Some (x, n', q')" for ctor n q x n' q'
    using that fresh_resource [of "lp_held q"]
    by (auto simp: lp_acquire_def lp_take_def Let_def split: if_splits list.splits go.splits prod.splits)
  then show ?thesis unfolding puddle_ok_def by (auto simp: list_puddle_def)
qed

lemma list_connect: "\<exists>c. Connect list_lib cfg (Inr ([0, 1], [], a)) = Ok c \<and> cn_state c = StateReady \<and> cn_reader c = []"
proof -
  have 0: "rd_uvarint list_reader [0, 1] = (Ok 0, [1])"
    using yieldsD [OF rd_uvarint_yields [OF list_reader_ok, of 0], of "[0, 1]" "[1]"] by simp
  have 1: "cl_server_hello list_lib v [1] = (Ok 1, [])" for v
  proof -
    have "lr_uv 10 0 0 [1] = (Ok (1 :: nat), [])" by (simp add: numeral_eq_Suc)
    then show ?thesis by (simp add: list_lib_def lr_map_def)
  qed
  show ?thesis by (simp add: Connect_def Let_def 0 1 list_code_def)
qed

definition demo_config :: pconfig where
  "demo_config = \<lparr> pg_addrs = [''a:9000'', ''b:9000''], pg_config = cn_cfg (list_conn []), pg_maxConns = 4, pg_minConns = 0,
     pg_maxIdle = 0, pg_maxLifetime = 0, pg_healthInterval = 0, pg_healthTimeout = 0 \<rparr>"

definition demo_pool :: "bool \<Rightarrow> (lpool, unit) pool" where
  "demo_pool dead = \<lparr> po_cfg = demo_config, po_subs = [\<lparr> ap_addr = ''a:9000'', ap_dead = dead, ap_p = 0 \<rparr>,
       \<lparr> ap_addr = ''b:9000'', ap_dead = False, ap_p = 1 \<rparr>],
     po_rrIdx = 0, po_closed = False, po_stopped = False,
     po_pools = [\<lparr> lp_shut = dead, lp_held = [], lp_idle = [] \<rparr>, \<lparr> lp_shut = False, lp_held = [], lp_idle = [] \<rparr>], po_env = () \<rparr>"

lemma demo_pool_simps [simp]:
  "po_cfg (demo_pool d) = demo_config" "po_closed (demo_pool d) = False" "po_rrIdx (demo_pool d) = 0"
  "po_subs (demo_pool d) = [\<lparr> ap_addr = ''a:9000'', ap_dead = d, ap_p = 0 \<rparr>, \<lparr> ap_addr = ''b:9000'', ap_dead = False, ap_p = 1 \<rparr>]"
  "po_pools (demo_pool d) = [\<lparr> lp_shut = d, lp_held = [], lp_idle = [] \<rparr>, \<lparr> lp_shut = False, lp_held = [], lp_idle = [] \<rparr>]"
  by (simp_all add: demo_pool_def)

lemma demo_inv: "pool_inv lp_shut (demo_pool d)"
  by (simp add: pool_inv_def demo_pool_def)

lemma demo_live: "live_subs (demo_pool d) = (if d then [1] else [0, 1])"
  by (simp add: live_subs_def demo_pool_def)

lemma demo_out: "outstanding (\<lambda>q. set (lp_held q)) (demo_pool d) = {}"
proof -
  have "lp_held (po_pools (demo_pool d) ! i) = []" if "i < 2" for i using that by (auto simp: less_2_cases_iff)
  then show ?thesis by (auto simp: out_of_def numeral_2_eq_2)
qed

text \<open>The pools that \<open>New\<close> makes.\<close>

lemma demo_New: "New (list_puddle bad) demo_config s = Some (Ok (), demo_pool False)" for s :: "(lpool, unit) pool"
  by (cases s) (simp add: New_def pool_addrs_def demo_config_def newSubPool_def maxSize_def list_puddle_def demo_pool_def)

lemma demo_up: "ap_addr (po_subs (demo_pool False) ! i) \<notin> set bad \<Longrightarrow> i < 2 \<Longrightarrow> sub_up (list_puddle bad) (demo_pool False) i"
  using list_connect [of "sub_config demo_config (ap_addr (po_subs (demo_pool False) ! i))" "''local''"]
  by (auto simp: sub_up_def try_sub_def dial_connect_def lp_acquire_def lp_take_def sub_pool_def sub_config_def Let_def
      demo_pool_def less_2_cases_iff)

lemma demo_down: "ap_addr (po_subs (demo_pool False) ! i) \<in> set bad \<Longrightarrow> i < 2 \<Longrightarrow> sub_down (list_puddle bad) (demo_pool False) i"
  by (auto simp: sub_down_def try_sub_def dial_connect_def lp_acquire_def Connect_def sub_pool_def sub_config_def Let_def
      demo_pool_def less_2_cases_iff nerr_def)

theorem acquire_order_witness:
  "\<exists>pc s'. Acquire (list_puddle [''a:9000'']) (demo_pool False) = Some (Ok pc, s') \<and> pc_addr pc = ''b:9000'' \<and>
    map ap_dead (po_subs s') = [True, False] \<and> po_rrIdx s' = 1"
proof -
  let ?L = "list_puddle [''a:9000'']" and ?s = "demo_pool False"
  have u: "sub_up ?L ?s 1" by (rule demo_up) (simp_all add: demo_pool_def)
  have d: "sub_down ?L ?s 0" by (rule demo_down) (simp_all add: demo_pool_def)
  have n: "\<not> sub_up ?L ?s 0"
  proof
    assume "sub_up ?L ?s 0"
    then obtain x n q where "try_sub ?L ?s 0 () = Some (Ok x, n, q)" unfolding sub_up_def by blast
    with d show False unfolding sub_down_def by fastforce
  qed
  have l: "length (live_subs ?s) = 2" "rotate (po_rrIdx ?s mod 2) (live_subs ?s) = [0, 1]"
    by (simp_all add: demo_live)
  have "\<not> po_closed ?s" "live_subs ?s \<noteq> []" "\<forall>i\<in>set (live_subs ?s). sub_up ?L ?s i \<or> sub_down ?L ?s i"
    using u d by (simp_all add: demo_live)
  from acquire_order [OF list_puddle_ok demo_inv this] n u
  obtain pc s' where "Acquire ?L ?s = Some (Ok pc, s')" "pc_addr pc = ''b:9000''" "po_subs s' = kill [0] (po_subs ?s)" "po_rrIdx s' = 1"
    unfolding Let_def l by (auto simp: sub_pool_def)
  then show ?thesis by (auto simp: kill_def)
qed

theorem pool_accounts_witness:
  "\<exists>pc s'. Acquire (list_puddle []) (demo_pool False) = Some (Ok pc, s') \<and>
    outstanding (\<lambda>q. set (lp_held q)) s' = {(pc_pool pc, pc_res pc)}"
proof -
  obtain c where c: "Connect list_lib (sub_config demo_config ''a:9000'') (Inr ([0, 1], [], ''local'')) = Ok c"
    using list_connect by blast
  have l: "live_subs (demo_pool False) = [0, 1]" by (simp add: demo_live)
  obtain pc s' where a: "Acquire (list_puddle []) (demo_pool False) = Some (Ok pc, s')"
    using c by (simp add: Acquire_def Let_def l itry_def sub_acquire_def lp_acquire_def lp_take_def dial_connect_def sub_config_def numeral_2_eq_2)
  have "acquired lp_shut (\<lambda>q. set (lp_held q)) (demo_pool False) s' pc"
    using pool_accounts [OF list_puddle_ok demo_inv, THEN conjunct1, rule_format, OF a] by simp
  then have "outstanding (\<lambda>q. set (lp_held q)) s' = insert (pc_pool pc, pc_res pc) (outstanding (\<lambda>q. set (lp_held q)) (demo_pool False))"
    by (simp add: acquired_def)
  moreover have "outstanding (\<lambda>q. set (lp_held q)) (demo_pool False) = {}" by (rule demo_out)
  ultimately show ?thesis using a by simp
qed

theorem check_health_witness:
  "\<exists>s'. checkHealth (list_puddle []) ((demo_pool True)\<lparr>po_closed := True\<rparr>) = Some (Ok (), s') \<and>
    po_closed s' \<and> map ap_dead (po_subs s') = [False, False] \<and> \<not> lp_shut (sub_pool s' 0) \<and>
    pool_Close (list_puddle []) s' = Some (Ok (), s')"
proof -
  let ?s = "(demo_pool True)\<lparr>po_closed := True\<rparr>"
  have inv: "pool_inv lp_shut ?s" using demo_inv [of True] by (simp add: pool_inv_def)
  have d: "dead_subs ?s = [0]" by (simp add: dead_subs_def)
  have a: "answers (list_puddle []) (po_cfg ?s) (ap_addr (po_subs ?s ! 0))"
    using list_connect [of "sub_config demo_config ''a:9000''" "''local''"] by (auto simp: answers_def health_dial_def dial_connect_def sub_config_def)
  have m: "0 < maxSize (po_cfg ?s)" by (simp add: maxSize_def demo_config_def)
  have "\<forall>i\<in>set (dead_subs ?s). set (lp_held (sub_pool ?s i)) = {} \<and>
      (answers (list_puddle []) (po_cfg ?s) (ap_addr (po_subs ?s ! i)) \<or> refuses (list_puddle []) (po_cfg ?s) (ap_addr (po_subs ?s ! i)))"
    using a by (simp add: d sub_pool_def)
  from check_health [OF list_puddle_ok inv m this] obtain s' where
    s': "checkHealth (list_puddle []) ?s = Some (Ok (), s')" "pool_Close (list_puddle []) s' = Some (Ok (), s')"
      "revived lp_shut (\<lambda>q. set (lp_held q)) {i\<in>set (dead_subs ?s). answers (list_puddle []) (po_cfg ?s) (ap_addr (po_subs ?s ! i))} ?s s'"
    by auto
  have R: "{i\<in>set (dead_subs ?s). answers (list_puddle []) (po_cfg ?s) (ap_addr (po_subs ?s ! i))} = {0}" using a by (auto simp: d)
  have "length (po_subs s') = 2" "po_closed s'" "\<not> ap_dead (po_subs s' ! 0)" "\<not> ap_dead (po_subs s' ! 1)" "\<not> lp_shut (sub_pool s' 0)"
    using s'(3) unfolding R revived_def by (auto simp: less_Suc_eq all_conj_distrib split: if_splits)
  with s' show ?thesis by (auto simp: length_Suc_conv numeral_2_eq_2)
qed

lemma list_read_code: "cn_reader c = [] \<Longrightarrow> \<exists>e c'. read_code list_lib m c = Some (Err e, c')"
proof -
  assume c: "cn_reader c = []"
  obtain e r where "rd_uvarint list_reader [] = (Err e, r)" by (simp add: list_reader_def lr_map_def numeral_eq_Suc)
  with c show ?thesis by (auto simp: read_code_def on_reader_def lift_rdm_def iwrap_def ibind_def)
qed

lemma list_drain: "cn_reader c = [] \<Longrightarrow> \<exists>c'. drain list_lib c = Some (Ok (), c')"
proof -
  assume c: "cn_reader c = []"
  let ?m = "ibind (read_code list_lib ''read server code'') (drain_packet list_lib)"
  obtain c1 where 1: "sendCancel list_lib c = Some (Ok (), c1)" "cn_reader c1 = []"
    using c by (simp add: sendCancel_def chain_def flush_def iignore_def ibind_def)
  obtain e c2 where "?m c1 = Some (Err e, c2)"
    using list_read_code [OF 1(2), of "''read server code''"] by (auto simp: ibind_def)
  with 1(1) show ?thesis by (simp add: drain_def iignore_def iloop_Err ibind_def)
qed

theorem pool_stream_returns_connection_witness:
  "\<exists>st s1 k st1 st' s2. pool_SelectStream (list_puddle []) ''SELECT 1'' (demo_pool False) =
      Some (Ok (st :: (byte list, byte list, unit, nat, byte data_col, (lpool, unit) pool) sstream), s1) \<and>
    outstanding (\<lambda>q. set (lp_held q)) s1 = {k} \<and>
    ss_Cancel list_lib st = Some (Ok (), st1) \<and> ss_Close list_lib (st1, s1) = Some (Ok (), st', s2) \<and> outstanding (\<lambda>q. set (lp_held q)) s2 = {} \<and>
    ss_Close list_lib (st', s2) = Some (Ok (), st', s2)"
proof -
  let ?L = "list_puddle []" and ?I = "column_of list_ctypes (base_ops uint8_t) list_reader list_writer list_buffer"
  obtain c where c: "Connect list_lib (sub_config demo_config ''a:9000'') (Inr ([0, 1], [], ''local'')) = Ok c" "cn_state c = StateReady" "cn_reader c = []"
    using list_connect by blast
  have l: "live_subs (demo_pool False) = [0, 1]" by (simp add: demo_live)
  obtain pc s1 where a: "Acquire ?L (demo_pool False) = Some (Ok pc, s1)" "pc_conn pc = c"
    using c by (simp add: Acquire_def Let_def l itry_def sub_acquire_def lp_acquire_def lp_take_def dial_connect_def sub_config_def numeral_2_eq_2)
  obtain st0 c' where "SelectStream list_lib ''SELECT 1'' c = Some (Ok (st0 :: (byte list, byte list, unit, nat, byte data_col, (lpool, unit) pool) sstream), c')"
    "st0 = new_sstream c'" "cn_reader c' = []"
    using c(2,3) by (simp add: SelectStream_def conn_lock_def unlock_on_error_def send_query_def writeQuery_def chainw_def flush_def ibind_def iwrap_def encodePrefix_def
        split: option.splits)
  then obtain st where o: "pool_SelectStream ?L ''SELECT 1'' (demo_pool False) =
      Some (Ok (st :: (byte list, byte list, unit, nat, byte data_col, (lpool, unit) pool) sstream), s1)"
    and r: "cn_reader (ca_conn (ss_call st)) = []" "\<not> ss_done st" "\<not> ss_closed st"
    using a by (simp add: pool_SelectStream_def with_conn_def ss_SetRelease_def new_sstream_def)
  have net: "net_ok (pl_conn ?L) length" using list_lib_net by simp
  obtain c2 where "drain list_lib (ca_conn (ss_call st)) = Some (Ok (), c2)" using list_drain [OF r(1)] by blast
  then obtain st1 where d: "ss_Cancel list_lib st = Some (Ok (), st1)" "ss_done st1"
    using r(2,3) by (simp add: ss_Cancel_def on_call_def on_conn_def ibind_def)
  have run: "sstream_run (pl_conn ?L) ?I st st1" using sr_Cancel [OF sr_new] d(1) by simp
  obtain pc :: "(byte list, byte list, unit, nat) pconn" where pc: "acquired lp_shut (\<lambda>q. set (lp_held q)) (demo_pool False) s1 pc"
    and cl: "pool_inv lp_shut s1 \<and> (pc_pool pc, pc_res pc) \<in> outstanding (\<lambda>q. set (lp_held q)) s1 \<longrightarrow>
      (\<exists>y st' t'. ss_Close (pl_conn ?L) (st1, s1) = Some (y, st', t') \<and>
        (if is_panic y then t' = s1 \<and> \<not> ss_done st1
         else y = Ok () \<and> given_back lp_shut (\<lambda>q. set (lp_held q)) pc s1 t' \<and> cn_state (ca_conn (ss_call st')) = StateReady \<and>
           (\<forall>t2. ss_Close (pl_conn ?L) (st', t2) = Some (Ok (), st', t2))))"
    using pool_stream_returns_connection [OF list_puddle_ok demo_inv net list_column_quiet, THEN conjunct1, rule_format, OF o, unfolded go.case] run by blast
  have e: "outstanding (\<lambda>q. set (lp_held q)) s1 = {(pc_pool pc, pc_res pc)}" "pool_inv lp_shut s1"
    using pc demo_out [of False] by (simp_all add: acquired_def)
  from cl e d(2) obtain st' s2 where "ss_Close list_lib (st1, s1) = Some (Ok (), st', s2)"
    "given_back lp_shut (\<lambda>q. set (lp_held q)) pc s1 s2" "ss_Close list_lib (st', s2) = Some (Ok (), st', s2)"
    by (auto split: if_splits)
  with o d(1) e(1) show ?thesis by (fastforce simp: given_back_def)
qed

end
