(* ===== verification/Dsn.thy ===== *)
theory Dsn
  imports Pool "HOL-Library.Multiset"
begin

text \<open>
  Package \<open>dsn\<close> (\<^verbatim>\<open>dsn/dsn.go\<close>) and what \<open>conn\<close> and \<open>pool\<close> make of it (\<^verbatim>\<open>conn/dsn.go\<close>,
  \<^verbatim>\<open>pool/dsn.go\<close>). The record \<open>urllib\<close> is \<open>url.Parse\<close> and \<open>time.ParseDuration\<close>. Texts that
  \<open>fmt.Sprintf\<close> computes are kept without the values it prints.
\<close>

section \<open>Configuration and errors\<close>

record dsn_config =
  dn_addrs :: "string list"
  dn_user :: string
  dn_password :: string
  dn_database :: string
  dn_compression :: string
  dn_dialTimeout :: int
  dn_readTimeout :: int
  dn_writeTimeout :: int
  dn_secure :: bool
  dn_settings :: "(string \<times> string) list"
  dn_maxConns :: int
  dn_minConns :: int
  dn_maxIdle :: int
  dn_maxLifetime :: int
  dn_healthInterval :: int

datatype dsn_kind = KindParse | KindSecurity | KindScheme

datatype dsn_error = Dsn_error (de_kind: dsn_kind) (de_message: string) (de_inner: "error option")

fun dsn_error_text :: "dsn_error \<Rightarrow> string" where
  "dsn_error_text (Dsn_error k m (Some e)) = ''dsn: '' @ m @ '': '' @ error_text e"
| "dsn_error_text (Dsn_error k m None) = ''dsn: '' @ m"

text \<open>
  A parsed URL: its user and password where it has them, and its query, a Go map, as the list of its
  entries, each key with its first value and the others. \<open>range\<close> goes through a map in an order that
  the runtime chooses anew each time: \<open>Parse\<close> has the order of the call as an argument, a function that
  rearranges the entries.
\<close>

type_synonym query = "(string \<times> string \<times> string list) list"

record url =
  ur_scheme :: string
  ur_host :: string
  ur_user :: "(string \<times> string) option"
  ur_path :: string
  ur_query :: query

record urllib =
  ul_parse :: "string \<Rightarrow> error + url"
  ul_duration :: "string \<Rightarrow> error + int"

type_synonym 'a checked = "dsn_error + 'a"

definition sbind :: "'e + 'a \<Rightarrow> ('a \<Rightarrow> 'e + 'b) \<Rightarrow> 'e + 'b" where
  "sbind m f = (case m of Inl e \<Rightarrow> Inl e | Inr x \<Rightarrow> f x)"

definition dsn_fail :: "dsn_kind \<Rightarrow> string \<Rightarrow> 'a checked" where
  "dsn_fail k m = Inl (Dsn_error k m None)"

definition dsn_wrap :: "string \<Rightarrow> error + 'a \<Rightarrow> 'a checked" where
  "dsn_wrap m x = (case x of Inl e \<Rightarrow> Inl (Dsn_error KindParse m (Some e)) | Inr a \<Rightarrow> Inr a)"

lemma sbind_simps [simp]: "sbind (Inr x) f = f x" "sbind (Inl e) f = Inl e"
  by (simp_all add: sbind_def)

lemma sbind_Inr: "sbind m f = Inr y \<longleftrightarrow> (\<exists>x. m = Inr x \<and> f x = Inr y)"
  by (cases m) auto

lemma dsn_fail_simp [simp]: "dsn_fail k m \<noteq> Inr x"
  by (simp add: dsn_fail_def)

section \<open>Strings of the standard library\<close>

definition str_contains :: "string \<Rightarrow> string \<Rightarrow> bool" where
  "str_contains s t \<longleftrightarrow> (\<exists>i\<in>set [0..<Suc (length s)]. take (length t) (drop i s) = t)"

fun last_index :: "char \<Rightarrow> string \<Rightarrow> nat option" where
  "last_index c [] = None"
| "last_index c (x # s) = (case last_index c s of Some i \<Rightarrow> Some (Suc i) | None \<Rightarrow> if x = c then Some 0 else None)"

fun first_index :: "char \<Rightarrow> string \<Rightarrow> nat option" where
  "first_index c [] = None"
| "first_index c (x # s) = (if x = c then Some 0 else map_option Suc (first_index c s))"

text \<open>\<open>net.SplitHostPort\<close> and \<open>net.JoinHostPort\<close>\<close>

definition split_rest :: "string \<Rightarrow> nat \<Rightarrow> nat \<Rightarrow> string \<Rightarrow> nat \<Rightarrow> error + (string \<times> string)" where
  "split_rest s j k host i =
     (if CHR ''['' \<in> set (drop j s) then Inl (Ext_error ''unexpected '[' in address'')
      else if CHR '']'' \<in> set (drop k s) then Inl (Ext_error ''unexpected ']' in address'')
      else Inr (host, drop (Suc i) s))"

definition SplitHostPort :: "string \<Rightarrow> error + (string \<times> string)" where
  "SplitHostPort s = (case last_index (CHR '':'') s of
       None \<Rightarrow> Inl (Ext_error ''missing port in address'')
     | Some i \<Rightarrow>
         if s ! 0 = CHR ''[''
         then (case first_index (CHR '']'') s of
             None \<Rightarrow> Inl (Ext_error ''missing ']' in address'')
           | Some e \<Rightarrow>
               if Suc e = length s then Inl (Ext_error ''missing port in address'')
               else if Suc e = i then split_rest s 1 (Suc e) (drop 1 (take e s)) i
               else if s ! Suc e = CHR '':'' then Inl (Ext_error ''too many colons in address'')
               else Inl (Ext_error ''missing port in address''))
         else if CHR '':'' \<in> set (take i s) then Inl (Ext_error ''too many colons in address'')
         else split_rest s 0 0 (take i s) i)"

definition JoinHostPort :: "string \<Rightarrow> string \<Rightarrow> string" where
  "JoinHostPort host port = (if CHR '':'' \<in> set host then ''['' @ host @ '']:'' @ port else host @ '':'' @ port)"

definition ParseBool :: "string \<Rightarrow> error + bool" where
  "ParseBool s = (if s \<in> {''1'', ''t'', ''T'', ''TRUE'', ''true'', ''True''} then Inr True
     else if s \<in> {''0'', ''f'', ''F'', ''FALSE'', ''false'', ''False''} then Inr False
     else Inl (Ext_error ''invalid syntax''))"

definition dsn_atoi :: "string \<Rightarrow> error + int" where
  "dsn_atoi s = (case atoi s of Ok n \<Rightarrow> Inr n | Err e \<Rightarrow> Inl e | Panic p \<Rightarrow> Inl (Ext_error p))"

definition to_lower :: "string \<Rightarrow> string" where
  "to_lower = map (\<lambda>c. if 65 \<le> (of_char c :: nat) \<and> (of_char c :: nat) \<le> 90 then char_of ((of_char c :: nat) + 32) else c)"

section \<open>Checks\<close>

definition containsPathTraversal :: "string \<Rightarrow> bool" where
  "containsPathTraversal s \<longleftrightarrow> str_contains s ''..'' \<or> CHR ''/'' \<in> set s \<or> CHR 0x5C \<in> set s"

text \<open>
  \<open>unicode.IsControl\<close> holds below U+0020 and from U+007F to U+009F; in UTF-8 the code points from
  U+0080 on are the byte 0xC2, which is never inside a rune, and their own.
\<close>

fun containsControlChars :: "string \<Rightarrow> bool" where
  "containsControlChars [] = False"
| "containsControlChars (c # s) =
     (let b = (of_char c :: nat) in
      (b \<noteq> 10 \<and> b \<noteq> 13 \<and> (b < 0x20 \<or> b = 0x7F)) \<or>
      (b = 0xC2 \<and> s \<noteq> [] \<and> 0x80 \<le> (of_char (hd s) :: nat) \<and> (of_char (hd s) :: nat) \<le> 0x9F) \<or>
      containsControlChars s)"

section \<open>Parse\<close>

definition maxFieldBytes :: nat where "maxFieldBytes = 1024"

definition maxHosts :: nat where "maxHosts = 100"

definition parse_host :: "string \<Rightarrow> string checked" where
  "parse_host raw = (let h = trim_space raw in
     if h = [] then dsn_fail KindParse ''empty host segment''
     else sbind (if CHR '':'' \<in> set h then dsn_wrap ''invalid host'' (SplitHostPort h) else Inr (h, [])) (\<lambda>(host, port).
       if host = [] then dsn_fail KindParse ''empty host''
       else Inr (if port = [] then JoinHostPort host ''9000'' else h)))"

fun parse_hosts :: "string list \<Rightarrow> string list checked" where
  "parse_hosts [] = Inr []"
| "parse_hosts (h # hs) = sbind (parse_host h) (\<lambda>a. sbind (parse_hosts hs) (\<lambda>as. Inr (a # as)))"

definition parse_addrs :: "string \<Rightarrow> string list checked" where
  "parse_addrs host = (let hs = str_split (CHR '','') host in
     if maxHosts < length hs then dsn_fail KindSecurity ''too many hosts''
     else sbind (parse_hosts hs) (\<lambda>addrs. if addrs = [] then dsn_fail KindParse ''no hosts in DSN'' else Inr addrs))"

definition parse_user :: "(string \<times> string) option \<Rightarrow> (string \<times> string) checked" where
  "parse_user u = (let (user, password) = (case u of None \<Rightarrow> ([], []) | Some p \<Rightarrow> p) in
     if maxFieldBytes < length user then dsn_fail KindSecurity ''username exceeds 1024 bytes''
     else if maxFieldBytes < length password then dsn_fail KindSecurity ''password exceeds 1024 bytes''
     else Inr (user, password))"

definition trim_slash :: "string \<Rightarrow> string" where
  "trim_slash s = rev (dropWhile (\<lambda>c. c = CHR ''/'') (rev s))"

definition parse_database :: "string \<Rightarrow> string checked" where
  "parse_database path =
     (let db = trim_slash (if path \<noteq> [] \<and> hd path = CHR ''/'' then tl path else path) in
     if db = [] then Inr []
     else if containsPathTraversal db then dsn_fail KindSecurity ''database name contains path traversal characters''
     else if containsControlChars db then dsn_fail KindSecurity ''database name contains control characters''
     else if maxFieldBytes < length db then dsn_fail KindSecurity ''database name exceeds 1024 bytes''
     else Inr db)"

definition parse_param :: "urllib \<Rightarrow> string \<Rightarrow> string \<Rightarrow> dsn_config \<Rightarrow> dsn_config checked" where
  "parse_param U key val cfg =
     (if key = ''dial_timeout'' then sbind (dsn_wrap ''invalid dial_timeout'' (ul_duration U val)) (\<lambda>d. Inr (cfg\<lparr>dn_dialTimeout := d\<rparr>))
      else if key = ''compress'' then Inr (cfg\<lparr>dn_compression := val\<rparr>)
      else if key = ''secure'' then sbind (dsn_wrap ''invalid secure'' (ParseBool val)) (\<lambda>b. Inr (cfg\<lparr>dn_secure := b\<rparr>))
      else if key = ''read_timeout'' then sbind (dsn_wrap ''invalid read_timeout'' (ul_duration U val)) (\<lambda>d. Inr (cfg\<lparr>dn_readTimeout := d\<rparr>))
      else if key = ''write_timeout'' then sbind (dsn_wrap ''invalid write_timeout'' (ul_duration U val)) (\<lambda>d. Inr (cfg\<lparr>dn_writeTimeout := d\<rparr>))
      else if key = ''pool_max_conns'' then sbind (dsn_wrap ''invalid pool_max_conns'' (dsn_atoi val)) (\<lambda>n. Inr (cfg\<lparr>dn_maxConns := n\<rparr>))
      else if key = ''pool_min_conns'' then sbind (dsn_wrap ''invalid pool_min_conns'' (dsn_atoi val)) (\<lambda>n. Inr (cfg\<lparr>dn_minConns := n\<rparr>))
      else if key = ''health_check_interval''
      then sbind (dsn_wrap ''invalid health_check_interval'' (ul_duration U val)) (\<lambda>d. Inr (cfg\<lparr>dn_healthInterval := d\<rparr>))
      else Inr (cfg\<lparr>dn_settings := dn_settings cfg @ [(key, val)]\<rparr>))"

fun parse_params :: "urllib \<Rightarrow> query \<Rightarrow> dsn_config \<Rightarrow> dsn_config checked" where
  "parse_params U [] cfg = Inr cfg"
| "parse_params U ((key, val, vals) # qs) cfg = sbind (parse_param U key val cfg) (parse_params U qs)"

definition Parse :: "urllib \<Rightarrow> (query \<Rightarrow> query) \<Rightarrow> string \<Rightarrow> dsn_config checked" where
  "Parse U ord dsn =
     sbind (dsn_wrap ''invalid URL'' (ul_parse U dsn)) (\<lambda>u.
     if ur_scheme u \<noteq> ''clickhouse'' then dsn_fail KindScheme ''unsupported scheme (only clickhouse://)''
     else sbind (parse_addrs (ur_host u)) (\<lambda>addrs.
     sbind (parse_user (ur_user u)) (\<lambda>(user, password).
     sbind (parse_database (ur_path u)) (\<lambda>db.
     parse_params U (ord (ur_query u))
       \<lparr> dn_addrs = addrs, dn_user = user, dn_password = password, dn_database = db, dn_compression = [],
         dn_dialTimeout = 0, dn_readTimeout = 0, dn_writeTimeout = 0, dn_secure = False, dn_settings = [],
         dn_maxConns = 0, dn_minConns = 0, dn_maxIdle = 0, dn_maxLifetime = 0, dn_healthInterval = 0 \<rparr>))))"

section \<open>Configurations of connections and pools\<close>

text \<open>
  An error of \<open>ParseDSN\<close> is the one of \<open>dsn.Parse\<close> or a \<open>conn.Error\<close>. The two packages have a copy of
  \<open>parseCompression\<close> each, and each builds its configuration itself.
\<close>

definition parseCompression :: "string \<Rightarrow> bool option" where
  "parseCompression s = (let t = to_lower s in
     if t = [] then Some False
     else if t = ''none'' then Some False
     else if t = ''lz4'' \<or> t = ''true'' \<or> t = ''enabled'' then Some True
     else None)"

definition ParseDSN :: "urllib \<Rightarrow> (query \<Rightarrow> query) \<Rightarrow> string \<Rightarrow> (dsn_error + error) + config" where
  "ParseDSN U ord s = (case Parse U ord s of
       Inl e \<Rightarrow> Inl (Inl e)
     | Inr r \<Rightarrow> (case parseCompression (dn_compression r) of
         None \<Rightarrow> Inl (Inr (perr KindConfig ''invalid compress value''))
       | Some compression \<Rightarrow> Inr \<lparr> cf_addr = dn_addrs r ! 0, cf_user = dn_user r, cf_password = dn_password r,
           cf_database = dn_database r, cf_compression = compression, cf_settings = dn_settings r,
           cf_dialTimeout = dn_dialTimeout r, cf_readTimeout = dn_readTimeout r, cf_writeTimeout = dn_writeTimeout r \<rparr>))"

definition pool_parseCompression :: "string \<Rightarrow> bool option" where
  "pool_parseCompression s = (let t = to_lower s in
     if t = [] then Some False
     else if t = ''none'' then Some False
     else if t = ''lz4'' \<or> t = ''true'' \<or> t = ''enabled'' then Some True
     else None)"

definition ParsePoolDSN :: "urllib \<Rightarrow> (query \<Rightarrow> query) \<Rightarrow> string \<Rightarrow> (dsn_error + error) + pconfig" where
  "ParsePoolDSN U ord s = (case Parse U ord s of
       Inl e \<Rightarrow> Inl (Inl e)
     | Inr r \<Rightarrow> (case pool_parseCompression (dn_compression r) of
         None \<Rightarrow> Inl (Inr (perr KindConfig ''invalid compress value''))
       | Some compression \<Rightarrow> Inr \<lparr> pg_addrs = dn_addrs r,
           pg_config = \<lparr> cf_addr = dn_addrs r ! 0, cf_user = dn_user r, cf_password = dn_password r,
             cf_database = dn_database r, cf_compression = compression, cf_settings = dn_settings r,
             cf_dialTimeout = dn_dialTimeout r, cf_readTimeout = dn_readTimeout r, cf_writeTimeout = dn_writeTimeout r \<rparr>,
           pg_maxConns = dn_maxConns r, pg_minConns = dn_minConns r, pg_maxIdle = dn_maxIdle r,
           pg_maxLifetime = dn_maxLifetime r, pg_healthInterval = dn_healthInterval r, pg_healthTimeout = 0 \<rparr>))"

section \<open>Sanitizing\<close>

text \<open>
  The width of the rune that a byte string starts with, 0 where it starts with none: \<open>range\<close> then
  yields U+FFFD for one byte.
\<close>

fun rune_width :: "nat list \<Rightarrow> nat" where
  "rune_width [] = 0"
| "rune_width (b # bs) =
     (let ok = (\<lambda>i lo hi. i < length bs \<and> lo \<le> bs ! i \<and> bs ! i \<le> hi) in
      if b < 0x80 then 1
      else if 0xC2 \<le> b \<and> b \<le> 0xDF then if ok 0 0x80 0xBF then 2 else 0
      else if 0xE0 \<le> b \<and> b \<le> 0xEF
      then if ok 0 (if b = 0xE0 then 0xA0 else 0x80) (if b = 0xED then 0x9F else 0xBF) \<and> ok 1 0x80 0xBF then 3 else 0
      else if 0xF0 \<le> b \<and> b \<le> 0xF4
      then if ok 0 (if b = 0xF0 then 0x90 else 0x80) (if b = 0xF4 then 0x8F else 0xBF) \<and> ok 1 0x80 0xBF \<and> ok 2 0x80 0xBF then 4 else 0
      else 0)"

definition rune_error :: string where
  "rune_error = map char_of [0xEF, 0xBF, 0xBD :: nat]"

definition next_rune :: "string \<Rightarrow> nat" where
  "next_rune s = rune_width (map of_char s)"

function SanitizeForError :: "string \<Rightarrow> string" where
  "SanitizeForError [] = []"
| "SanitizeForError (c # s) =
     (if (of_char c :: nat) \<in> {10, 13, 0} then CHR ''.'' # SanitizeForError s
      else case next_rune (c # s) of
          0 \<Rightarrow> rune_error @ SanitizeForError s
        | Suc w \<Rightarrow> c # take w s @ SanitizeForError (drop w s))"
  by pat_completeness auto
termination
  by (relation "measure length") auto

section \<open>What a parsed DSN satisfies\<close>

definition good_addr :: "string \<Rightarrow> bool" where
  "good_addr a \<longleftrightarrow> (\<exists>host port. host \<noteq> [] \<and> port \<noteq> [] \<and> (SplitHostPort a = Inr (host, port) \<or> a = JoinHostPort host port))"

definition known_params :: "string set" where
  "known_params = {''dial_timeout'', ''compress'', ''secure'', ''read_timeout'', ''write_timeout'', ''pool_max_conns'',
     ''pool_min_conns'', ''health_check_interval''}"

lemma parse_host_good: "parse_host h = Inr a \<Longrightarrow> good_addr a"
  unfolding parse_host_def Let_def good_addr_def
  by (auto simp: sbind_Inr dsn_wrap_def split: if_splits sum.splits)

lemma parse_hosts_good: "parse_hosts hs = Inr as \<Longrightarrow> length as = length hs \<and> list_all good_addr as"
  by (induction hs arbitrary: as) (auto simp: sbind_Inr parse_host_good)

lemma parse_param_frame:
  "parse_param U k v cfg = Inr cfg' \<Longrightarrow> dn_addrs cfg' = dn_addrs cfg \<and> dn_user cfg' = dn_user cfg \<and> dn_password cfg' = dn_password cfg \<and>
    dn_database cfg' = dn_database cfg \<and> dn_maxIdle cfg' = dn_maxIdle cfg \<and> dn_maxLifetime cfg' = dn_maxLifetime cfg \<and>
    dn_settings cfg' = dn_settings cfg @ (if k \<in> known_params then [] else [(k, v)])"
  by (auto simp: parse_param_def known_params_def sbind_Inr split: if_splits)

lemma parse_params_frame:
  "parse_params U qs cfg = Inr cfg' \<Longrightarrow> dn_addrs cfg' = dn_addrs cfg \<and> dn_user cfg' = dn_user cfg \<and> dn_password cfg' = dn_password cfg \<and>
    dn_database cfg' = dn_database cfg \<and> dn_maxIdle cfg' = dn_maxIdle cfg \<and> dn_maxLifetime cfg' = dn_maxLifetime cfg \<and>
    dn_settings cfg' = dn_settings cfg @ [(k, v). (k, v, _) \<leftarrow> qs, k \<notin> known_params]"
proof (induction U qs cfg rule: parse_params.induct)
  case (2 U key val vals qs cfg)
  then obtain c1 where "parse_param U key val cfg = Inr c1" "parse_params U qs c1 = Inr cfg'" by (auto simp: sbind_Inr)
  with parse_param_frame [OF this(1)] 2 show ?case by auto
qed simp

lemma sanitize_clean: "\<forall>c\<in>set (SanitizeForError s). (of_char c :: nat) \<notin> {0, 10, 13}"
proof (induction s rule: SanitizeForError.induct)
  case (2 c s)
  have w: "\<forall>d\<in>set (take w s). 0x80 \<le> (of_char d :: nat)" if "next_rune (c # s) = Suc w" for w
  proof
    fix d assume "d \<in> set (take w s)"
    then obtain i where i: "i < w" "i < length s" "d = s ! i" by (auto simp: in_set_conv_nth)
    have "i = 0 \<or> i = 1 \<or> i = 2" using i(1) that by (auto simp: next_rune_def Let_def split: if_splits)
    with i that show "0x80 \<le> (of_char d :: nat)" by (auto simp: next_rune_def Let_def split: if_splits)
  qed
  show ?case
  proof (cases "(of_char c :: nat) \<in> {10, 13, 0}")
    case True
    then have "SanitizeForError (c # s) = CHR ''.'' # SanitizeForError s" by simp
    with 2(1) [OF True] show ?thesis by simp
  next
    case False
    show ?thesis
    proof (cases "next_rune (c # s)")
      case 0
      with 2(2) [OF False 0] False show ?thesis by (auto simp: rune_error_def)
    next
      case (Suc v)
      then show ?thesis using 2(3) [OF False Suc] False w [OF Suc] by fastforce
    qed
  qed
qed simp

text \<open>
  C20.
  A DSN that parses is safe to use: the scheme is \<open>clickhouse\<close>; there are between one and a hundred
  addresses, each with a host and a port; user, password and database have at most 1024 bytes; the
  database has no path separators, no dots in a row and no control characters but line breaks; and the
  settings are exactly the query parameters that are not options, in the order in which \<open>range\<close> goes
  through the query, which is not the text's. For display
  \<open>SanitizeForError\<close> gives a text without line breaks and zero bytes.
\<close>

theorem dsn_parse_checks:
  assumes "Parse U ord s = Inr cfg"
  shows "(\<exists>u. ul_parse U s = Inr u \<and> ur_scheme u = ''clickhouse'' \<and>
      dn_settings cfg = [(k, v). (k, v, _) \<leftarrow> ord (ur_query u), k \<notin> known_params]) \<and>
    dn_addrs cfg \<noteq> [] \<and> length (dn_addrs cfg) \<le> 100 \<and> list_all good_addr (dn_addrs cfg) \<and>
    length (dn_user cfg) \<le> 1024 \<and> length (dn_password cfg) \<le> 1024 \<and> length (dn_database cfg) \<le> 1024 \<and>
    \<not> containsPathTraversal (dn_database cfg) \<and> \<not> containsControlChars (dn_database cfg) \<and>
    list_all (\<lambda>c. (of_char c :: nat) \<notin> {0, 10, 13}) (SanitizeForError s)"
proof -
  obtain u addrs user password db where u: "ul_parse U s = Inr u" "ur_scheme u = ''clickhouse''"
    and a: "parse_addrs (ur_host u) = Inr addrs" and up: "parse_user (ur_user u) = Inr (user, password)"
    and d: "parse_database (ur_path u) = Inr db"
    and p: "parse_params U (ord (ur_query u)) \<lparr> dn_addrs = addrs, dn_user = user, dn_password = password, dn_database = db, dn_compression = [],
         dn_dialTimeout = 0, dn_readTimeout = 0, dn_writeTimeout = 0, dn_secure = False, dn_settings = [],
         dn_maxConns = 0, dn_minConns = 0, dn_maxIdle = 0, dn_maxLifetime = 0, dn_healthInterval = 0 \<rparr> = Inr cfg"
    using assms by (auto simp: Parse_def sbind_Inr dsn_wrap_def split: if_splits sum.splits)
  note f = parse_params_frame [OF p, simplified]
  have "addrs \<noteq> []" "length addrs \<le> 100" "list_all good_addr addrs"
    using a parse_hosts_good by (auto simp: parse_addrs_def Let_def sbind_Inr maxHosts_def split: if_splits)
  moreover have "length user \<le> 1024" "length password \<le> 1024"
    using up by (auto simp: parse_user_def maxFieldBytes_def split: if_splits option.splits)
  moreover have "\<not> containsPathTraversal []" by (simp add: containsPathTraversal_def str_contains_def)
  then have "length db \<le> 1024" "\<not> containsPathTraversal db" "\<not> containsControlChars db"
    using d by (auto simp: parse_database_def Let_def maxFieldBytes_def split: if_splits)
  ultimately show ?thesis using u f sanitize_clean [of s] by (simp add: list_all_iff)
qed

definition demo_urllib :: urllib where
  "demo_urllib = \<lparr>
     ul_parse = (\<lambda>s. if s = ''clickhouse://u:p@h1,h2:9440/db?compress=LZ4&max_threads=4&readonly=1''
       then Inr \<lparr> ur_scheme = ''clickhouse'', ur_host = ''h1,h2:9440'', ur_user = Some (''u'', ''p''), ur_path = ''/db'',
                  ur_query = [(''compress'', ''LZ4'', []), (''max_threads'', ''4'', []), (''readonly'', ''1'', [])] \<rparr>
       else Inl (Ext_error ''not a URL'')),
     ul_duration = (\<lambda>s. Inl (Ext_error ''invalid duration'')) \<rparr>"

lemma demo_addrs: "parse_addrs ''h1,h2:9440'' = Inr [''h1:9000'', ''h2:9440'']"
proof -
  have t: "trim_space ''h1'' = ''h1''" "trim_space ''h2:9440'' = ''h2:9440''"
    by (rule trim_space_id, simp add: plain_def)+
  show ?thesis
    by (simp add: parse_addrs_def maxHosts_def parse_host_def t JoinHostPort_def SplitHostPort_def split_rest_def dsn_wrap_def)
qed

lemma demo_Parse:
  "\<exists>cfg. Parse demo_urllib rev ''clickhouse://u:p@h1,h2:9440/db?compress=LZ4&max_threads=4&readonly=1'' = Inr cfg \<and>
    dn_addrs cfg = [''h1:9000'', ''h2:9440''] \<and> dn_database cfg = ''db'' \<and> dn_compression cfg = ''LZ4''"
proof -
  have d: "parse_database ''/db'' = Inr ''db''"
    by (simp add: parse_database_def trim_slash_def containsPathTraversal_def str_contains_def maxFieldBytes_def)
  show ?thesis
    by (simp add: Parse_def demo_urllib_def dsn_wrap_def demo_addrs d parse_user_def maxFieldBytes_def parse_param_def)
qed

theorem dsn_parse_checks_witness:
  "\<exists>cfg. Parse demo_urllib rev ''clickhouse://u:p@h1,h2:9440/db?compress=LZ4&max_threads=4&readonly=1'' = Inr cfg \<and>
    dn_addrs cfg = [''h1:9000'', ''h2:9440''] \<and> dn_database cfg = ''db'' \<and>
    dn_settings cfg = [(''readonly'', ''1''), (''max_threads'', ''4'')] \<and> list_all good_addr (dn_addrs cfg)"
proof -
  obtain cfg where p: "Parse demo_urllib rev ''clickhouse://u:p@h1,h2:9440/db?compress=LZ4&max_threads=4&readonly=1'' = Inr cfg"
    "dn_addrs cfg = [''h1:9000'', ''h2:9440'']" "dn_database cfg = ''db''"
    using demo_Parse by blast
  with dsn_parse_checks [OF p(1)] show ?thesis by (simp add: demo_urllib_def known_params_def)
qed

section \<open>The order of the query\<close>

definition query_map :: "urllib \<Rightarrow> bool" where
  "query_map U \<longleftrightarrow> (\<forall>s u. ul_parse U s = Inr u \<longrightarrow> distinct (map fst (ur_query u)))"

definition range_order :: "(query \<Rightarrow> query) \<Rightarrow> bool" where
  "range_order ord \<longleftrightarrow> (\<forall>q. mset (ord q) = mset q)"

text \<open>The first value of a key, and what an option that has it means, or its default.\<close>

definition query_Get :: "query \<Rightarrow> string \<Rightarrow> string option" where
  "query_Get q k = map_option fst (map_of q k)"

definition opt_of :: "'a \<Rightarrow> (string \<Rightarrow> error + 'a) \<Rightarrow> string option \<Rightarrow> 'a" where
  "opt_of d f x = (case x of None \<Rightarrow> d | Some v \<Rightarrow> (case f v of Inl _ \<Rightarrow> d | Inr y \<Rightarrow> y))"

lemma query_Get_simps [simp]:
  "query_Get [] k = None" "query_Get ((k', v, vs) # q) k = (if k = k' then Some v else query_Get q k)"
  by (simp_all add: query_Get_def)

lemma query_Get_notin: "k \<notin> fst ` set q \<Longrightarrow> query_Get q k = None"
  by (simp add: query_Get_def map_of_eq_None_iff)

lemma opt_of_simps [simp]: "opt_of d f None = d" "f v = Inr y \<Longrightarrow> opt_of d f (Some v) = y"
  by (simp_all add: opt_of_def)

text \<open>Whether an entry is accepted does not depend on the entries before it.\<close>

definition param_ok :: "urllib \<Rightarrow> string \<Rightarrow> string \<Rightarrow> bool" where
  "param_ok U k v \<longleftrightarrow> (\<exists>c c'. parse_param U k v c = Inr c')"

lemma parse_param_ok: "param_ok U k v \<longleftrightarrow> (\<exists>c'. parse_param U k v c = Inr c')"
  unfolding param_ok_def by (auto simp: parse_param_def sbind_Inr)

lemma parse_params_ok: "(\<exists>r. parse_params U q c = Inr r) \<longleftrightarrow> (\<forall>(k, v, vs)\<in>set q. param_ok U k v)"
proof (induction U q c rule: parse_params.induct)
  case (2 U k v vs q c)
  then show ?case by (auto simp: sbind_Inr parse_param_ok [of U k v c]) blast
qed simp

text \<open>The options of a configuration, by their keys.\<close>

definition options_of :: "urllib \<Rightarrow> query \<Rightarrow> dsn_config \<Rightarrow> dsn_config" where
  "options_of U q c = c\<lparr>
     dn_compression := opt_of (dn_compression c) Inr (query_Get q ''compress''),
     dn_dialTimeout := opt_of (dn_dialTimeout c) (ul_duration U) (query_Get q ''dial_timeout''),
     dn_readTimeout := opt_of (dn_readTimeout c) (ul_duration U) (query_Get q ''read_timeout''),
     dn_writeTimeout := opt_of (dn_writeTimeout c) (ul_duration U) (query_Get q ''write_timeout''),
     dn_secure := opt_of (dn_secure c) ParseBool (query_Get q ''secure''),
     dn_maxConns := opt_of (dn_maxConns c) dsn_atoi (query_Get q ''pool_max_conns''),
     dn_minConns := opt_of (dn_minConns c) dsn_atoi (query_Get q ''pool_min_conns''),
     dn_healthInterval := opt_of (dn_healthInterval c) (ul_duration U) (query_Get q ''health_check_interval''),
     dn_settings := dn_settings c @ [(k, v). (k, v, _) \<leftarrow> q, k \<notin> known_params]\<rparr>"

lemma options_of_Cons:
  assumes "parse_param U k v c = Inr c1" and "k \<notin> fst ` set q"
  shows "options_of U ((k, v, vs) # q) c = options_of U q c1"
proof -
  have n: "query_Get q k = None" using assms(2) by (rule query_Get_notin)
  show ?thesis
  proof (cases "k \<in> known_params")
    case True
    then have k: "k \<in> {''dial_timeout'', ''compress'', ''secure'', ''read_timeout'', ''write_timeout'', ''pool_max_conns'',
     ''pool_min_conns'', ''health_check_interval''}" by (simp only: known_params_def)
    show ?thesis
      using k by (elim insertE emptyE)
        (use assms(1) n True in \<open>auto simp: options_of_def parse_param_def sbind_Inr dsn_wrap_def split: sum.splits\<close>)
  next
    case False
    then have "k \<noteq> ''dial_timeout''" "k \<noteq> ''compress''" "k \<noteq> ''secure''" "k \<noteq> ''read_timeout''" "k \<noteq> ''write_timeout''"
      "k \<noteq> ''pool_max_conns''" "k \<noteq> ''pool_min_conns''" "k \<noteq> ''health_check_interval''"
      by (simp_all add: known_params_def)
    with False show ?thesis using assms(1) by (auto simp: options_of_def parse_param_def)
  qed
qed

lemma parse_params_options:
  "parse_params U q c = Inr r \<Longrightarrow> distinct (map fst q) \<Longrightarrow> r = options_of U q c"
proof (induction U q c rule: parse_params.induct)
  case (2 U k v vs q c)
  then obtain c1 where c1: "parse_param U k v c = Inr c1" "parse_params U q c1 = Inr r" by (auto simp: sbind_Inr)
  with 2 have "r = options_of U q c1" by simp
  with options_of_Cons [OF c1(1), of q vs] 2(3) show ?case by simp
qed (simp add: options_of_def)

text \<open>So another order gives the same configuration, up to the order of the settings.\<close>

lemma mset_comprehension: "mset xs = mset ys \<Longrightarrow> mset (concat (map f xs)) = mset (concat (map f ys))"
  by (simp add: mset_concat flip: sum_mset_sum_list image_mset.compositionality)

lemma query_Get_mset:
  assumes "mset q = mset q'" and "distinct (map fst q)"
  shows "query_Get q = query_Get q'"
proof -
  have "distinct (map fst q')" using assms by (metis mset_eq_imp_distinct_iff mset_map)
  then have "map_of q = map_of q'" using assms mset_eq_setD [OF assms(1)] map_of_inject_set by blast
  then show ?thesis by (simp add: fun_eq_iff query_Get_def)
qed

text \<open>What \<open>Parse\<close> has before it looks at the query.\<close>

definition dsn_head :: "urllib \<Rightarrow> string \<Rightarrow> url \<Rightarrow> dsn_config \<Rightarrow> bool" where
  "dsn_head U s u c \<longleftrightarrow> ul_parse U s = Inr u \<and> parse_addrs (ur_host u) = Inr (dn_addrs c) \<and>
     parse_user (ur_user u) = Inr (dn_user c, dn_password c) \<and> parse_database (ur_path u) = Inr (dn_database c) \<and>
     dn_compression c = [] \<and> dn_dialTimeout c = 0 \<and> dn_readTimeout c = 0 \<and> dn_writeTimeout c = 0 \<and> dn_settings c = [] \<and>
     dn_maxConns c = 0 \<and> dn_minConns c = 0 \<and> dn_maxIdle c = 0 \<and> dn_maxLifetime c = 0 \<and> dn_healthInterval c = 0"

lemma Parse_head:
  obtains (fails) e where "\<And>ord. Parse U ord s = Inl e"
  | (head) u c where "dsn_head U s u c" "\<And>ord. Parse U ord s = parse_params U (ord (ur_query u)) c"
proof (cases "ul_parse U s")
  case (Inr u)
  show thesis
  proof (cases "ur_scheme u = ''clickhouse''")
    case True
    show thesis
    proof (cases "\<exists>as user password db. parse_addrs (ur_host u) = Inr as \<and> parse_user (ur_user u) = Inr (user, password) \<and>
        parse_database (ur_path u) = Inr db")
      case True
      then obtain as user password db where p: "parse_addrs (ur_host u) = Inr as" "parse_user (ur_user u) = Inr (user, password)"
        "parse_database (ur_path u) = Inr db" by blast
      let ?c = "\<lparr> dn_addrs = as, dn_user = user, dn_password = password, dn_database = db, dn_compression = [],
         dn_dialTimeout = 0, dn_readTimeout = 0, dn_writeTimeout = 0, dn_secure = False, dn_settings = [],
         dn_maxConns = 0, dn_minConns = 0, dn_maxIdle = 0, dn_maxLifetime = 0, dn_healthInterval = 0 \<rparr>"
      show thesis
        by (rule head [of u ?c]) (use Inr p \<open>ur_scheme u = ''clickhouse''\<close> in \<open>simp_all add: Parse_def dsn_head_def dsn_wrap_def\<close>)
    next
      case False
      obtain e where "\<And>ord. Parse U ord s = Inl e"
        using False Inr \<open>ur_scheme u = ''clickhouse''\<close>
        by (cases "parse_addrs (ur_host u)"; cases "parse_user (ur_user u)"; cases "parse_database (ur_path u)")
          (auto simp: Parse_def dsn_wrap_def)
      then show thesis by (rule fails)
    qed
  qed (use Inr in \<open>auto intro!: fails simp: Parse_def dsn_wrap_def dsn_fail_def\<close>)
qed (auto intro!: fails simp: Parse_def dsn_wrap_def)

lemma Parse_orders:
  assumes U: "query_map U" and ord: "range_order o1" "range_order o2"
  obtains (fail) e e' where "Parse U o1 s = Inl e" "Parse U o2 s = Inl e'"
  | (parse) u c where "dsn_head U s u c" "Parse U o1 s = Inr (options_of U (o1 (ur_query u)) c)"
      "Parse U o2 s = Inr (options_of U (o2 (ur_query u)) c)"
proof (cases rule: Parse_head [of U s])
  case (head u c)
  let ?q = "ur_query u"
  have d: "distinct (map fst ?q)" using U head(1) by (auto simp: query_map_def dsn_head_def)
  have q: "mset (o1 ?q) = mset ?q" "mset (o2 ?q) = mset ?q" using ord by (simp_all add: range_order_def)
  note s = mset_eq_setD [OF q(1)] mset_eq_setD [OF q(2)]
  have d12: "distinct (map fst (o1 ?q))" "distinct (map fst (o2 ?q))"
    using d mset_eq_imp_distinct_iff [of "map fst (o1 ?q)" "map fst ?q"] mset_eq_imp_distinct_iff [of "map fst (o2 ?q)" "map fst ?q"]
    by (simp_all add: q)
  show thesis
  proof (cases "\<forall>(k, v, vs)\<in>set ?q. param_ok U k v")
    case True
    then obtain r1 r2 where "parse_params U (o1 ?q) c = Inr r1" "parse_params U (o2 ?q) c = Inr r2"
      using parse_params_ok [of U "o1 ?q" c] parse_params_ok [of U "o2 ?q" c] s by auto
    with parse_params_options d12 head show thesis by (intro parse [of u c]) auto
  next
    case False
    then obtain e1 e2 where "parse_params U (o1 ?q) c = Inl e1" "parse_params U (o2 ?q) c = Inl e2"
      using parse_params_ok [of U "o1 ?q" c] parse_params_ok [of U "o2 ?q" c] s
      by (cases "parse_params U (o1 ?q) c"; cases "parse_params U (o2 ?q) c") auto
    with head(2) show thesis by (intro fail) auto
  qed
qed (rule fail)

lemma compression_cases:
  "parseCompression t = (if to_lower t \<in> {[], ''none'', ''lz4'', ''true'', ''enabled''} then Some (to_lower t \<in> {''lz4'', ''true'', ''enabled''}) else None)"
  "pool_parseCompression t = (if to_lower t \<in> {[], ''none'', ''lz4'', ''true'', ''enabled''} then Some (to_lower t \<in> {''lz4'', ''true'', ''enabled''}) else None)"
  by (auto simp: parseCompression_def pool_parseCompression_def Let_def)

text \<open>
  C40.
  \<open>ParseDSN\<close> and \<open>ParsePoolDSN\<close> accept the same texts, in whatever orders their calls of \<open>Parse\<close> go
  through the query; where neither does, both fail in \<open>Parse\<close> (not always with the same error) or both
  on the compression, which is one of five spellings in any case. The configurations are what the URL
  says: the options are the values of their keys or zero, the settings are the other parameters, in
  any order. The pool's configuration holds the connection's but for the order of the settings, its
  first address is the connection's, and it leaves what a DSN cannot set at zero.
\<close>

theorem parse_dsn_agree:
  assumes U: "query_map U" and ord: "range_order o1" "range_order o2"
  shows "(case Parse U o1 s of
      Inl e \<Rightarrow> ParsePoolDSN U o1 s = Inl (Inl e) \<and> (\<exists>e'. ParseDSN U o2 s = Inl (Inl e'))
    | Inr r \<Rightarrow>
        if to_lower (dn_compression r) \<notin> {[], ''none'', ''lz4'', ''true'', ''enabled''}
        then ParsePoolDSN U o1 s = Inl (Inr (perr KindConfig ''invalid compress value'')) \<and>
          ParseDSN U o2 s = Inl (Inr (perr KindConfig ''invalid compress value''))
        else \<exists>u g cfg. ul_parse U s = Inr u \<and> ParsePoolDSN U o1 s = Inr g \<and> ParseDSN U o2 s = Inr cfg \<and>
          cfg = (pg_config g)\<lparr>cf_settings := cf_settings cfg\<rparr> \<and>
          mset (cf_settings cfg) = mset (cf_settings (pg_config g)) \<and>
          mset (cf_settings cfg) = mset [(k, v). (k, v, _) \<leftarrow> ur_query u, k \<notin> known_params] \<and>
          parse_addrs (ur_host u) = Inr (pg_addrs g) \<and> cf_addr cfg = hd (pg_addrs g) \<and>
          parse_user (ur_user u) = Inr (cf_user cfg, cf_password cfg) \<and> parse_database (ur_path u) = Inr (cf_database cfg) \<and>
          (let get = query_Get (ur_query u) in
            dn_compression r = opt_of [] Inr (get ''compress'') \<and>
            cf_compression cfg = (to_lower (dn_compression r) \<in> {''lz4'', ''true'', ''enabled''}) \<and>
            cf_dialTimeout cfg = opt_of 0 (ul_duration U) (get ''dial_timeout'') \<and>
            cf_readTimeout cfg = opt_of 0 (ul_duration U) (get ''read_timeout'') \<and>
            cf_writeTimeout cfg = opt_of 0 (ul_duration U) (get ''write_timeout'') \<and>
            pg_maxConns g = opt_of 0 dsn_atoi (get ''pool_max_conns'') \<and>
            pg_minConns g = opt_of 0 dsn_atoi (get ''pool_min_conns'') \<and>
            pg_healthInterval g = opt_of 0 (ul_duration U) (get ''health_check_interval'')) \<and>
          pool_addrs g = pg_addrs g \<and> sub_config g (hd (pg_addrs g)) = pg_config g \<and>
          pg_maxIdle g = 0 \<and> pg_maxLifetime g = 0 \<and> health_timeout g = 5 * 10 ^ 9)"
  (is "?P (Parse U o1 s)")
proof (rule Parse_orders [OF assms, where s = s])
  fix e e' assume "Parse U o1 s = Inl e" "Parse U o2 s = Inl e'"
  then show ?thesis by (simp add: ParsePoolDSN_def ParseDSN_def)
next
  fix u c assume parse: "dsn_head U s u c" "Parse U o1 s = Inr (options_of U (o1 (ur_query u)) c)"
    "Parse U o2 s = Inr (options_of U (o2 (ur_query u)) c)"
  let ?q = "ur_query u"
  let ?r1 = "options_of U (o1 ?q) c" and ?r2 = "options_of U (o2 ?q) c"
  have d: "distinct (map fst ?q)" using U parse(1) by (auto simp: query_map_def dsn_head_def)
  have q: "mset (o1 ?q) = mset ?q" "mset (o2 ?q) = mset ?q" using ord by (simp_all add: range_order_def)
  have g: "query_Get (o1 ?q) = query_Get ?q" "query_Get (o2 ?q) = query_Get ?q"
    using query_Get_mset [OF _ d] q by metis+
  have z: "dn_compression c = []" "dn_dialTimeout c = 0" "dn_readTimeout c = 0" "dn_writeTimeout c = 0" "dn_settings c = []"
    "dn_maxConns c = 0" "dn_minConns c = 0" "dn_maxIdle c = 0" "dn_maxLifetime c = 0" "dn_healthInterval c = 0"
    using parse(1) by (simp_all add: dsn_head_def)
  have h: "parse_addrs (ur_host u) = Inr (dn_addrs c)" "ul_parse U s = Inr u"
    "parse_user (ur_user u) = Inr (dn_user c, dn_password c)" "parse_database (ur_path u) = Inr (dn_database c)"
    using parse(1) unfolding dsn_head_def by blast+
  have a: "dn_addrs c \<noteq> []" using h(1) by (auto simp: parse_addrs_def Let_def sbind_Inr split: if_splits)
  have r: "dn_compression ?r2 = dn_compression ?r1" "dn_compression ?r1 = opt_of [] Inr (query_Get ?q ''compress'')"
    using g z by (simp_all add: options_of_def)
  show ?thesis
  proof (cases "to_lower (dn_compression ?r1) \<in> {[], ''none'', ''lz4'', ''true'', ''enabled''}")
    case False
    then show ?thesis using parse(2,3) r(1) by (simp add: ParsePoolDSN_def ParseDSN_def compression_cases)
  next
    case True
    let ?mode = "to_lower (dn_compression ?r1) \<in> {''lz4'', ''true'', ''enabled''}"
    obtain p where p: "ParsePoolDSN U o1 s = Inr p" "pg_config p = \<lparr> cf_addr = dn_addrs c ! 0, cf_user = dn_user c, cf_password = dn_password c,
        cf_database = dn_database c, cf_compression = ?mode, cf_settings = dn_settings ?r1,
        cf_dialTimeout = dn_dialTimeout ?r1, cf_readTimeout = dn_readTimeout ?r1, cf_writeTimeout = dn_writeTimeout ?r1 \<rparr>"
      "pg_addrs p = dn_addrs c" "pg_maxConns p = dn_maxConns ?r1" "pg_minConns p = dn_minConns ?r1" "pg_healthInterval p = dn_healthInterval ?r1"
      "pg_maxIdle p = 0" "pg_maxLifetime p = 0" "pg_healthTimeout p = 0"
      using parse(2) True z by (simp add: ParsePoolDSN_def compression_cases) (simp add: options_of_def)
    have cf: "ParseDSN U o2 s = Inr \<lparr> cf_addr = dn_addrs c ! 0, cf_user = dn_user c, cf_password = dn_password c,
        cf_database = dn_database c, cf_compression = ?mode, cf_settings = dn_settings ?r2,
        cf_dialTimeout = dn_dialTimeout ?r1, cf_readTimeout = dn_readTimeout ?r1, cf_writeTimeout = dn_writeTimeout ?r1 \<rparr>"
      using parse(3) True r(1) g by (simp add: ParseDSN_def compression_cases) (simp add: options_of_def)
    have m: "mset (dn_settings ?r1) = mset [(k, v). (k, v, _) \<leftarrow> ?q, k \<notin> known_params]"
      "mset (dn_settings ?r2) = mset [(k, v). (k, v, _) \<leftarrow> ?q, k \<notin> known_params]"
      using mset_comprehension [OF q(1)] mset_comprehension [OF q(2)] z by (simp_all add: options_of_def)
    have f: "dn_dialTimeout ?r1 = opt_of 0 (ul_duration U) (query_Get ?q ''dial_timeout'')"
      "dn_readTimeout ?r1 = opt_of 0 (ul_duration U) (query_Get ?q ''read_timeout'')"
      "dn_writeTimeout ?r1 = opt_of 0 (ul_duration U) (query_Get ?q ''write_timeout'')"
      "dn_maxConns ?r1 = opt_of 0 dsn_atoi (query_Get ?q ''pool_max_conns'')"
      "dn_minConns ?r1 = opt_of 0 dsn_atoi (query_Get ?q ''pool_min_conns'')"
      "dn_healthInterval ?r1 = opt_of 0 (ul_duration U) (query_Get ?q ''health_check_interval'')"
      using g z by (simp_all add: options_of_def)
    show ?thesis
      using parse(2) True p(1) cf h a m f r(2)
      by (simp add: p(2-9) Let_def pool_addrs_def sub_config_def health_timeout_def hd_conv_nth)
  qed
qed

theorem parse_dsn_agree_witness:
  "\<exists>g cfg. ParsePoolDSN demo_urllib rev ''clickhouse://u:p@h1,h2:9440/db?compress=LZ4&max_threads=4&readonly=1'' = Inr g \<and>
    ParseDSN demo_urllib id ''clickhouse://u:p@h1,h2:9440/db?compress=LZ4&max_threads=4&readonly=1'' = Inr cfg \<and>
    pg_addrs g = [''h1:9000'', ''h2:9440''] \<and> cf_addr cfg = ''h1:9000'' \<and> cf_user cfg = ''u'' \<and> cf_compression cfg \<and>
    mset (cf_settings cfg) = {#(''max_threads'', ''4''), (''readonly'', ''1'')#} \<and>
    mset (cf_settings (pg_config g)) = {#(''max_threads'', ''4''), (''readonly'', ''1'')#} \<and> pg_maxConns g = 0"
proof -
  let ?s = "''clickhouse://u:p@h1,h2:9440/db?compress=LZ4&max_threads=4&readonly=1''"
  have U: "query_map demo_urllib" by (auto simp: query_map_def demo_urllib_def split: if_splits)
  have o: "range_order rev" "range_order id" by (simp_all add: range_order_def)
  obtain r where r: "Parse demo_urllib rev ?s = Inr r" "dn_addrs r = [''h1:9000'', ''h2:9440'']" "dn_compression r = ''LZ4''"
    using demo_Parse by blast
  have l: "to_lower ''LZ4'' = ''lz4''" by code_simp
  obtain u g cfg where u: "ul_parse demo_urllib ?s = Inr u"
    and g: "ParsePoolDSN demo_urllib rev ?s = Inr g" "ParseDSN demo_urllib id ?s = Inr cfg"
      "mset (cf_settings cfg) = mset (cf_settings (pg_config g))"
      "mset (cf_settings cfg) = mset [(k, v). (k, v, _) \<leftarrow> ur_query u, k \<notin> known_params]"
      "parse_addrs (ur_host u) = Inr (pg_addrs g)" "cf_addr cfg = hd (pg_addrs g)"
      "parse_user (ur_user u) = Inr (cf_user cfg, cf_password cfg)"
      "cf_compression cfg" "pg_maxConns g = opt_of 0 dsn_atoi (query_Get (ur_query u) ''pool_max_conns'')"
    using parse_dsn_agree [OF U o, of ?s] unfolding r(1) sum.case r(3) l by (auto simp: Let_def)
  have u: "u = \<lparr> ur_scheme = ''clickhouse'', ur_host = ''h1,h2:9440'', ur_user = Some (''u'', ''p''), ur_path = ''/db'',
      ur_query = [(''compress'', ''LZ4'', []), (''max_threads'', ''4'', []), (''readonly'', ''1'', [])] \<rparr>"
    using u by (simp add: demo_urllib_def)
  have "pg_addrs g = [''h1:9000'', ''h2:9440'']" using g(5) by (simp add: u demo_addrs)
  with g show ?thesis
    by (intro exI [of _ g] exI [of _ cfg]) (auto simp: u demo_addrs parse_user_def maxFieldBytes_def known_params_def)
qed

end
