(* ===== verification/Tuple_Types.thy ===== *)
theory Tuple_Types
  imports Tuple_Column
begin

text \<open>
  The types \<open>Tuple2\<close> to \<open>Tuple12\<close> of \<^verbatim>\<open>column/tuple_gen.go\<close> with the types of their fields: where
  \<open>Tuple_Column\<close> has a list of fields behind one interface type, a column here is the Go struct, a
  nested pair of the columns of its fields, and a value the nested pair of \<open>T1\<close> to \<open>TN\<close>.
\<close>

section \<open>Fields in order\<close>

text \<open>What the methods of a tuple do with the fields from one on.\<close>

record ('r, 'c, 't) fields =
  fl_len :: "'c \<Rightarrow> nat"
  fl_types :: "ctypes \<Rightarrow> 'c \<Rightarrow> string list"
  fl_append :: "'t \<Rightarrow> 'c \<Rightarrow> 'c go"
  fl_row :: "'c \<Rightarrow> int \<Rightarrow> 't go"
  fl_decode :: "'r preader \<Rightarrow> 'c \<Rightarrow> int \<Rightarrow> ('r, 'c) rdm"
  fl_encode :: "pbuffer \<Rightarrow> 'c \<Rightarrow> byte list \<Rightarrow> byte list go"

definition last_field :: "('r, 'w, 'c, 't) of_ops \<Rightarrow> ('r, 'c, 't) fields" where
  "last_field I = \<lparr>
     fl_len = of_len I,
     fl_types = (\<lambda>C c. [of_type I C c]),
     fl_append = of_append I,
     fl_row = of_row I,
     fl_decode = of_decode I,
     fl_encode = of_encode I \<rparr>"

definition field :: "('r, 'w, 'c, 't) of_ops \<Rightarrow> ('r, 'd, 'u) fields \<Rightarrow> ('r, 'c \<times> 'd, 't \<times> 'u) fields" where
  "field I K = \<lparr>
     fl_len = (\<lambda>(c, d). of_len I c),
     fl_types = (\<lambda>C (c, d). of_type I C c # fl_types K C d),
     fl_append = (\<lambda>(v, u) (c, d). go_bind (of_append I v c) (\<lambda>c. go_bind (fl_append K u d) (\<lambda>d. Ok (c, d)))),
     fl_row = (\<lambda>(c, d) i. go_bind (of_row I c i) (\<lambda>v. go_bind (fl_row K d i) (\<lambda>u. Ok (v, u)))),
     fl_decode = (\<lambda>P (c, d) rows. rbind (of_decode I P c rows) (\<lambda>c. rbind (fl_decode K P d rows) (\<lambda>d. rret (c, d)))),
     fl_encode = (\<lambda>B (c, d) b. go_bind (of_encode I B c b) (fl_encode K B d)) \<rparr>"

section \<open>The methods of a tuple\<close>

record ('r, 'c, 't) tuple_ops =
  tp_new :: "'c \<Rightarrow> 'c"
  tp_name :: "'c \<Rightarrow> string"
  tp_len :: "'c \<Rightarrow> nat"
  tp_type :: "ctypes \<Rightarrow> 'c \<Rightarrow> string"
  tp_append :: "'t \<Rightarrow> 'c \<Rightarrow> 'c go"
  tp_append_arr :: "'t list \<Rightarrow> 'c \<Rightarrow> 'c go"
  tp_row :: "'c \<Rightarrow> int \<Rightarrow> 't go"
  tp_decode :: "'r preader \<Rightarrow> 'c \<Rightarrow> int \<Rightarrow> ('r, 'c) rdm"
  tp_encode :: "pbuffer \<Rightarrow> 'c \<Rightarrow> byte list \<Rightarrow> byte list go"

definition tuple_of :: "('r, 'c, 't) fields \<Rightarrow> ('r, 'c, 't) tuple_ops" where
  "tuple_of K = \<lparr>
     tp_new = (\<lambda>cols. cols),
     tp_name = (\<lambda>c. []),
     tp_len = fl_len K,
     tp_type = (\<lambda>C c. ct_sub C (ct_name C CT_Tuple) (fl_types K C c)),
     tp_append = fl_append K,
     tp_append_arr = go_fold (fl_append K),
     tp_row = fl_row K,
     tp_decode = fl_decode K,
     tp_encode = fl_encode K \<rparr>"

definition Tuple2 where
  "Tuple2 I1 I2 =
     tuple_of (field I1 (last_field I2))"

definition Tuple3 where
  "Tuple3 I1 I2 I3 =
     tuple_of (field I1 (field I2 (last_field I3)))"

definition Tuple4 where
  "Tuple4 I1 I2 I3 I4 =
     tuple_of (field I1 (field I2 (field I3 (last_field I4))))"

definition Tuple5 where
  "Tuple5 I1 I2 I3 I4 I5 =
     tuple_of (field I1 (field I2 (field I3 (field I4 (last_field I5)))))"

definition Tuple6 where
  "Tuple6 I1 I2 I3 I4 I5 I6 =
     tuple_of (field I1 (field I2 (field I3 (field I4 (field I5 (last_field I6))))))"

definition Tuple7 where
  "Tuple7 I1 I2 I3 I4 I5 I6 I7 =
     tuple_of (field I1 (field I2 (field I3 (field I4 (field I5 (field I6 (last_field I7)))))))"

definition Tuple8 where
  "Tuple8 I1 I2 I3 I4 I5 I6 I7 I8 =
     tuple_of (field I1 (field I2 (field I3 (field I4 (field I5 (field I6 (field I7 (last_field I8))))))))"

definition Tuple9 where
  "Tuple9 I1 I2 I3 I4 I5 I6 I7 I8 I9 =
     tuple_of (field I1 (field I2 (field I3 (field I4 (field I5 (field I6 (field I7 (field I8 (last_field I9)))))))))"

definition Tuple10 where
  "Tuple10 I1 I2 I3 I4 I5 I6 I7 I8 I9 I10 =
     tuple_of (field I1 (field I2 (field I3 (field I4 (field I5 (field I6 (field I7 (field I8 (field I9 (last_field I10))))))))))"

definition Tuple11 where
  "Tuple11 I1 I2 I3 I4 I5 I6 I7 I8 I9 I10 I11 =
     tuple_of (field I1 (field I2 (field I3 (field I4 (field I5 (field I6 (field I7 (field I8 (field I9 (field I10 (last_field I11)))))))))))"

definition Tuple12 where
  "Tuple12 I1 I2 I3 I4 I5 I6 I7 I8 I9 I10 I11 I12 =
     tuple_of (field I1 (field I2 (field I3 (field I4 (field I5 (field I6 (field I7 (field I8 (field I9 (field I10 (field I11 (last_field I12))))))))))))"

section \<open>The contract of a list of fields\<close>

text \<open>
  \<open>ok n\<close>: all fields keep the contract of \<open>Of[T]\<close> and have \<open>n\<close> rows; \<open>at\<close> is a row, \<open>image\<close> the fields'
  images one after the other.
\<close>

locale tuple_fields =
  fixes K :: "('r, 'c, 't) fields"
    and ok :: "nat \<Rightarrow> 'c \<Rightarrow> bool"
    and at :: "'c \<Rightarrow> nat \<Rightarrow> 't"
    and image :: "'c \<Rightarrow> byte list"
    and takes :: "'c \<Rightarrow> 't \<Rightarrow> bool"
    and as :: "'c \<Rightarrow> 't \<Rightarrow> 't"
    and same :: "'c \<Rightarrow> 'c \<Rightarrow> bool"
  assumes len: "ok n c \<Longrightarrow> fl_len K c = n"
    and append: "ok n c \<Longrightarrow> takes c v \<Longrightarrow>
      \<exists>c'. fl_append K v c = Ok c' \<and> ok (Suc n) c' \<and> same c c' \<and> (\<forall>i<n. at c' i = at c i) \<and> at c' n = as c v"
    and row: "ok n c \<Longrightarrow> small (image c) \<Longrightarrow> i < n \<Longrightarrow> fl_row K c (int i) = Ok (at c i)"
    and encode: "ok n c \<Longrightarrow> buffer_ok B \<Longrightarrow> small (image c) \<Longrightarrow> fl_encode K B c b = Ok (b @ image c)"
    and decode: "ok n c \<Longrightarrow> ok 0 c0 \<Longrightarrow> same c0 c \<Longrightarrow> reader_ok P pd \<Longrightarrow> small (image c) \<Longrightarrow>
      \<exists>c'. yields pd (fl_decode K P c0 (int n)) (image c) c' \<and> ok n c' \<and> (\<forall>i<n. at c' i = at c i) \<and> image c' = image c"
    and same_refl: "same c c"
    and same_trans: "same c1 c2 \<Longrightarrow> same c2 c3 \<Longrightarrow> same c1 c3"
    and same_takes: "same c1 c2 \<Longrightarrow> takes c1 = takes c2"
    and same_as: "same c1 c2 \<Longrightarrow> as c1 = as c2"
begin

text \<open>\<open>AppendArr\<close>, then the rows, the image and what is decoded from it.\<close>

lemma append_arr:
  "ok n c \<Longrightarrow> list_all (takes c) vs \<Longrightarrow>
    \<exists>c'. go_fold (fl_append K) vs c = Ok c' \<and> ok (n + length vs) c' \<and> same c c' \<and>
      (\<forall>i<n. at c' i = at c i) \<and> (\<forall>j<length vs. at c' (n + j) = as c (vs ! j))"
proof (induction vs arbitrary: n c)
  case Nil
  then show ?case by (simp add: same_refl)
next
  case (Cons v vs)
  obtain c1 where c1: "fl_append K v c = Ok c1" "ok (Suc n) c1" "same c c1" "\<forall>i<n. at c1 i = at c i" "at c1 n = as c v"
    using append [of n c v] Cons.prems by auto
  obtain c2 where c2: "go_fold (fl_append K) vs c1 = Ok c2" "ok (Suc n + length vs) c2" "same c1 c2"
    "\<forall>i<Suc n. at c2 i = at c1 i" "\<forall>j<length vs. at c2 (Suc n + j) = as c1 (vs ! j)"
    using Cons.IH [OF c1(2)] Cons.prems same_takes [OF c1(3)] by auto
  have "at c2 (n + j) = as c ((v # vs) ! j)" if "j < length (v # vs)" for j
    using that c1(5) c2(4,5) same_as [OF c1(3)] by (cases j) auto
  moreover have "\<forall>i<n. at c2 i = at c i" using c1(4) c2(4) by simp
  ultimately show ?case using c1(1) c2(1,2) same_trans [OF c1(3) c2(3)] by auto
qed

lemma roundtrip:
  assumes c: "ok 0 c" "ok 0 c0" "same c0 c" and vs: "list_all (takes c) vs" and P: "reader_ok P pd" and B: "buffer_ok B"
  shows "\<exists>c1. tp_append_arr (tuple_of K) vs c = Ok c1 \<and> tp_len (tuple_of K) c1 = length vs \<and>
    (small (image c1) \<longrightarrow>
      (\<forall>i<length vs. tp_row (tuple_of K) c1 (int i) = Ok (as c (vs ! i))) \<and>
      (\<forall>b. tp_encode (tuple_of K) B c1 b = Ok (b @ image c1)) \<and>
      (\<exists>c2. yields pd (tp_decode (tuple_of K) P c0 (int (length vs))) (image c1) c2 \<and>
        (\<forall>i<length vs. tp_row (tuple_of K) c2 (int i) = Ok (as c (vs ! i)))))"
proof -
  obtain c1 where c1: "go_fold (fl_append K) vs c = Ok c1" "ok (length vs) c1" "same c c1" "\<forall>j<length vs. at c1 j = as c (vs ! j)"
    using append_arr [OF c(1) vs] by auto
  have "\<exists>c2. yields pd (fl_decode K P c0 (int (length vs))) (image c1) c2 \<and>
      (\<forall>i<length vs. fl_row K c2 (int i) = Ok (as c (vs ! i)))" if sm: "small (image c1)"
  proof -
    obtain c2 where "yields pd (fl_decode K P c0 (int (length vs))) (image c1) c2" "ok (length vs) c2"
      "\<forall>i<length vs. at c2 i = at c1 i" "image c2 = image c1"
      using decode [OF c1(2) c(2) same_trans [OF c(3) c1(3)] P sm] by blast
    with c1(4) row [of "length vs" c2] sm show ?thesis by auto
  qed
  moreover have "\<forall>i<length vs. fl_row K c1 (int i) = Ok (as c (vs ! i))" if "small (image c1)"
    using row [OF c1(2) that] c1(4) by simp
  moreover have "\<forall>b. fl_encode K B c1 b = Ok (b @ image c1)" if "small (image c1)"
    using encode [OF c1(2) B that] by simp
  ultimately show ?thesis using c1(1) len [OF c1(2)] by (auto simp: tuple_of_def)
qed

end

text \<open>A column is a list of one field.\<close>

sublocale of_column \<subseteq> last: tuple_fields "last_field I" "\<lambda>n c. inv c \<and> length (rows c) = n" "\<lambda>c i. rows c ! i" wire acc norm like
proof (unfold_locales, goal_cases)
  case (2 n c v)
  then show ?case using append [of c v] by (auto simp: last_field_def nth_append)
next
  case (5 n c c0 P pd)
  then show ?case using decode [of c c0 P pd] by (auto simp: last_field_def)
qed (auto simp: last_field_def len row encode like_refl like_acc like_norm intro: like_trans)

locale tuple_cons = a: of_column I inv rows wire acc norm like + b: tuple_fields K ok at image takes as same
  for I :: "('r, 'w, 'c, 't) of_ops" and inv rows wire acc norm like
    and K :: "('r, 'd, 'u) fields" and ok at image takes as same
begin

definition cons_ok where "cons_ok n = (\<lambda>(c, d). inv c \<and> length (rows c) = n \<and> ok n d)"
definition cons_at where "cons_at = (\<lambda>(c, d) i. (rows c ! i, at d i))"
definition cons_image where "cons_image = (\<lambda>(c, d). wire c @ image d)"
definition cons_takes where "cons_takes = (\<lambda>(c, d) (v, u). acc c v \<and> takes d u)"
definition cons_as where "cons_as = (\<lambda>(c, d) (v, u). (norm c v, as d u))"
definition cons_same where "cons_same = (\<lambda>(c, d) (c', d'). like c c' \<and> same d d')"

lemmas cons_defs = cons_ok_def cons_at_def cons_image_def cons_takes_def cons_as_def cons_same_def

lemma cons_append:
  assumes "cons_ok n p" and "cons_takes p v"
  shows "\<exists>p'. fl_append (field I K) v p = Ok p' \<and> cons_ok (Suc n) p' \<and> cons_same p p' \<and>
    (\<forall>i<n. cons_at p' i = cons_at p i) \<and> cons_at p' n = cons_as p v"
proof -
  obtain c d x u where p: "p = (c, d)" "v = (x, u)" by (cases p; cases v)
  obtain c' where "of_append I x c = Ok c'" "inv c'" "like c c'" "rows c' = rows c @ [norm c x]"
    using a.append [of c x] assms p by (auto simp: cons_defs)
  moreover obtain d' where "fl_append K u d = Ok d'" "ok (Suc n) d'" "same d d'" "\<forall>i<n. at d' i = at d i" "at d' n = as d u"
    using b.append [of n d u] assms p by (auto simp: cons_defs)
  ultimately show ?thesis using assms p by (auto simp: cons_defs field_def nth_append)
qed

lemma cons_decode:
  assumes "cons_ok n p" "cons_ok 0 p0" "cons_same p0 p" "reader_ok P pd" "small (cons_image p)"
  shows "\<exists>p'. yields pd (fl_decode (field I K) P p0 (int n)) (cons_image p) p' \<and> cons_ok n p' \<and>
    (\<forall>i<n. cons_at p' i = cons_at p i) \<and> cons_image p' = cons_image p"
proof -
  obtain c d c0 d0 where p: "p = (c, d)" "p0 = (c0, d0)" by (cases p; cases p0)
  obtain c' where c': "yields pd (of_decode I P c0 (int n)) (wire c) c'" "inv c'" "rows c' = rows c" "wire c' = wire c"
    using a.decode [of c c0 P pd] assms p by (auto simp: cons_defs)
  obtain d' where d': "yields pd (fl_decode K P d0 (int n)) (image d) d'" "ok n d'" "\<forall>i<n. at d' i = at d i" "image d' = image d"
    using b.decode [of n d d0 P pd] assms p by (auto simp: cons_defs)
  have "yields pd (fl_decode (field I K) P p0 (int n)) (wire c @ image d) (c', d')"
    by (simp add: p field_def) (rule yields_bind [OF c'(1)], rule yields_bind_rret [OF d'(1)])
  with c' d' assms p show ?thesis by (intro exI [of _ "(c', d')"]) (auto simp: cons_defs)
qed

end

sublocale tuple_cons \<subseteq> cons: tuple_fields "field I K" cons_ok cons_at cons_image cons_takes cons_as cons_same
proof (unfold_locales, goal_cases)
  case (2 n c v)
  then show ?case by (rule cons_append)
next
  case (5 n c c0 P pd)
  then show ?case by (rule cons_decode)
next
  case (7 c1 c2 c3)
  then show ?case by (auto simp: cons_defs intro: a.like_trans b.same_trans)
next
  case (8 c1 c2)
  then show ?case by (auto simp: cons_defs fun_eq_iff dest: a.like_acc b.same_takes)
next
  case (9 c1 c2)
  then show ?case by (auto simp: cons_defs fun_eq_iff dest: a.like_norm b.same_as)
qed (auto simp: cons_defs field_def a.len a.row b.row a.encode b.encode a.like_refl b.same_refl)

section \<open>An instance\<close>

interpretation tuple_u8_str: tuple_cons "base_ops uint8_t :: (byte list, byte list, byte data_col, byte) of_ops" "\<lambda>_. True" dc_data
    "\<lambda>c. data_image uint8_t (dc_data c)" "\<lambda>_ _. True" "\<lambda>_ x. x" "\<lambda>_ _. True"
    "last_field (str_ops :: (byte list, byte list, str_col, string) of_ops)" "\<lambda>n c. True \<and> length (sc_data c) = n" "\<lambda>c i. sc_data c ! i"
    "\<lambda>c. str_image (sc_data c)" "\<lambda>_ _. True" "\<lambda>_ v. v" "\<lambda>_ _. True"
  by unfold_locales

interpretation tuple_str_u8_str: tuple_cons "str_ops :: (byte list, byte list, str_col, string) of_ops" "\<lambda>_. True" sc_data
    "\<lambda>c. str_image (sc_data c)" "\<lambda>_ _. True" "\<lambda>_ v. v" "\<lambda>_ _. True"
    "field (base_ops uint8_t :: (byte list, byte list, byte data_col, byte) of_ops) (last_field (str_ops :: (byte list, byte list, str_col, string) of_ops))"
    tuple_u8_str.cons_ok tuple_u8_str.cons_at tuple_u8_str.cons_image tuple_u8_str.cons_takes tuple_u8_str.cons_as
    tuple_u8_str.cons_same
  by unfold_locales

text \<open>\<open>Tuple3\<close> of a String, a UInt8 and a String column.\<close>

definition str_u8_str :: "(byte list, str_col \<times> byte data_col \<times> str_col, string \<times> byte \<times> string) tuple_ops" where
  "str_u8_str = Tuple3 (str_ops :: (byte list, byte list, str_col, string) of_ops) (base_ops uint8_t :: (byte list, byte list, byte data_col, byte) of_ops)
     (str_ops :: (byte list, byte list, str_col, string) of_ops)"

lemma tuple3_roundtrip:
  assumes "reader_ok P pd" and "buffer_ok B"
  shows "\<exists>c bs. tp_append_arr str_u8_str vs (tp_new str_u8_str (new_str_col a, new_data_col b, new_str_col d)) = Ok c \<and>
    tp_len str_u8_str c = length vs \<and>
    (small bs \<longrightarrow>
      (\<forall>b. tp_encode str_u8_str B c b = Ok (b @ bs)) \<and>
      (\<exists>c'. yields pd (tp_decode str_u8_str P (new_str_col a, new_data_col b, new_str_col d) (int (length vs))) bs c' \<and>
        (\<forall>i<length vs. tp_row str_u8_str c' (int i) = Ok (vs ! i))))"
proof -
  let ?c = "(new_str_col a, new_data_col b, new_str_col d) :: str_col \<times> byte data_col \<times> str_col"
  have ok: "tuple_str_u8_str.cons_ok 0 ?c"
    unfolding tuple_str_u8_str.cons_ok_def unfolding tuple_u8_str.cons_ok_def by (simp add: new_str_col_def new_data_col_def)
  have v: "list_all (tuple_str_u8_str.cons_takes ?c) vs"
    unfolding tuple_str_u8_str.cons_takes_def by (auto simp: list_all_iff tuple_u8_str.cons_takes_def)
  have as: "tuple_str_u8_str.cons_as ?c v = v" for v :: "string \<times> byte \<times> string"
    unfolding tuple_str_u8_str.cons_as_def unfolding tuple_u8_str.cons_as_def by (simp add: case_prod_beta)
  have new: "tp_new str_u8_str c = c" for c :: "str_col \<times> byte data_col \<times> str_col"
    by (simp add: str_u8_str_def Tuple3_def tuple_of_def)
  obtain c where "tp_append_arr str_u8_str vs ?c = Ok c" "tp_len str_u8_str c = length vs"
    "small (tuple_str_u8_str.cons_image c) \<longrightarrow>
      (\<forall>b. tp_encode str_u8_str B c b = Ok (b @ tuple_str_u8_str.cons_image c)) \<and>
      (\<exists>c'. yields pd (tp_decode str_u8_str P ?c (int (length vs))) (tuple_str_u8_str.cons_image c) c' \<and>
        (\<forall>i<length vs. tp_row str_u8_str c' (int i) = Ok (vs ! i)))"
    unfolding str_u8_str_def Tuple3_def
    using tuple_str_u8_str.cons.roundtrip [OF ok ok tuple_str_u8_str.cons.same_refl v assms, unfolded as] by blast
  then show ?thesis unfolding new by blast
qed

end
