(* ===== verification/Spec2Isabelle.thy ===== *)
theory Spec2Isabelle
  imports Pool_Props Insert_Stream Dsn Tuple_Types
begin

text \<open>
  This library models \<^verbatim>\<open>chu-go\<close>, a ClickHouse client in Go, and proves what its packages promise.
  The module paths below are relative to \<^verbatim>\<open>src/\<close>.

  \<^bold>\<open>The program.\<close> Package \<^verbatim>\<open>column\<close> holds the columns of a table: each decodes a number of rows from
  the wire into typed Go data and encodes that data back. Package \<^verbatim>\<open>conn\<close> is one connection to a
  server; \<^verbatim>\<open>Select\<close> and \<^verbatim>\<open>SelectStream\<close> let the columns a caller has bound decode the blocks of a
  response, \<^verbatim>\<open>Insert\<close> and \<^verbatim>\<open>InsertStream\<close> let them encode a block, and a state with a mutex admits
  one operation at a time. Package \<^verbatim>\<open>pool\<close> keeps one puddle pool of connections per replica,
  hands connections out in turn, retries an operation after a network error and checks the health
  of replicas. Package \<^verbatim>\<open>dsn\<close> parses the text from which \<^verbatim>\<open>conn\<close> and \<^verbatim>\<open>pool\<close> are configured. Below
  them are packages outside the repository: ch-go's \<^verbatim>\<open>proto\<close> and \<^verbatim>\<open>compress\<close>, puddle, shopspring's
  \<^verbatim>\<open>decimal\<close>.

  \<^bold>\<open>Go and the libraries.\<close>
  \<^item> \<^verbatim>\<open>Go_Prelude\<close>: machine integers are words, a Go \<^verbatim>\<open>int\<close> is an \<open>int\<close> with \<open>wrap64\<close> at every
    overflow; an outcome is \<open>Ok\<close>, \<open>Err\<close> or \<open>Panic\<close>, so an error return, an out-of-range index and a
    failed \<^verbatim>\<open>make\<close> are different values; slicing, \<^verbatim>\<open>make\<close> and \<^verbatim>\<open>append\<close>; little-endian images and
    varints; the collections \<open>yields_intros\<close>, \<open>col_defs\<close> and \<open>wire_simps\<close> the components extend.
  \<^item> \<^verbatim>\<open>Go_Strings\<close>: the \<^verbatim>\<open>strconv\<close> and \<^verbatim>\<open>strings\<close> functions that the columns call.
  \<^item> \<^verbatim>\<open>Proto\<close>: ch-go's reader, buffer, writer and column types are records of functions, parameters
    of every definition that uses them. \<open>reader_ok\<close>, \<open>buffer_ok\<close>, \<open>writer_ok\<close> and \<open>ctypes_ok\<close> state
    their documented behaviour over the bytes still to be read and the bytes written, and one
    instance over byte lists satisfies all four. Likewise \<open>lib_ok\<close> (encoders and decoders of
    packets, \<^verbatim>\<open>Conn_Blocks\<close>), \<open>net_ok\<close> (a successful read consumes input, \<^verbatim>\<open>Conn_Exec\<close>), \<open>puddle_ok\<close>
    (\<^verbatim>\<open>Pool_Props\<close>), \<open>declib_ok\<close> (\<^verbatim>\<open>Decimal_Columns\<close>) and \<open>query_map\<close> (a query's keys are distinct,
    \<^verbatim>\<open>Dsn\<close>). Each has an instance on which the properties that assume it are run.

  \<^bold>\<open>Package column.\<close> \<^verbatim>\<open>Column_Iface\<close> is \<^verbatim>\<open>column/column.go\<close>'s interfaces: a method table \<open>of_ops\<close>, and
  the contract \<open>of_column\<close> (\<open>of_column_w\<close> with \<^verbatim>\<open>WriteColumn\<close>) that wrappers rely on: decoding reads
  exactly the wire image of some rows and gives a column with these rows, encoding appends that
  image, a truncated image is an error, \<^verbatim>\<open>Append\<close> and \<^verbatim>\<open>Row\<close> act on the list of rows. Every column
  type below interprets the contract on its own definitions.
  \<^item> \<^verbatim>\<open>Base_Column\<close> (\<^verbatim>\<open>column.go\<close>), \<^verbatim>\<open>Str_Column\<close> (\<^verbatim>\<open>str.go\<close>), \<^verbatim>\<open>FixedString_Column\<close>
    (\<^verbatim>\<open>fixedstring.go\<close>), and over the shared coders of \<^verbatim>\<open>Fixed_Columns\<close>: \<^verbatim>\<open>Value_Columns\<close> (128- and
    256-bit integers, \<^verbatim>\<open>ipv4.go\<close>, \<^verbatim>\<open>ipv6.go\<close>, \<^verbatim>\<open>uuid.go\<close>), \<^verbatim>\<open>Time_Columns\<close> (\<^verbatim>\<open>date.go\<close>, \<^verbatim>\<open>date32.go\<close>,
    \<^verbatim>\<open>datetime.go\<close>, \<^verbatim>\<open>datetime64.go\<close>), \<^verbatim>\<open>Decimal_Columns\<close> (the four decimal files), \<^verbatim>\<open>Enum_Columns\<close>
    (\<^verbatim>\<open>enum8.go\<close>, \<^verbatim>\<open>enum16.go\<close>). \<^verbatim>\<open>Wide_Ints\<close> has the integers themselves: conversions, comparison,
    negation and text.
  \<^item> Wrappers, over the table of the columns they contain: \<^verbatim>\<open>Offsets\<close> and \<^verbatim>\<open>Array_Column\<close>
    (\<^verbatim>\<open>array.go\<close>), \<^verbatim>\<open>Nullable_Column\<close> (\<^verbatim>\<open>nullable.go\<close>), \<^verbatim>\<open>Map_Column\<close> (\<^verbatim>\<open>map.go\<close>, with its type
    parser and \<^verbatim>\<open>newColumnOf\<close>), \<^verbatim>\<open>LowCardinality_Column\<close> (\<^verbatim>\<open>lowcardinality.go\<close>), and the tuples of
    \<^verbatim>\<open>tuple_gen.go\<close>: \<^verbatim>\<open>Tuple_Column\<close> as lists of fields behind one interface type, \<^verbatim>\<open>Tuple_Types\<close> as
    the eleven structs with their own types.

  \<^bold>\<open>Package conn.\<close> \<^verbatim>\<open>Conn_Base\<close> has the monad (connection to outcome and connection, or divergence)
  and the loop \<open>iloop\<close>; \<^verbatim>\<open>Conn_State\<close> the record of \<^verbatim>\<open>conn.go\<close>, its life cycle, \<^verbatim>\<open>Connect\<close>,
  \<^verbatim>\<open>config.go\<close> and \<^verbatim>\<open>blockinfo.go\<close>; \<^verbatim>\<open>Conn_Exec\<close>, \<^verbatim>\<open>Conn_Select\<close> and \<^verbatim>\<open>Conn_Stream\<close> the files
  \<^verbatim>\<open>exec.go\<close>, \<^verbatim>\<open>select.go\<close> with \<^verbatim>\<open>column.go\<close> and \<^verbatim>\<open>insert.go\<close>, and \<^verbatim>\<open>stream.go\<close>. The release function
  of a stream is a closure: it acts on the connection and on a state \<open>'x\<close> that it has captured, so
  the methods that call it (\<^verbatim>\<open>Close\<close>, \<^verbatim>\<open>Release\<close>) run on the stream and that state. Four theories hold
  lemmas only: \<^verbatim>\<open>Conn_Columns\<close> derives the contract \<open>conn_column\<close> of a bound column from the column
  contracts, \<^verbatim>\<open>Conn_Blocks\<close> proves that an inserted block is read back and what \<^verbatim>\<open>Select\<close> makes of a
  response, \<^verbatim>\<open>Conn_Lock\<close> treats interleavings (the step relation \<open>conn_step\<close>) and errors, and
  \<^verbatim>\<open>Insert_Stream\<close> the life of an \<^verbatim>\<open>InsertStream\<close> and what its blocks lack beside those of \<^verbatim>\<open>Insert\<close>.

  \<^bold>\<open>Packages pool and dsn.\<close> \<^verbatim>\<open>Pool\<close> is \<^verbatim>\<open>pool.go\<close>, \<^verbatim>\<open>poolconn.go\<close> and \<^verbatim>\<open>config.go\<close>, \<^verbatim>\<open>Pool_Props\<close> its
  lemmas over the set of resources that are out. Puddle panics on giving back what is not out, and
  the streams of a pool have a release function that has captured the pool, so a release too many
  or too few is seen in the model. \<^verbatim>\<open>Dsn\<close> is \<^verbatim>\<open>dsn/dsn.go\<close>, \<^verbatim>\<open>conn/dsn.go\<close> and \<^verbatim>\<open>pool/dsn.go\<close>, the last
  two with their own copies of the same code. The order in which \<^verbatim>\<open>range\<close> goes through the query, a Go
  map, is an argument of every call.

  \<^bold>\<open>What is shown.\<close>
  \<^item> Round trips: of every column on the wire, of a whole block from \<^verbatim>\<open>Insert\<close> to \<^verbatim>\<open>Select\<close>, of the
    conversions and type names.
  \<^item> Bounds and overflow: wide integers, decimals, times, row counts and allocation sizes.
  \<^item> Errors and panics: which malformed inputs a decoder rejects and which make it panic.
  \<^item> Termination: \<^verbatim>\<open>Exec\<close>, \<^verbatim>\<open>Ping\<close>, \<^verbatim>\<open>Select\<close>, \<^verbatim>\<open>Insert\<close> and the streams return whatever bytes the
    peer sends until its end of the connection closes; each hands its connection back.
  \<^item> Invariants: the keys of a LowCardinality column, the lock of a connection under any
    interleaving, the accounting of connections taken from a pool.
  \<^item> Where the code departs from its intention the theorem states what it does, and the condition
    under which it does what is meant (Int256 comparison, array offsets, blocks of an \<^verbatim>\<open>InsertStream\<close>).

  \<^bold>\<open>Bounds and loops.\<close> A single allocation is at most \<open>maxAlloc\<close>, 2 to the 48 bytes, the address
  space of the Go runtime on 64-bit machines; round trips assume images below 2 to the 40 bytes,
  which no field of the protocol exceeds in practice and which keeps sums below \<open>maxAlloc\<close>. The
  limits of the source are kept: 10 to the 6 columns and 10 to the 8 rows in a block, 10 to the 8
  entries in a dictionary. No definition uses fuel: a loop of the source is structural recursion,
  or recursion with a measure, or, for the packet loops, \<open>partial_function (option)\<close> with \<open>None\<close>
  for a loop that never ends. That it ends is a theorem, by the measure \<open>net_ok\<close> gives the reader.
  In \<^verbatim>\<open>Pool\<close>, \<open>None\<close> is an operation that waits for another goroutine.

  \<^bold>\<open>Not modelled.\<close>
  \<^item> The capacity of slices where no branch depends on it (so a slice expression whose upper bound is
    between length and capacity panics in the model, not in Go; no property rests on it), the sharing of memory between strings and
    their buffer, and what a receiver holds after a failed decode.
  \<^item> The numbers that \<^verbatim>\<open>fmt.Sprintf\<close> prints into messages. Kind, server code and the constant part of
    an error's text are kept.
  \<^item> TLS, the dial timeout, and cancellation other than at the points where the code looks
    at the context.
  \<^item> Concurrency beyond \<open>conn_step\<close>: the operations of a pool run one after the other.
  \<^item> \<^verbatim>\<open>url.Parse\<close>, \<^verbatim>\<open>time.ParseDuration\<close>, the time zone database and puddle, which are parameters.
  \<^item> \<^verbatim>\<open>column/gen/main.go\<close>, which prints \<^verbatim>\<open>tuple_gen.go\<close>, and \<^verbatim>\<open>scorch.go\<close>, two type aliases.
\<close>

end
